(* ===== verification/Prelude.thy ===== *)
theory Prelude
  imports Complex_Main "HOL-Library.Char_ord" "HOL-Library.List_Lexorder"
begin

text \<open>
  The prelude of the development: the state-and-exception operations in which every effectful
  method of the program is written, the two judgements proved about them (what a run may change,
  which exceptions it may raise), and the list lemmas the components share.
\<close>

section \<open>Operations: state passing with exceptions\<close>

text \<open>
  A Python method that mutates state and may raise is an operation: it takes the state and
  returns the exception or the value, together with the state it leaves. The state survives an
  exception, as a mutation made before a \<^verbatim>\<open>raise\<close> does.
\<close>

type_synonym ('s, 'e, 'a) op = "'s \<Rightarrow> ('e + 'a) \<times> 's"

named_theorems op_simps "unfolding rules of the operations"
named_theorems evolve_intros "introduction rules for what an operation may change"
named_theorems raise_intros "introduction rules for the exceptions an operation may raise"

definition ret :: "'a \<Rightarrow> ('s, 'e, 'a) op" where
  "ret x = (\<lambda>s. (Inr x, s))"

definition throw :: "'e \<Rightarrow> ('s, 'e, 'a) op" where
  "throw e = (\<lambda>s. (Inl e, s))"

definition bind_op :: "('s, 'e, 'a) op \<Rightarrow> ('a \<Rightarrow> ('s, 'e, 'b) op) \<Rightarrow> ('s, 'e, 'b) op" where
  "bind_op m f = (\<lambda>s. case m s of (Inl e, t) \<Rightarrow> (Inl e, t) | (Inr x, t) \<Rightarrow> f x t)"

definition then_op :: "('s, 'e, 'a) op \<Rightarrow> ('s, 'e, 'b) op \<Rightarrow> ('s, 'e, 'b) op" where
  "then_op m n = bind_op m (\<lambda>_. n)"

text \<open>\<^verbatim>\<open>try: m except e: h(e)\<close>; a handler that does not want the exception re-raises it.\<close>

definition catch_op :: "('s, 'e, 'a) op \<Rightarrow> ('e \<Rightarrow> ('s, 'e, 'a) op) \<Rightarrow> ('s, 'e, 'a) op" where
  "catch_op m h = (\<lambda>s. case m s of (Inl e, t) \<Rightarrow> h e t | (Inr x, t) \<Rightarrow> (Inr x, t))"

text \<open>A pure computation that may raise, lifted to an operation.\<close>

definition lift_op :: "'e + 'a \<Rightarrow> ('s, 'e, 'a) op" where
  "lift_op r = (\<lambda>s. (r, s))"

definition modify_op :: "('s \<Rightarrow> 's) \<Rightarrow> ('s, 'e, unit) op" where
  "modify_op f = (\<lambda>s. (Inr (), f s))"

definition gets_op :: "('s \<Rightarrow> 'a) \<Rightarrow> ('s, 'e, 'a) op" where
  "gets_op f = (\<lambda>s. (Inr (f s), s))"

text \<open>A \<^verbatim>\<open>for\<close> loop whose body returns nothing: it stops at the first exception.\<close>

fun for_each :: "('x \<Rightarrow> ('s, 'e, unit) op) \<Rightarrow> 'x list \<Rightarrow> ('s, 'e, unit) op" where
  "for_each f [] = ret ()"
| "for_each f (x # xs) = then_op (f x) (for_each f xs)"

lemmas op_defs [op_simps] = ret_def throw_def bind_op_def then_op_def catch_op_def lift_op_def
  modify_op_def gets_op_def

lemma bind_ret [simp]: "bind_op (ret x) f = f x"
  by (simp add: bind_op_def ret_def)

lemma bind_ret_right [simp]: "bind_op m ret = m"
  by (auto simp: bind_op_def ret_def fun_eq_iff split: prod.splits sum.splits)

lemma bind_throw [simp]: "bind_op (throw e) f = throw e"
  by (simp add: bind_op_def throw_def)

lemma bind_op_assoc: "bind_op (bind_op m f) g = bind_op m (\<lambda>x. bind_op (f x) g)"
  by (auto simp: bind_op_def fun_eq_iff split: prod.splits sum.splits)

lemma for_each_append:
  "for_each f (xs @ ys) = then_op (for_each f xs) (for_each f ys)"
  by (induction xs) (simp_all add: then_op_def bind_op_assoc)

text \<open>Running a sequence whose first operation is known to return, or to raise.\<close>

lemma run_bind_Inr: "m s = (Inr x, t) \<Longrightarrow> bind_op m f s = f x t"
  by (simp add: bind_op_def)

lemma run_bind_Inl: "m s = (Inl e, t) \<Longrightarrow> bind_op m f s = (Inl e, t)"
  by (simp add: bind_op_def)

lemma run_then_Inr: "m s = (Inr x, t) \<Longrightarrow> then_op m n s = n t"
  by (simp add: then_op_def bind_op_def)

lemma run_then_Inl: "m s = (Inl e, t) \<Longrightarrow> then_op m n s = (Inl e, t)"
  by (simp add: then_op_def bind_op_def)

lemma bind_lift [simp]:
  "bind_op (lift_op (Inr x)) f = f x" "bind_op (lift_op (Inl e)) f = throw e"
  by (simp_all add: bind_op_def lift_op_def throw_def)

lemmas run_simps = run_bind_Inr run_bind_Inl run_then_Inr run_then_Inl

lemma bind_op_eqE:
  assumes "bind_op m f s = (r, t)"
  obtains (raised) e where "m s = (Inl e, t)" and "r = Inl e"
    | (continued) x u where "m s = (Inr x, u)" and "f x u = (r, t)"
  using assms by (auto simp: bind_op_def split: prod.splits sum.splits)

lemma map_sum_id_Inr [simp]: "map_sum f id x = Inr y \<longleftrightarrow> x = Inr y"
  by (cases x) simp_all

lemma map_sum_id_Inl [simp]: "map_sum f id x = Inl e \<longleftrightarrow> (\<exists>e'. x = Inl e' \<and> e = f e')"
  by (cases x) auto

section \<open>What an operation may change\<close>

text \<open>
  \<open>evolves R m\<close>: whatever the outcome, the state \<open>m\<close> leaves is related by \<open>R\<close> to the state it
  started in. With a reflexive and transitive \<open>R\<close> the judgement is closed under sequencing and
  exception handling, which is how frame conditions and invariants are carried through handlers.
\<close>

definition evolves :: "('s \<Rightarrow> 's \<Rightarrow> bool) \<Rightarrow> ('s, 'e, 'a) op \<Rightarrow> bool" where
  "evolves R m \<longleftrightarrow> (\<forall>s. R s (snd (m s)))"

definition preorder_rel :: "('s \<Rightarrow> 's \<Rightarrow> bool) \<Rightarrow> bool" where
  "preorder_rel R \<longleftrightarrow> (\<forall>s. R s s) \<and> (\<forall>s t u. R s t \<longrightarrow> R t u \<longrightarrow> R s u)"

text \<open>Keeping an invariant is one such relation.\<close>

definition keeps :: "('s \<Rightarrow> bool) \<Rightarrow> 's \<Rightarrow> 's \<Rightarrow> bool" where
  "keeps P s t \<longleftrightarrow> (P s \<longrightarrow> P t)"

lemma preorder_keeps [simp, intro]: "preorder_rel (keeps P)"
  by (auto simp: preorder_rel_def keeps_def)

lemma preorder_conj: "preorder_rel R \<Longrightarrow> preorder_rel S \<Longrightarrow> preorder_rel (\<lambda>s t. R s t \<and> S s t)"
  unfolding preorder_rel_def by blast

lemma preorder_refl: "preorder_rel R \<Longrightarrow> R s s"
  by (simp add: preorder_rel_def)

lemma preorder_trans: "preorder_rel R \<Longrightarrow> R s t \<Longrightarrow> R t u \<Longrightarrow> R s u"
  unfolding preorder_rel_def by blast

lemma evolvesI: "(\<And>s. R s (snd (m s))) \<Longrightarrow> evolves R m"
  by (simp add: evolves_def)

lemma evolvesD: "evolves R m \<Longrightarrow> m s = (r, t) \<Longrightarrow> R s t"
  by (metis evolves_def snd_conv)

lemma evolves_ret [evolve_intros]: "preorder_rel R \<Longrightarrow> evolves R (ret x)"
  by (simp add: evolves_def ret_def preorder_refl)

lemma evolves_throw [evolve_intros]: "preorder_rel R \<Longrightarrow> evolves R (throw e)"
  by (simp add: evolves_def throw_def preorder_refl)

lemma evolves_lift [evolve_intros]: "preorder_rel R \<Longrightarrow> evolves R (lift_op r)"
  by (simp add: evolves_def lift_op_def preorder_refl)

lemma evolves_gets [evolve_intros]: "preorder_rel R \<Longrightarrow> evolves R (gets_op f)"
  by (simp add: evolves_def gets_op_def preorder_refl)

lemma evolves_bind [evolve_intros]:
  assumes "preorder_rel R" and "evolves R m" and "\<And>x. evolves R (f x)"
  shows "evolves R (bind_op m f)"
proof (rule evolvesI)
  fix s
  obtain r t where m: "m s = (r, t)" by fastforce
  then have "R s t" using assms(2) by (rule evolvesD [rotated])
  then show "R s (snd (bind_op m f s))"
    using m assms(3) preorder_trans [OF assms(1)]
    by (cases r) (auto simp: bind_op_def evolves_def)
qed

lemma evolves_then [evolve_intros]:
  "preorder_rel R \<Longrightarrow> evolves R m \<Longrightarrow> evolves R n \<Longrightarrow> evolves R (then_op m n)"
  by (simp add: then_op_def evolves_bind)

lemma evolves_catch [evolve_intros]:
  assumes "preorder_rel R" and "evolves R m" and "\<And>e. evolves R (h e)"
  shows "evolves R (catch_op m h)"
proof (rule evolvesI)
  fix s
  obtain r t where m: "m s = (r, t)" by fastforce
  then have "R s t" using assms(2) by (rule evolvesD [rotated])
  then show "R s (snd (catch_op m h s))"
    using m assms(3) preorder_trans [OF assms(1)]
    by (cases r) (auto simp: catch_op_def evolves_def)
qed

lemma evolves_for_each [evolve_intros]:
  assumes "preorder_rel R" and "\<And>x. evolves R (f x)"
  shows "evolves R (for_each f xs)"
  using assms by (induction xs) (auto intro!: evolve_intros)

lemma evolves_if [evolve_intros]:
  "evolves R m \<Longrightarrow> evolves R n \<Longrightarrow> evolves R (if b then m else n)"
  by simp

lemma evolves_option [evolve_intros]:
  "evolves R m \<Longrightarrow> (\<And>x. evolves R (f x)) \<Longrightarrow> evolves R (case v of None \<Rightarrow> m | Some x \<Rightarrow> f x)"
  by (cases v) simp_all

lemma evolves_mono: "evolves R m \<Longrightarrow> (\<And>s t. R s t \<Longrightarrow> S s t) \<Longrightarrow> evolves S m"
  by (simp add: evolves_def)

section \<open>Which exceptions an operation may raise\<close>

definition raises_only :: "('e \<Rightarrow> bool) \<Rightarrow> ('s, 'e, 'a) op \<Rightarrow> bool" where
  "raises_only E m \<longleftrightarrow> (\<forall>s e t. m s = (Inl e, t) \<longrightarrow> E e)"

lemma raises_onlyD: "raises_only E m \<Longrightarrow> m s = (Inl e, t) \<Longrightarrow> E e"
  by (auto simp: raises_only_def)

lemma raises_ret [raise_intros]: "raises_only E (ret x)"
  by (simp add: raises_only_def ret_def)

lemma raises_throw [raise_intros]: "E e \<Longrightarrow> raises_only E (throw e)"
  by (simp add: raises_only_def throw_def)

lemma raises_lift [raise_intros]: "(\<And>e. r = Inl e \<Longrightarrow> E e) \<Longrightarrow> raises_only E (lift_op r)"
  by (simp add: raises_only_def lift_op_def)

lemma raises_gets [raise_intros]: "raises_only E (gets_op f)"
  by (simp add: raises_only_def gets_op_def)

lemma raises_modify [raise_intros]: "raises_only E (modify_op f)"
  by (simp add: raises_only_def modify_op_def)

lemma raises_bind [raise_intros]:
  "raises_only E m \<Longrightarrow> (\<And>x. raises_only E (f x)) \<Longrightarrow> raises_only E (bind_op m f)"
  by (fastforce simp: raises_only_def bind_op_def split: prod.splits sum.splits)

lemma raises_then [raise_intros]:
  "raises_only E m \<Longrightarrow> raises_only E n \<Longrightarrow> raises_only E (then_op m n)"
  by (simp add: then_op_def raises_bind)

lemma raises_catch [raise_intros]:
  "raises_only F m \<Longrightarrow> (\<And>e. F e \<Longrightarrow> raises_only E (h e)) \<Longrightarrow> raises_only E (catch_op m h)"
  by (fastforce simp: raises_only_def catch_op_def split: prod.splits sum.splits)

lemma raises_for_each [raise_intros]:
  "(\<And>x. x \<in> set xs \<Longrightarrow> raises_only E (f x)) \<Longrightarrow> raises_only E (for_each f xs)"
  by (induction xs) (auto intro!: raise_intros)

section \<open>When an operation returns\<close>

text \<open>
  \<open>returns P m\<close>: from a state with \<open>P\<close> the operation returns, in a state with \<open>P\<close>.
\<close>

named_theorems return_intros "introduction rules for operations that return"

definition returns :: "('s \<Rightarrow> bool) \<Rightarrow> ('s, 'e, 'a) op \<Rightarrow> bool" where
  "returns P m \<longleftrightarrow> (\<forall>s. P s \<longrightarrow> (\<exists>x t. m s = (Inr x, t) \<and> P t))"

lemma returnsI: "(\<And>s. P s \<Longrightarrow> \<exists>x t. m s = (Inr x, t) \<and> P t) \<Longrightarrow> returns P m"
  by (simp add: returns_def)

lemma returnsD: "returns P m \<Longrightarrow> P s \<Longrightarrow> m s = (r, t) \<Longrightarrow> (\<exists>x. r = Inr x) \<and> P t"
  by (fastforce simp: returns_def)

lemma returns_ret [return_intros]: "returns P (ret x)"
  by (simp add: returns_def ret_def)

lemma returns_bind [return_intros]: "returns P m \<Longrightarrow> (\<And>x. returns P (f x)) \<Longrightarrow> returns P (bind_op m f)"
  by (fastforce simp: returns_def bind_op_def)

lemma returns_then [return_intros]: "returns P m \<Longrightarrow> returns P n \<Longrightarrow> returns P (then_op m n)"
  by (simp add: then_op_def returns_bind)

lemma returns_catch [return_intros]: "returns P m \<Longrightarrow> returns P (catch_op m h)"
  by (fastforce simp: returns_def catch_op_def)

lemma returns_for_each [return_intros]: "(\<And>x. x \<in> set xs \<Longrightarrow> returns P (f x)) \<Longrightarrow> returns P (for_each f xs)"
  by (induction xs) (auto intro!: return_intros)

section \<open>Rows in list tables\<close>

text \<open>
  A table is the list of its rows; a primary key or a unique key is a function of the row that is
  injective on the table (\<open>distinct (map key rows)\<close>).
\<close>

definition update_where :: "('r \<Rightarrow> bool) \<Rightarrow> ('r \<Rightarrow> 'r) \<Rightarrow> 'r list \<Rightarrow> 'r list" where
  "update_where p f rows = map (\<lambda>r. if p r then f r else r) rows"

lemma set_update_where: "set (update_where p f rows) = (\<lambda>r. if p r then f r else r) ` set rows"
  by (simp add: update_where_def)

lemma length_update_where [simp]: "length (update_where p f rows) = length rows"
  by (simp add: update_where_def)

lemma map_update_where [simp]:
  "(\<And>r. p r \<Longrightarrow> key (f r) = key r) \<Longrightarrow> map key (update_where p f rows) = map key rows"
  by (simp add: update_where_def)

lemma distinct_map_eqD:
  "distinct (map key rows) \<Longrightarrow> r \<in> set rows \<Longrightarrow> r' \<in> set rows \<Longrightarrow> key r = key r' \<Longrightarrow> r = r'"
  by (auto simp: distinct_map inj_on_def)

lemma filter_key_unique:
  assumes "distinct (map key rows)" and "r \<in> set rows"
  shows "filter (\<lambda>x. key x = key r) rows = [r]"
  using assms
proof (induction rows)
  case Nil
  then show ?case by simp
next
  case (Cons a rows)
  show ?case
  proof (cases "a = r")
    case True
    with Cons.prems(1) have "\<forall>x \<in> set rows. key x \<noteq> key r" by (auto simp: image_iff)
    then have "filter (\<lambda>x. key x = key r) rows = []" by (simp add: filter_empty_conv)
    with True show ?thesis by simp
  next
    case False
    with Cons.prems have "key a \<noteq> key r" by (auto simp: image_iff)
    with False Cons show ?thesis by simp
  qed
qed

lemma filter_key_cases:
  assumes "distinct (map key rows)"
  shows "filter (\<lambda>x. key x = k) rows = [] \<or> (\<exists>r \<in> set rows. key r = k \<and> filter (\<lambda>x. key x = k) rows = [r])"
proof (cases "\<exists>r \<in> set rows. key r = k")
  case True
  with assms show ?thesis by (metis filter_key_unique)
next
  case False
  then show ?thesis by (auto simp: filter_empty_conv)
qed

lemma find_update_where:
  assumes "distinct (map ident rows)" and "find (\<lambda>d. key d = k) rows = Some p"
    and "\<And>d. ident (f d) = ident d \<and> key (f d) = key d"
  shows "find (\<lambda>d. key d = k) (update_where (\<lambda>d. ident d = ident p) f rows) = Some (f p)"
  using assms
proof (induction rows)
  case Nil
  then show ?case by simp
next
  case (Cons a rows)
  show ?case
  proof (cases "key a = k")
    case True
    with Cons show ?thesis by (simp add: update_where_def)
  next
    case False
    with Cons.prems have p: "find (\<lambda>d. key d = k) rows = Some p" by simp
    then have "ident p \<in> ident ` set rows" by (metis find_Some_iff2 image_eqI nth_mem)
    with Cons.prems(1) have "ident a \<noteq> ident p" by auto
    with Cons False p show ?thesis by (simp add: update_where_def)
  qed
qed

text \<open>An update of some rows, seen by a key it keeps and by a filter it does not touch.\<close>

lemma find_update_key:
  assumes "\<And>d. key (f d) = key d"
  shows "find (\<lambda>d. key d = k) (update_where p f rows) =
    map_option (\<lambda>d. if p d then f d else d) (find (\<lambda>d. key d = k) rows)"
  using assms by (induction rows) (auto simp: update_where_def)

lemma filter_update_other:
  assumes "\<And>d. p d \<Longrightarrow> \<not> q d \<and> \<not> q (f d)"
  shows "filter q (update_where p f rows) = filter q rows"
  using assms by (induction rows) (auto simp: update_where_def)

lemma find_append_new: "k \<notin> key ` set rows \<Longrightarrow> key d = k \<Longrightarrow> find (\<lambda>d. key d = k) (rows @ [d]) = Some d"
  by (induction rows) auto

lemma find_key_Some: "find (\<lambda>d. key d = k) rows = Some d \<Longrightarrow> d \<in> set rows \<and> key d = k"
  by (metis (mono_tags, lifting) find_Some_iff2 nth_mem)

lemma find_key_image: "(k \<in> key ` set rows) = (\<exists>d. find (\<lambda>d. key d = k) rows = Some d)"
  by (cases "find (\<lambda>d. key d = k) rows") (auto simp: find_None_iff dest: find_key_Some)

lemma find_key_member: "distinct (map key rows) \<Longrightarrow> r \<in> set rows \<Longrightarrow> find (\<lambda>d. key d = key r) rows = Some r"
  by (induction rows) (auto simp: image_iff)

lemma find_filter: "find p xs = (case filter p xs of [] \<Rightarrow> None | x # _ \<Rightarrow> Some x)"
  by (induction xs) auto

end
