(* ===== verification/Errors.thy ===== *)
theory Errors
  imports Prelude
begin

text \<open>
  The exception hierarchy of \<^verbatim>\<open>src/errors.py\<close> (with \<^verbatim>\<open>JevClientError\<close> of \<^verbatim>\<open>src/jev.py\<close>) and the
  exceptions of Python and of the libraries that cross the program's boundaries. A constructor
  carries the message, the \<^verbatim>\<open>str(err)\<close> the program persists and logs.
\<close>

section \<open>Exceptions\<close>

datatype exn =
    CategoryFileError string
  | SourceError string
  | ExtractionError string
  | UnsupportedFormatError string
  | OutputError string
  | ClassificationError string
  | PersistenceError string
  | GraphError string
  | QueueError string
  | JevClientError string
  | ValueError string
  | KeyError string
  | AttributeError string
  | ValidationError string
  | SQLAlchemyError string
  | AzureError string
  | ClientAuthenticationError string
  | OSError string
  | PyPdfError string
  | PackageNotFoundError string
  | BadZipFile string
  | HTTPError string
  | TypeSafeError string
  | RuntimeError string
  | NotImplementedError string
  | SystemExit string
  | OtherError string

text \<open>
  The classes that derive from \<^verbatim>\<open>AppError\<close>, the classes below \<^verbatim>\<open>ExtractionError\<close>
  (\<^verbatim>\<open>UnsupportedFormatError\<close> is one), as \<^verbatim>\<open>except\<close> clauses test them.
\<close>

fun is_app_error :: "exn \<Rightarrow> bool" where
  "is_app_error (CategoryFileError _) = True"
| "is_app_error (SourceError _) = True"
| "is_app_error (ExtractionError _) = True"
| "is_app_error (UnsupportedFormatError _) = True"
| "is_app_error (OutputError _) = True"
| "is_app_error (ClassificationError _) = True"
| "is_app_error (PersistenceError _) = True"
| "is_app_error (GraphError _) = True"
| "is_app_error (QueueError _) = True"
| "is_app_error (JevClientError _) = True"
| "is_app_error _ = False"

fun is_extraction_error :: "exn \<Rightarrow> bool" where
  "is_extraction_error (ExtractionError _) = True"
| "is_extraction_error (UnsupportedFormatError _) = True"
| "is_extraction_error _ = False"

fun is_classification_error :: "exn \<Rightarrow> bool" where
  "is_classification_error (ClassificationError _) = True"
| "is_classification_error _ = False"

fun is_unsupported :: "exn \<Rightarrow> bool" where
  "is_unsupported (UnsupportedFormatError _) = True"
| "is_unsupported _ = False"

fun is_os_error :: "exn \<Rightarrow> bool" where
  "is_os_error (OSError _) = True"
| "is_os_error _ = False"

fun is_azure_error :: "exn \<Rightarrow> bool" where
  "is_azure_error (AzureError _) = True"
| "is_azure_error (ClientAuthenticationError _) = True"
| "is_azure_error _ = False"

fun is_sqlalchemy_error :: "exn \<Rightarrow> bool" where
  "is_sqlalchemy_error (SQLAlchemyError _) = True"
| "is_sqlalchemy_error _ = False"

fun is_validation_error :: "exn \<Rightarrow> bool" where
  "is_validation_error (ValidationError _) = True"
| "is_validation_error _ = False"

text \<open>\<^verbatim>\<open>str(err)\<close>.\<close>

fun exn_str :: "exn \<Rightarrow> string" where
  "exn_str (CategoryFileError m) = m"
| "exn_str (SourceError m) = m"
| "exn_str (ExtractionError m) = m"
| "exn_str (UnsupportedFormatError m) = m"
| "exn_str (OutputError m) = m"
| "exn_str (ClassificationError m) = m"
| "exn_str (PersistenceError m) = m"
| "exn_str (GraphError m) = m"
| "exn_str (QueueError m) = m"
| "exn_str (JevClientError m) = m"
| "exn_str (ValueError m) = m"
| "exn_str (RuntimeError m) = m"
| "exn_str (NotImplementedError m) = m"
| "exn_str (SystemExit m) = m"
| "exn_str (KeyError m) = m"
| "exn_str (AttributeError m) = m"
| "exn_str (ValidationError m) = m"
| "exn_str (SQLAlchemyError m) = m"
| "exn_str (AzureError m) = m"
| "exn_str (ClientAuthenticationError m) = m"
| "exn_str (OSError m) = m"
| "exn_str (PyPdfError m) = m"
| "exn_str (PackageNotFoundError m) = m"
| "exn_str (BadZipFile m) = m"
| "exn_str (HTTPError m) = m"
| "exn_str (TypeSafeError m) = m"
| "exn_str (OtherError m) = m"

section \<open>Results\<close>

text \<open>A call that may raise, followed by what uses its value; and a loop that stops at the first exception.\<close>

definition bind_result :: "exn + 'a \<Rightarrow> ('a \<Rightarrow> exn + 'b) \<Rightarrow> exn + 'b" where
  "bind_result r f = (case r of Inl e \<Rightarrow> Inl e | Inr x \<Rightarrow> f x)"

fun collect_results :: "('a \<Rightarrow> exn + 'b) \<Rightarrow> 'a list \<Rightarrow> exn + 'b list" where
  "collect_results f [] = Inr []"
| "collect_results f (x # xs) = bind_result (f x) (\<lambda>y. bind_result (collect_results f xs) (\<lambda>ys. Inr (y # ys)))"

lemma bind_result_Inr_iff: "bind_result r f = Inr y \<longleftrightarrow> (\<exists>x. r = Inr x \<and> f x = Inr y)"
  by (cases r) (auto simp: bind_result_def)

lemma bind_result_Inl_iff: "bind_result r f = Inl e \<longleftrightarrow> r = Inl e \<or> (\<exists>x. r = Inr x \<and> f x = Inl e)"
  by (cases r) (auto simp: bind_result_def)

lemma extraction_error_is_app_error: "is_extraction_error e \<Longrightarrow> is_app_error e"
  by (cases e) auto

lemma classification_error_is_app_error: "is_classification_error e \<Longrightarrow> is_app_error e"
  by (cases e) auto

lemma unsupported_is_extraction_error: "is_unsupported e \<Longrightarrow> is_extraction_error e"
  by (cases e) auto

end
