(* ===== verification/PyText.thy ===== *)
theory PyText
  imports Prelude "HOL-Library.Word"
begin

text \<open>
  Python's \<^verbatim>\<open>str\<close> and \<^verbatim>\<open>bytes\<close> operations, as far as the program uses them.

  A \<open>string\<close> models a Python \<^verbatim>\<open>str\<close> whose code points are below 256: character \<open>c\<close> is the code point
  \<open>of_char c\<close>. Names, paths, identifiers, MIME types, messages and category files are strings.
  The text of a document is decoded from bytes and may hold any code point, so it is a list of
  code points (\<open>utext\<close>). White space, lower case, line boundaries and printability are those of
  the Python data model on these code points.
\<close>

type_synonym utext = "nat list"
type_synonym bytes = "8 word list"

section \<open>White space and stripping\<close>

definition is_space_cp :: "nat \<Rightarrow> bool" where
  "is_space_cp n \<longleftrightarrow> (9 \<le> n \<and> n \<le> 13) \<or> (28 \<le> n \<and> n \<le> 32) \<or> n = 133 \<or> n = 160 \<or> n = 5760
     \<or> (8192 \<le> n \<and> n \<le> 8202) \<or> n = 8232 \<or> n = 8233 \<or> n = 8239 \<or> n = 8287 \<or> n = 12288"

definition is_space :: "char \<Rightarrow> bool" where
  "is_space c = is_space_cp (of_char c)"

definition strip_by :: "('c \<Rightarrow> bool) \<Rightarrow> 'c list \<Rightarrow> 'c list" where
  "strip_by P s = rev (dropWhile P (rev (dropWhile P s)))"

definition strip :: "string \<Rightarrow> string" where
  "strip s = strip_by is_space s"

definition strip_text :: "utext \<Rightarrow> utext" where
  "strip_text s = strip_by is_space_cp s"

lemma dropWhile_id: "xs = [] \<or> \<not> P (hd xs) \<Longrightarrow> dropWhile P xs = xs"
  by (cases xs) auto

lemma hd_dropWhile_not: "dropWhile P xs \<noteq> [] \<Longrightarrow> \<not> P (hd (dropWhile P xs))"
  by (rule hd_dropWhile)

lemma strip_by_ends:
  assumes "strip_by P s \<noteq> []"
  shows "\<not> P (hd (strip_by P s)) \<and> \<not> P (last (strip_by P s))"
proof -
  let ?d = "dropWhile P s"
  let ?e = "dropWhile P (rev ?d)"
  have ne: "?e \<noteq> []" using assms by (simp add: strip_by_def)
  then have last: "\<not> P (last (rev ?e))" using hd_dropWhile [OF ne] by (simp add: last_rev)
  obtain z where d: "?d = rev ?e @ z"
    by (metis rev_append rev_rev_ident takeWhile_dropWhile_id)
  have "hd ?d = hd (rev ?e)" using ne by (metis d hd_append rev_is_Nil_conv)
  moreover have "?d \<noteq> []" using ne by (metis dropWhile.simps(1) rev.simps(1))
  ultimately show ?thesis using last hd_dropWhile [OF \<open>?d \<noteq> []\<close>] by (simp add: strip_by_def)
qed

lemma strip_by_id:
  assumes "s = [] \<or> (\<not> P (hd s) \<and> \<not> P (last s))"
  shows "strip_by P s = s"
proof -
  have "dropWhile P s = s" using assms by (intro dropWhile_id) auto
  moreover have "dropWhile P (rev s) = rev s"
    using assms by (intro dropWhile_id) (auto simp: hd_rev)
  ultimately show ?thesis by (simp add: strip_by_def)
qed

lemma strip_by_idem [simp]: "strip_by P (strip_by P s) = strip_by P s"
  using strip_by_ends strip_by_id by blast

lemma set_strip_by: "set (strip_by P s) \<subseteq> set s"
  unfolding strip_by_def by (auto dest!: set_dropWhileD)

lemma strip_by_Nil_iff: "strip_by P s = [] \<longleftrightarrow> (\<forall>c \<in> set s. P c)"
proof
  assume "strip_by P s = []"
  then have "\<forall>c \<in> set (dropWhile P s). P c" by (simp add: strip_by_def)
  then have "dropWhile P s = []"
    by (metis hd_dropWhile hd_in_set)
  then show "\<forall>c \<in> set s. P c" by simp
next
  assume "\<forall>c \<in> set s. P c"
  then show "strip_by P s = []" by (auto simp: strip_by_def dest: set_dropWhileD)
qed

lemma dropWhile_append_all: "\<forall>c \<in> set a. P c \<Longrightarrow> dropWhile P (a @ b) = dropWhile P b"
  by (induction a) auto

lemma strip_by_padding:
  assumes "\<forall>c \<in> set a. P c" and "\<forall>c \<in> set b. P c"
  shows "strip_by P (a @ s @ b) = strip_by P s"
proof (cases "dropWhile P s = []")
  case True
  then have all: "\<forall>c \<in> set (a @ s @ b). P c" using assms by (auto simp: dropWhile_eq_Nil_conv)
  then have "strip_by P (a @ s @ b) = []" by (simp only: strip_by_Nil_iff)
  moreover have "strip_by P s = []" using all by (simp add: strip_by_Nil_iff)
  ultimately show ?thesis by simp
next
  case False
  then have "dropWhile P (a @ s @ b) = dropWhile P s @ b"
    using assms(1) by (simp add: dropWhile_append_all dropWhile_append) (metis dropWhile_eq_Nil_conv)
  then show ?thesis using assms(2) by (simp add: strip_by_def dropWhile_append_all)
qed

lemma filter_strip_by: "(\<And>c. P c \<Longrightarrow> \<not> Q c) \<Longrightarrow> filter Q (strip_by P s) = filter Q s"
proof -
  assume h: "\<And>c. P c \<Longrightarrow> \<not> Q c"
  have d: "filter Q (dropWhile P xs) = filter Q xs" for xs
    by (induction xs) (auto simp: h)
  have "filter Q (rev (dropWhile P (rev (dropWhile P s)))) = rev (filter Q (dropWhile P (rev (dropWhile P s))))"
    by (simp add: rev_filter)
  also have "\<dots> = filter Q s" by (simp only: d rev_filter [symmetric] rev_rev_ident)
  finally show ?thesis by (simp add: strip_by_def)
qed

section \<open>Case, prefixes, splitting, joining\<close>

definition is_upper_cp :: "nat \<Rightarrow> bool" where
  "is_upper_cp n \<longleftrightarrow> (65 \<le> n \<and> n \<le> 90) \<or> (192 \<le> n \<and> n \<le> 222 \<and> n \<noteq> 215)"

definition lower_char :: "char \<Rightarrow> char" where
  "lower_char c = (if is_upper_cp (of_char c) then char_of (of_char c + 32 :: nat) else c)"

definition lower :: "string \<Rightarrow> string" where
  "lower s = map lower_char s"

definition startswith :: "string \<Rightarrow> string \<Rightarrow> bool" where
  "startswith s p = (take (length p) s = p)"

definition endswith :: "string \<Rightarrow> string \<Rightarrow> bool" where
  "endswith s p = (length p \<le> length s \<and> drop (length s - length p) s = p)"

definition removeprefix :: "string \<Rightarrow> string \<Rightarrow> string" where
  "removeprefix s p = (if startswith s p then drop (length p) s else s)"

text \<open>\<^verbatim>\<open>s.split(sep, 1)[0]\<close> and \<^verbatim>\<open>s.split(sep)\<close> for a one-character separator.\<close>

definition before_first :: "char \<Rightarrow> string \<Rightarrow> string" where
  "before_first c s = takeWhile (\<lambda>x. x \<noteq> c) s"

fun split_on :: "char \<Rightarrow> string \<Rightarrow> string list" where
  "split_on c [] = [[]]"
| "split_on c (x # s) = (if x = c then [] # split_on c s
     else case split_on c s of [] \<Rightarrow> [[x]] | p # ps \<Rightarrow> (x # p) # ps)"

fun join_with :: "'c list \<Rightarrow> 'c list list \<Rightarrow> 'c list" where
  "join_with sep [] = []"
| "join_with sep [p] = p"
| "join_with sep (p # q # ps) = p @ sep @ join_with sep (q # ps)"

text \<open>\<^verbatim>\<open>s.strip(c)\<close> and \<^verbatim>\<open>s.rstrip(c)\<close> for one character.\<close>

definition strip_char :: "char \<Rightarrow> string \<Rightarrow> string" where
  "strip_char c s = strip_by (\<lambda>x. x = c) s"

definition rstrip_char :: "char \<Rightarrow> string \<Rightarrow> string" where
  "rstrip_char c s = rev (dropWhile (\<lambda>x. x = c) (rev s))"

lemma lower_char_idem [simp]: "lower_char (lower_char c) = lower_char c"
proof (cases "is_upper_cp (of_char c)")
  case True
  then have "(of_char c :: nat) + 32 < 256" by (auto simp: is_upper_cp_def)
  then have "of_char (char_of ((of_char c :: nat) + 32) :: char) = (of_char c :: nat) + 32" by simp
  moreover have "\<not> is_upper_cp (of_char c + 32)" using True by (auto simp: is_upper_cp_def)
  ultimately show ?thesis using True by (simp add: lower_char_def)
next
  case False
  then show ?thesis by (simp add: lower_char_def)
qed

lemma lower_idem [simp]: "lower (lower s) = lower s"
  by (simp add: lower_def)

lemma startswith_append [simp]: "startswith (p @ s) p"
  by (simp add: startswith_def)

lemma startswith_iff: "startswith s p \<longleftrightarrow> (\<exists>r. s = p @ r)"
  unfolding startswith_def by (metis append_eq_conv_conj append_take_drop_id)

lemma removeprefix_append [simp]: "removeprefix (p @ s) p = s"
  by (simp add: removeprefix_def)

lemma split_on_nonempty [simp]: "split_on c s \<noteq> []"
  by (induction s) (auto split: list.splits)

lemma join_split_on: "join_with [c] (split_on c s) = s"
proof (induction s)
  case Nil
  then show ?case by simp
next
  case (Cons x s)
  obtain p ps where "split_on c s = p # ps" by (cases "split_on c s") auto
  with Cons show ?case by (cases ps) auto
qed

section \<open>Lines\<close>

text \<open>
  \<^verbatim>\<open>str.splitlines()\<close>: a carriage return followed by a line feed is one boundary, and text after the
  last boundary is a line only when it is not empty.
\<close>

definition is_line_break :: "char \<Rightarrow> bool" where
  "is_line_break c \<longleftrightarrow> (let n = of_char c :: nat in (10 \<le> n \<and> n \<le> 13) \<or> (28 \<le> n \<and> n \<le> 30) \<or> n = 133)"

fun splitlines_aux :: "string \<Rightarrow> string \<Rightarrow> string list" where
  "splitlines_aux acc [] = (if acc = [] then [] else [rev acc])"
| "splitlines_aux acc (c # s) =
     (if is_line_break c
      then rev acc # splitlines_aux [] (if c = CHR 0x0D \<and> take 1 s = [CHR 0x0A] then drop 1 s else s)
      else splitlines_aux (c # acc) s)"

definition splitlines :: "string \<Rightarrow> string list" where
  "splitlines s = splitlines_aux [] s"

lemma splitlines_aux_no_breaks:
  "\<forall>c \<in> set acc. \<not> is_line_break c \<Longrightarrow> l \<in> set (splitlines_aux acc s) \<Longrightarrow> c \<in> set l \<Longrightarrow> \<not> is_line_break c"
proof (induction acc s rule: splitlines_aux.induct)
  case (1 acc)
  then show ?case by (auto split: if_splits)
next
  case (2 acc x s)
  show ?case
  proof (cases "is_line_break x")
    case True
    with "2.prems" "2.IH"(1) show ?thesis by (auto split: if_splits)
  next
    case False
    with "2.prems" "2.IH"(2) show ?thesis by auto
  qed
qed

lemma splitlines_no_breaks: "l \<in> set (splitlines s) \<Longrightarrow> c \<in> set l \<Longrightarrow> \<not> is_line_break c"
  unfolding splitlines_def by (rule splitlines_aux_no_breaks) auto

section \<open>Numbers and representations\<close>

fun show_nat :: "nat \<Rightarrow> string" where
  "show_nat n = (if n < 10 then [char_of (48 + n)] else show_nat (n div 10) @ [char_of (48 + n mod 10)])"

declare show_nat.simps [simp del]

definition show_int :: "int \<Rightarrow> string" where
  "show_int i = (if i < 0 then CHR ''-'' # show_nat (nat (- i)) else show_nat (nat i))"

definition hex_digit :: "nat \<Rightarrow> char" where
  "hex_digit n = (if n < 10 then char_of (48 + n) else char_of (87 + n))"

text \<open>\<^verbatim>\<open>repr(s)\<close> of a string: the quote it picks, and its escapes.\<close>

definition repr_char :: "char \<Rightarrow> char \<Rightarrow> string" where
  "repr_char q c = (let n = of_char c :: nat in
     if c = q \<or> n = 92 then [CHR 0x5C, c]
     else if n = 9 then [CHR 0x5C, CHR ''t'']
     else if n = 10 then [CHR 0x5C, CHR ''n'']
     else if n = 13 then [CHR 0x5C, CHR ''r'']
     else if n < 32 \<or> (127 \<le> n \<and> n \<le> 160) \<or> n = 173
     then [CHR 0x5C, CHR ''x'', hex_digit (n div 16), hex_digit (n mod 16)]
     else [c])"

definition py_repr :: "string \<Rightarrow> string" where
  "py_repr s = (let q = (if CHR 0x27 \<in> set s \<and> CHR 0x22 \<notin> set s then CHR 0x22 else CHR 0x27)
     in [q] @ concat (map (repr_char q) s) @ [q])"

text \<open>Evaluation of the operations on literals.\<close>

lemma literal_eq_char_of: "c = char_of (n :: nat) \<longleftrightarrow> take_bit 8 n = of_char c"
  by (metis char_of_eq_iff)

lemmas text_eval = strip_def strip_by_def is_space_def is_space_cp_def lower_def lower_char_def
  is_upper_cp_def char_of_eq_iff literal_eq_char_of is_line_break_def startswith_def endswith_def
  removeprefix_def before_first_def strip_char_def rstrip_char_def

end
