(* ===== verification/PyValues.thy ===== *)
theory PyValues
  imports PyText
begin

text \<open>
  Python values the program stores or sends: floats, JSON values and insertion-ordered dictionaries.
\<close>

section \<open>Floats\<close>

text \<open>
  A float is a finite rational, negative zero, an infinity or not-a-number. Every finite float is a
  rational, so what is proved for all rationals holds of the floats; no arithmetic is done on them.
\<close>

datatype pyfloat = Fin rat | NegZero | PInf | NInf | NaN

fun float_le :: "pyfloat \<Rightarrow> pyfloat \<Rightarrow> bool" where
  "float_le NaN y = False"
| "float_le x NaN = False"
| "float_le NInf y = True"
| "float_le x PInf = True"
| "float_le PInf y = False"
| "float_le x NInf = False"
| "float_le (Fin a) (Fin b) = (a \<le> b)"
| "float_le (Fin a) NegZero = (a \<le> 0)"
| "float_le NegZero (Fin b) = (0 \<le> b)"
| "float_le NegZero NegZero = True"

instantiation pyfloat :: ord
begin

definition less_eq_pyfloat :: "pyfloat \<Rightarrow> pyfloat \<Rightarrow> bool" where
  "less_eq_pyfloat x y = float_le x y"

definition less_pyfloat :: "pyfloat \<Rightarrow> pyfloat \<Rightarrow> bool" where
  "less_pyfloat x y = (float_le x y \<and> \<not> float_le y x)"

instance ..

end

definition in_unit :: "pyfloat \<Rightarrow> bool" where
  "in_unit p \<longleftrightarrow> Fin 0 \<le> p \<and> p \<le> Fin 1"

lemma in_unit_iff: "in_unit p \<longleftrightarrow> p = NegZero \<or> (\<exists>q. p = Fin q \<and> 0 \<le> q \<and> q \<le> 1)"
  by (cases p) (auto simp: in_unit_def less_eq_pyfloat_def)

section \<open>JSON values\<close>

datatype json = JNull | JBool bool | JInt int | JFloat pyfloat | JStr string
  | JArr "json list" | JObj "(string \<times> json) list"

fun is_JObj :: "json \<Rightarrow> bool" where
  "is_JObj (JObj _) = True"
| "is_JObj _ = False"

section \<open>Dictionaries\<close>

text \<open>
  A dictionary is its items in insertion order, with distinct keys: \<^verbatim>\<open>d[k] = v\<close> replaces the value
  of a present key in place and appends a new key; \<open>map_of\<close> is \<^verbatim>\<open>d.get(k)\<close>.
\<close>

fun dict_put :: "'k \<Rightarrow> 'v \<Rightarrow> ('k \<times> 'v) list \<Rightarrow> ('k \<times> 'v) list" where
  "dict_put k v [] = [(k, v)]"
| "dict_put k v ((k', v') # d) = (if k' = k then (k, v) # d else (k', v') # dict_put k v d)"

definition dict_of :: "('k \<times> 'v) list \<Rightarrow> ('k \<times> 'v) list" where
  "dict_of items = fold (\<lambda>(k, v). dict_put k v) items []"

lemma map_of_dict_put [simp]: "map_of (dict_put k v d) = (map_of d)(k \<mapsto> v)"
  by (induction k v d rule: dict_put.induct) auto

lemma keys_dict_put: "map fst (dict_put k v d) = (if k \<in> fst ` set d then map fst d else map fst d @ [k])"
  by (induction k v d rule: dict_put.induct) auto

lemma dict_put_new: "k \<notin> fst ` set d \<Longrightarrow> dict_put k v d = d @ [(k, v)]"
  by (induction k v d rule: dict_put.induct) auto

lemma distinct_dict_put: "distinct (map fst d) \<Longrightarrow> distinct (map fst (dict_put k v d))"
  by (auto simp: keys_dict_put)

lemma fold_dict_put_distinct:
  "distinct (map fst (d @ items)) \<Longrightarrow> fold (\<lambda>(k, v). dict_put k v) items d = d @ items"
proof (induction items arbitrary: d)
  case Nil
  then show ?case by simp
next
  case (Cons i items)
  obtain k v where i: "i = (k, v)" by fastforce
  with Cons.prems have "k \<notin> fst ` set d" by auto
  then have "dict_put k v d = d @ [(k, v)]" by (rule dict_put_new)
  moreover have "distinct (map fst ((d @ [(k, v)]) @ items))" using Cons.prems i by simp
  ultimately show ?case using Cons.IH [of "d @ [(k, v)]"] i by simp
qed

lemma dict_of_distinct: "distinct (map fst items) \<Longrightarrow> dict_of items = items"
  using fold_dict_put_distinct [of "[]" items] by (simp add: dict_of_def)

end
