(* ===== verification/Database.thy ===== *)
theory Database
  imports Errors PyValues
begin

text \<open>
  The state store of \<^verbatim>\<open>src/db.py\<close> and the session through which the jobs use it. A job runs in one
  SQLAlchemy session: its statements act on the working store of the open transaction, \<^verbatim>\<open>commit\<close>
  makes that store durable and \<^verbatim>\<open>rollback\<close> discards it. PostgreSQL and the clock are parameters:
  \<open>db_fault\<close> says at which call the driver raises, \<open>db_now\<close> is \<^verbatim>\<open>now()\<close> in a transaction and
  \<open>py_now\<close> the process clock; a counter of the calls made so far selects their answers.
\<close>

section \<open>Rows\<close>

type_synonym datetime = int

datatype walk_status = Ws_idle | Ws_walking | Ws_interrupted | Ws_completed

datatype document_status = Ds_queued | Ds_processing | Ds_completed | Ds_skipped | Ds_pending | Ds_failed

record sync_state =
  ss_id :: int
  ss_drive_id :: string
  ss_delta_token :: "string option"
  ss_resume_token :: "string option"
  ss_walk_status :: walk_status
  ss_last_synced_at :: "datetime option"
  ss_created_at :: datetime
  ss_updated_at :: datetime

record document =
  d_id :: int
  d_sync_state_id :: int
  d_drive_item_id :: string
  d_file_name :: "string option"
  d_mime_type :: "string option"
  d_folder_path :: "string option"
  d_content_hash :: "string option"
  d_previous_hash :: "string option"
  d_status :: document_status
  d_category :: "string option"
  d_confidence :: "pyfloat option"
  d_classification_override :: "string option"
  d_classified_by :: "string option"
  d_raw_response :: "(string \<times> json) list option"
  d_error_message :: "string option"
  d_retry_count :: int
  d_graph_modified_at :: "datetime option"
  d_classified_at :: "datetime option"
  d_processed_at :: "datetime option"
  d_created_at :: datetime
  d_updated_at :: datetime

record processing_log =
  pl_id :: int
  pl_document_id :: int
  pl_attempt :: int
  pl_status :: string
  pl_category :: "string option"
  pl_confidence :: "pyfloat option"
  pl_error :: "string option"
  pl_input_tokens :: "int option"
  pl_output_tokens :: "int option"
  pl_cost_usd :: "rat option"
  pl_created_at :: datetime

text \<open>The column defaults of a new row; its identifier and time stamps are the database's.\<close>

definition new_sync_state :: "string \<Rightarrow> sync_state" where
  "new_sync_state drive_id = \<lparr>ss_id = 0, ss_drive_id = drive_id, ss_delta_token = None, ss_resume_token = None,
     ss_walk_status = Ws_idle, ss_last_synced_at = None, ss_created_at = 0, ss_updated_at = 0\<rparr>"

definition new_document :: "int \<Rightarrow> string \<Rightarrow> document" where
  "new_document sync_state_id drive_item_id = \<lparr>d_id = 0, d_sync_state_id = sync_state_id,
     d_drive_item_id = drive_item_id, d_file_name = None, d_mime_type = None, d_folder_path = None,
     d_content_hash = None, d_previous_hash = None, d_status = Ds_queued, d_category = None,
     d_confidence = None, d_classification_override = None, d_classified_by = None,
     d_raw_response = None, d_error_message = None, d_retry_count = 0, d_graph_modified_at = None,
     d_classified_at = None, d_processed_at = None, d_created_at = 0, d_updated_at = 0\<rparr>"

definition new_processing_log :: "int \<Rightarrow> int \<Rightarrow> string \<Rightarrow> processing_log" where
  "new_processing_log document_id attempt status = \<lparr>pl_id = 0, pl_document_id = document_id,
     pl_attempt = attempt, pl_status = status, pl_category = None, pl_confidence = None, pl_error = None,
     pl_input_tokens = None, pl_output_tokens = None, pl_cost_usd = None, pl_created_at = 0\<rparr>"

section \<open>The store\<close>

record store =
  t_sync_state :: "sync_state list"
  t_documents :: "document list"
  t_processing_log :: "processing_log list"

definition doc_key :: "document \<Rightarrow> int \<times> string" where
  "doc_key d = (d_sync_state_id d, d_drive_item_id d)"

text \<open>The constraints of the schema: primary keys, unique keys, foreign keys.\<close>

definition store_ok :: "store \<Rightarrow> bool" where
  "store_ok s \<longleftrightarrow>
     distinct (map ss_id (t_sync_state s)) \<and> distinct (map ss_drive_id (t_sync_state s))
     \<and> distinct (map d_id (t_documents s)) \<and> distinct (map doc_key (t_documents s))
     \<and> distinct (map pl_id (t_processing_log s))
     \<and> d_sync_state_id ` set (t_documents s) \<subseteq> ss_id ` set (t_sync_state s)
     \<and> pl_document_id ` set (t_processing_log s) \<subseteq> d_id ` set (t_documents s)"

section \<open>The world of a job\<close>

text \<open>
  What a job acts on: the durable and the working store, the sequences (which a rollback does not
  reset), the counters of calls and of transactions, and the trace of the effects others can see.
\<close>

datatype event =
    Committed store
  | RolledBack
  | Sent string
  | Received string
  | Deleted string string

record world =
  w_durable :: store
  w_work :: store
  w_next_sync :: int
  w_next_doc :: int
  w_next_log :: int
  w_tick :: nat
  w_txn :: nat
  w_trace :: "event list"

record db_env =
  db_fault :: "nat \<Rightarrow> string option"
  db_now :: "nat \<Rightarrow> datetime"
  py_now :: "nat \<Rightarrow> datetime"

type_synonym 'a job = "(world, exn, 'a) op"

definition next_tick :: "nat job" where
  "next_tick = (\<lambda>w. (Inr (w_tick w), w\<lparr>w_tick := Suc (w_tick w)\<rparr>))"

definition record_event :: "event \<Rightarrow> unit job" where
  "record_event ev = modify_op (\<lambda>w. w\<lparr>w_trace := w_trace w @ [ev]\<rparr>)"

text \<open>The process clock.\<close>

definition utc_now :: "'z db_env_scheme \<Rightarrow> datetime job" where
  "utc_now E = bind_op next_tick (\<lambda>t. ret (py_now E t))"

text \<open>A call to the database, which the driver may fail.\<close>

definition db_call :: "'z db_env_scheme \<Rightarrow> unit job" where
  "db_call E = bind_op next_tick (\<lambda>t. case db_fault E t of None \<Rightarrow> ret () | Some m \<Rightarrow> throw (SQLAlchemyError m))"

section \<open>The session\<close>

definition modify_store :: "(store \<Rightarrow> store) \<Rightarrow> unit job" where
  "modify_store f = modify_op (\<lambda>w. w\<lparr>w_work := f (w_work w)\<rparr>)"

text \<open>\<^verbatim>\<open>scalars(select(...).where(p)).one_or_none()\<close>.\<close>

definition one_or_none :: "'z db_env_scheme \<Rightarrow> (store \<Rightarrow> 'r list) \<Rightarrow> ('r \<Rightarrow> bool) \<Rightarrow> 'r option job" where
  "one_or_none E table p = then_op (db_call E) (bind_op (gets_op (\<lambda>w. filter p (table (w_work w)))) (\<lambda>rows.
     case rows of
       [] \<Rightarrow> ret None
     | [r] \<Rightarrow> ret (Some r)
     | _ \<Rightarrow> throw (SQLAlchemyError ''Multiple rows were found when one or none was required'')))"

text \<open>
  Reading an attribute of an object: after a commit the session reloads the row, which fails when the
  row has gone.
\<close>

definition load_row :: "'z db_env_scheme \<Rightarrow> (store \<Rightarrow> 'r list) \<Rightarrow> ('r \<Rightarrow> int) \<Rightarrow> int \<Rightarrow> 'r job" where
  "load_row E table key i = bind_op (one_or_none E table (\<lambda>r. key r = i)) (\<lambda>r.
     case r of None \<Rightarrow> throw (SQLAlchemyError ''Instance has been deleted, or its row is otherwise not present.'')
     | Some x \<Rightarrow> ret x)"

definition load_sync :: "'z db_env_scheme \<Rightarrow> int \<Rightarrow> sync_state job" where
  "load_sync E i = load_row E t_sync_state ss_id i"

definition load_document :: "'z db_env_scheme \<Rightarrow> int \<Rightarrow> document job" where
  "load_document E i = load_row E t_documents d_id i"

text \<open>
  Assigning attributes. The flush writes the row only when a value changed, and then
  \<^verbatim>\<open>onupdate\<close> stamps \<^verbatim>\<open>updated_at\<close>.
\<close>

definition touch_document :: "datetime \<Rightarrow> (document \<Rightarrow> document) \<Rightarrow> document \<Rightarrow> document" where
  "touch_document now f d = (if f d = d then d else (f d)\<lparr>d_updated_at := now\<rparr>)"

definition touch_sync :: "datetime \<Rightarrow> (sync_state \<Rightarrow> sync_state) \<Rightarrow> sync_state \<Rightarrow> sync_state" where
  "touch_sync now f s = (if f s = s then s else (f s)\<lparr>ss_updated_at := now\<rparr>)"

definition set_document :: "'z db_env_scheme \<Rightarrow> int \<Rightarrow> (document \<Rightarrow> document) \<Rightarrow> unit job" where
  "set_document E i f = bind_op (gets_op w_txn) (\<lambda>n. modify_store (\<lambda>s.
     s\<lparr>t_documents := update_where (\<lambda>d. d_id d = i) (touch_document (db_now E n) f) (t_documents s)\<rparr>))"

definition set_sync :: "'z db_env_scheme \<Rightarrow> int \<Rightarrow> (sync_state \<Rightarrow> sync_state) \<Rightarrow> unit job" where
  "set_sync E i f = bind_op (gets_op w_txn) (\<lambda>n. modify_store (\<lambda>s.
     s\<lparr>t_sync_state := update_where (\<lambda>r. ss_id r = i) (touch_sync (db_now E n) f) (t_sync_state s)\<rparr>))"

text \<open>Inserting: the sequence gives the identifier, the constraints are checked, the row appended.\<close>

definition integrity_error :: exn where
  "integrity_error = SQLAlchemyError ''IntegrityError''"

definition insert_sync :: "'z db_env_scheme \<Rightarrow> sync_state \<Rightarrow> int job" where
  "insert_sync E r = then_op (db_call E) (\<lambda>w.
     (let i = w_next_sync w; now = db_now E (w_txn w);
          w' = w\<lparr>w_next_sync := i + 1\<rparr> in
      if ss_drive_id r \<in> ss_drive_id ` set (t_sync_state (w_work w)) then (Inl integrity_error, w')
      else (Inr i, w'\<lparr>w_work := (w_work w)\<lparr>t_sync_state := t_sync_state (w_work w)
              @ [r\<lparr>ss_id := i, ss_created_at := now, ss_updated_at := now\<rparr>]\<rparr>\<rparr>)))"

definition insert_document :: "'z db_env_scheme \<Rightarrow> document \<Rightarrow> int job" where
  "insert_document E r = then_op (db_call E) (\<lambda>w.
     (let i = w_next_doc w; now = db_now E (w_txn w);
          w' = w\<lparr>w_next_doc := i + 1\<rparr> in
      if doc_key r \<in> doc_key ` set (t_documents (w_work w))
         \<or> d_sync_state_id r \<notin> ss_id ` set (t_sync_state (w_work w)) then (Inl integrity_error, w')
      else (Inr i, w'\<lparr>w_work := (w_work w)\<lparr>t_documents := t_documents (w_work w)
              @ [r\<lparr>d_id := i, d_created_at := now, d_updated_at := now\<rparr>]\<rparr>\<rparr>)))"

definition insert_log :: "'z db_env_scheme \<Rightarrow> processing_log \<Rightarrow> int job" where
  "insert_log E r = then_op (db_call E) (\<lambda>w.
     (let i = w_next_log w; now = db_now E (w_txn w);
          w' = w\<lparr>w_next_log := i + 1\<rparr> in
      if pl_document_id r \<notin> d_id ` set (t_documents (w_work w)) then (Inl integrity_error, w')
      else (Inr i, w'\<lparr>w_work := (w_work w)\<lparr>t_processing_log := t_processing_log (w_work w)
              @ [r\<lparr>pl_id := i, pl_created_at := now\<rparr>]\<rparr>\<rparr>)))"

definition flush :: "'z db_env_scheme \<Rightarrow> unit job" where
  "flush E = db_call E"

text \<open>
  \<^verbatim>\<open>session.commit()\<close>: the flush and the commit of the transaction. A failed commit leaves the
  durable store as it was.
\<close>

definition commit :: "'z db_env_scheme \<Rightarrow> unit job" where
  "commit E = then_op (db_call E) (\<lambda>w. (Inr (), w\<lparr>w_durable := w_work w, w_txn := Suc (w_txn w),
     w_trace := w_trace w @ [Committed (w_work w)]\<rparr>))"

definition rollback :: "unit job" where
  "rollback = modify_op (\<lambda>w. w\<lparr>w_work := w_durable w, w_txn := Suc (w_txn w), w_trace := w_trace w @ [RolledBack]\<rparr>)"

text \<open>
  \<^verbatim>\<open>with get_sessionmaker()() as session\<close>: whatever the outcome, leaving the block closes the session,
  which rolls back what was not committed.
\<close>

definition with_session :: "'a job \<Rightarrow> 'a job" where
  "with_session body = (\<lambda>w. case body w of (r, w') \<Rightarrow> (r, snd (rollback w')))"

section \<open>What session operations change\<close>

text \<open>
  A preorder on stores is lifted to worlds: when it leads from the durable to the working store
  before, it does so after, and it leads from the old durable store to the new one. Updating with
  a function that respects the preorder, inserting, committing and rolling back all do.
\<close>

definition store_rel :: "(store \<Rightarrow> store \<Rightarrow> bool) \<Rightarrow> world \<Rightarrow> world \<Rightarrow> bool" where
  "store_rel S w w' \<longleftrightarrow> (S (w_durable w) (w_work w) \<longrightarrow> S (w_durable w) (w_durable w') \<and> S (w_durable w') (w_work w'))"

lemma preorder_store_rel [simp, intro]: "preorder_rel S \<Longrightarrow> preorder_rel (store_rel S)"
  unfolding preorder_rel_def store_rel_def by blast

lemma store_rel_same: "preorder_rel S \<Longrightarrow> w_durable w' = w_durable w \<Longrightarrow> w_work w' = w_work w \<Longrightarrow> store_rel S w w'"
  by (simp add: store_rel_def preorder_refl)

lemma store_rel_work: "preorder_rel S \<Longrightarrow> w_durable w' = w_durable w \<Longrightarrow> S (w_work w) (w_work w') \<Longrightarrow> store_rel S w w'"
  by (auto simp: store_rel_def preorder_refl intro: preorder_trans)

lemma evolves_modify: "(\<And>s. R s (f s)) \<Longrightarrow> evolves R (modify_op f)"
  by (simp add: evolves_def modify_op_def)

lemma snd_with_session: "snd (with_session body w) = snd (rollback (snd (body w)))"
  by (simp add: with_session_def split: prod.splits)

locale store_preorder =
  fixes S :: "store \<Rightarrow> store \<Rightarrow> bool"
  assumes S_refl: "S s s"
    and S_trans: "S s t \<Longrightarrow> S t u \<Longrightarrow> S s u"
begin

lemma pre: "preorder_rel S"
  using S_refl S_trans unfolding preorder_rel_def by blast

lemma wpre: "preorder_rel (store_rel S)"
  by (simp add: pre)

lemma same: "w_durable w' = w_durable w \<Longrightarrow> w_work w' = w_work w \<Longrightarrow> store_rel S w w'"
  by (rule store_rel_same [OF pre])

lemma tick [evolve_intros]: "evolves (store_rel S) next_tick"
  by (auto simp: evolves_def next_tick_def intro: same)

lemma events [evolve_intros]: "evolves (store_rel S) (record_event ev)"
  unfolding record_event_def by (rule evolves_modify) (simp add: same)

lemma clock [evolve_intros]: "evolves (store_rel S) (utc_now E)"
  unfolding utc_now_def by (intro evolve_intros wpre)

lemma call [evolve_intros]: "evolves (store_rel S) (db_call E)"
  unfolding db_call_def by (intro evolve_intros wpre)

lemma flushing [evolve_intros]: "evolves (store_rel S) (flush E)"
  unfolding flush_def by (rule call)

lemma query [evolve_intros]: "evolves (store_rel S) (one_or_none E table p)"
proof -
  have "evolves (store_rel S) (case rows of [] \<Rightarrow> ret None | [r] \<Rightarrow> ret (Some r) | _ \<Rightarrow> throw e)" for rows e
    by (cases rows; cases "tl rows") (auto intro: evolve_intros wpre)
  then show ?thesis unfolding one_or_none_def by (intro evolve_intros wpre)
qed

lemma loading [evolve_intros]: "evolves (store_rel S) (load_row E table key i)"
  unfolding load_row_def by (intro evolve_intros wpre)

lemma loading_sync [evolve_intros]: "evolves (store_rel S) (load_sync E i)"
  unfolding load_sync_def by (rule loading)

lemma loading_document [evolve_intros]: "evolves (store_rel S) (load_document E i)"
  unfolding load_document_def by (rule loading)

lemma storing: "(\<And>s. S s (f s)) \<Longrightarrow> evolves (store_rel S) (modify_store f)"
  unfolding modify_store_def by (rule evolves_modify) (auto intro: store_rel_work [OF pre])

lemma setting_document:
  "(\<And>now s. S s (s\<lparr>t_documents := update_where (\<lambda>d. d_id d = i) (touch_document now f) (t_documents s)\<rparr>)) \<Longrightarrow>
    evolves (store_rel S) (set_document E i f)"
  unfolding set_document_def by (intro evolve_intros wpre storing)

lemma setting_sync:
  "(\<And>now s. S s (s\<lparr>t_sync_state := update_where (\<lambda>r. ss_id r = i) (touch_sync now f) (t_sync_state s)\<rparr>)) \<Longrightarrow>
    evolves (store_rel S) (set_sync E i f)"
  unfolding set_sync_def by (intro evolve_intros wpre storing)

lemma inserting_sync:
  assumes "\<And>s r. S s (s\<lparr>t_sync_state := t_sync_state s @ [r]\<rparr>)"
  shows "evolves (store_rel S) (insert_sync E r)"
  unfolding insert_sync_def
  by (intro evolve_intros wpre evolvesI) (auto simp: Let_def assms intro: same store_rel_work [OF pre])

lemma inserting_document:
  assumes "\<And>s r. S s (s\<lparr>t_documents := t_documents s @ [r]\<rparr>)"
  shows "evolves (store_rel S) (insert_document E r)"
  unfolding insert_document_def
  by (intro evolve_intros wpre evolvesI) (auto simp: Let_def assms intro: same store_rel_work [OF pre])

lemma inserting_log:
  assumes "\<And>s r. S s (s\<lparr>t_processing_log := t_processing_log s @ [r]\<rparr>)"
  shows "evolves (store_rel S) (insert_log E r)"
  unfolding insert_log_def
  by (intro evolve_intros wpre evolvesI) (auto simp: Let_def assms intro: same store_rel_work [OF pre])

lemma committing [evolve_intros]: "evolves (store_rel S) (commit E)"
  unfolding commit_def by (intro evolve_intros wpre evolvesI) (simp add: store_rel_def S_refl)

lemma rolling_back [evolve_intros]: "evolves (store_rel S) rollback"
  unfolding rollback_def by (rule evolves_modify) (simp add: store_rel_def S_refl)

lemma closing: "evolves (store_rel S) body \<Longrightarrow> evolves (store_rel S) (with_session body)"
proof (rule evolvesI)
  fix w
  assume "evolves (store_rel S) body"
  then have "store_rel S w (snd (body w))" by (simp add: evolves_def)
  moreover have "store_rel S (snd (body w)) (snd (rollback (snd (body w))))"
    using rolling_back by (simp add: evolves_def)
  ultimately show "store_rel S w (snd (with_session body w))"
    unfolding snd_with_session by (rule preorder_trans [OF wpre])
qed

text \<open>A session that starts on the durable store ends on one the preorder leads to.\<close>

lemma session_outcome:
  assumes "evolves (store_rel S) m" and "w_work w = w_durable w"
  shows "S (w_durable w) (w_durable (snd (m w)))"
  using assms S_refl by (auto simp: evolves_def store_rel_def)

end

section \<open>Keeping what a row shows\<close>

text \<open>No row of \<^verbatim>\<open>documents\<close> disappears, and a view of each row stays what it was.\<close>

definition docs_keep :: "(document \<Rightarrow> 'v) \<Rightarrow> store \<Rightarrow> store \<Rightarrow> bool" where
  "docs_keep view s t \<longleftrightarrow> (\<forall>d \<in> set (t_documents s). \<exists>d' \<in> set (t_documents t).
     d_id d' = d_id d \<and> doc_key d' = doc_key d \<and> view d' = view d)"

lemma docs_keep_refl: "docs_keep view s s"
  by (auto simp: docs_keep_def)

lemma docs_keep_trans: "docs_keep view s t \<Longrightarrow> docs_keep view t u \<Longrightarrow> docs_keep view s u"
  unfolding docs_keep_def by metis

interpretation keep: store_preorder "docs_keep view" for view
  using docs_keep_refl docs_keep_trans by unfold_locales blast+

lemma docs_keep_superset: "set (t_documents s) \<subseteq> set (t_documents t) \<Longrightarrow> docs_keep view s t"
  by (auto simp: docs_keep_def)

lemma docs_keep_update:
  assumes "\<And>d. p d \<Longrightarrow> d_id (f d) = d_id d \<and> doc_key (f d) = doc_key d \<and> view (f d) = view d"
  shows "docs_keep view s (s\<lparr>t_documents := update_where p f (t_documents s)\<rparr>)"
proof -
  have "\<exists>d' \<in> set (update_where p f (t_documents s)). d_id d' = d_id d \<and> doc_key d' = doc_key d \<and> view d' = view d"
    if "d \<in> set (t_documents s)" for d
    using that assms by (intro bexI [of _ "if p d then f d else d"]) (auto simp: set_update_where)
  then show ?thesis by (simp add: docs_keep_def)
qed

lemma keeps_setting_document:
  assumes "\<And>d. d_id (f d) = d_id d \<and> doc_key (f d) = doc_key d \<and> view (f d) = view d"
    and "\<And>d now. view (d\<lparr>d_updated_at := now\<rparr>) = view d"
  shows "evolves (store_rel (docs_keep view)) (set_document E i f)"
  using assms by (intro keep.setting_document docs_keep_update) (auto simp: touch_document_def doc_key_def)

lemma keeps_setting_sync: "evolves (store_rel (docs_keep view)) (set_sync E i f)"
proof (rule keep.setting_sync)
  fix now s
  show "docs_keep view s (s\<lparr>t_sync_state := update_where (\<lambda>r. ss_id r = i) (touch_sync now f) (t_sync_state s)\<rparr>)"
    by (rule docs_keep_superset) simp
qed

lemma keeps_inserting_sync: "evolves (store_rel (docs_keep view)) (insert_sync E r)"
proof (rule keep.inserting_sync)
  show "docs_keep view s (s\<lparr>t_sync_state := t_sync_state s @ [r]\<rparr>)" for s r
    by (rule docs_keep_superset) simp
qed

lemma keeps_inserting_document: "evolves (store_rel (docs_keep view)) (insert_document E r)"
proof (rule keep.inserting_document)
  show "docs_keep view s (s\<lparr>t_documents := t_documents s @ [r]\<rparr>)" for s r
    by (rule docs_keep_superset) auto
qed

lemma keeps_inserting_log: "evolves (store_rel (docs_keep view)) (insert_log E r)"
proof (rule keep.inserting_log)
  show "docs_keep view s (s\<lparr>t_processing_log := t_processing_log s @ [r]\<rparr>)" for s r
    by (rule docs_keep_superset) simp
qed

section \<open>The schema's constraints are kept\<close>

definition below_sequences :: "world \<Rightarrow> store \<Rightarrow> bool" where
  "below_sequences w s \<longleftrightarrow> (\<forall>r \<in> set (t_sync_state s). ss_id r < w_next_sync w)
     \<and> (\<forall>r \<in> set (t_documents s). d_id r < w_next_doc w)
     \<and> (\<forall>r \<in> set (t_processing_log s). pl_id r < w_next_log w)"

definition world_ok :: "world \<Rightarrow> bool" where
  "world_ok w \<longleftrightarrow> store_ok (w_durable w) \<and> store_ok (w_work w)
     \<and> below_sequences w (w_durable w) \<and> below_sequences w (w_work w)"

lemma world_ok_same:
  "w_durable w' = w_durable w \<Longrightarrow> w_work w' = w_work w \<Longrightarrow> w_next_sync w' = w_next_sync w \<Longrightarrow>
     w_next_doc w' = w_next_doc w \<Longrightarrow> w_next_log w' = w_next_log w \<Longrightarrow> world_ok w \<Longrightarrow> world_ok w'"
  by (simp add: world_ok_def below_sequences_def)

lemma ok_tick [evolve_intros]: "evolves (keeps world_ok) next_tick"
  by (auto simp: evolves_def next_tick_def keeps_def intro: world_ok_same)

lemma ok_event [evolve_intros]: "evolves (keeps world_ok) (record_event ev)"
  unfolding record_event_def by (rule evolves_modify) (auto simp: keeps_def intro: world_ok_same)

lemma ok_clock [evolve_intros]: "evolves (keeps world_ok) (utc_now E)"
  unfolding utc_now_def by (intro evolve_intros preorder_keeps)

lemma ok_call [evolve_intros]: "evolves (keeps world_ok) (db_call E)"
  unfolding db_call_def by (intro evolve_intros preorder_keeps)

lemma ok_flush [evolve_intros]: "evolves (keeps world_ok) (flush E)"
  unfolding flush_def by (rule ok_call)

lemma ok_query [evolve_intros]: "evolves (keeps world_ok) (one_or_none E table p)"
proof -
  have "evolves (keeps world_ok) (case rows of [] \<Rightarrow> ret None | [r] \<Rightarrow> ret (Some r) | _ \<Rightarrow> throw e)" for rows e
    by (cases rows; cases "tl rows") (auto intro: evolve_intros)
  then show ?thesis unfolding one_or_none_def by (intro evolve_intros preorder_keeps)
qed

lemma ok_load [evolve_intros]: "evolves (keeps world_ok) (load_row E table key i)"
  unfolding load_row_def by (intro evolve_intros preorder_keeps)

lemma ok_load_sync [evolve_intros]: "evolves (keeps world_ok) (load_sync E i)"
  unfolding load_sync_def by (rule ok_load)

lemma ok_load_document [evolve_intros]: "evolves (keeps world_ok) (load_document E i)"
  unfolding load_document_def by (rule ok_load)

lemma image_update_where:
  "(\<And>r. p r \<Longrightarrow> key (f r) = key r) \<Longrightarrow> key ` set (update_where p f rows) = key ` set rows"
  by (metis list.set_map map_update_where)

lemma store_ok_set_document:
  assumes "\<And>d. d_id (f d) = d_id d \<and> doc_key (f d) = doc_key d" and "store_ok s"
  shows "store_ok (s\<lparr>t_documents := update_where p f (t_documents s)\<rparr>)"
proof -
  have "d_sync_state_id (f d) = d_sync_state_id d" for d using assms(1) [of d] by (simp add: doc_key_def)
  then show ?thesis using assms by (simp add: store_ok_def image_update_where)
qed

lemma store_ok_set_sync:
  assumes "\<And>r. ss_id (f r) = ss_id r \<and> ss_drive_id (f r) = ss_drive_id r" and "store_ok s"
  shows "store_ok (s\<lparr>t_sync_state := update_where p f (t_sync_state s)\<rparr>)"
  using assms by (simp add: store_ok_def image_update_where)

lemma ok_set_document:
  assumes "\<And>d. d_id (f d) = d_id d \<and> doc_key (f d) = doc_key d"
  shows "evolves (keeps world_ok) (set_document E i f)"
proof -
  have k: "d_id (touch_document now f d) = d_id d \<and> doc_key (touch_document now f d) = doc_key d" for now d
    using assms by (simp add: touch_document_def doc_key_def)
  have "below_sequences w s \<Longrightarrow> below_sequences w' (s\<lparr>t_documents := update_where p (touch_document now f) (t_documents s)\<rparr>)"
    if "w_next_sync w' = w_next_sync w" "w_next_doc w' = w_next_doc w" "w_next_log w' = w_next_log w" for w w' s p now
    using that k by (auto simp: below_sequences_def set_update_where)
  then show ?thesis unfolding set_document_def modify_store_def
    using store_ok_set_document [OF k]
    by (intro evolve_intros preorder_keeps evolves_modify) (auto simp: keeps_def world_ok_def below_sequences_def)
qed

lemma ok_set_sync:
  assumes "\<And>r. ss_id (f r) = ss_id r \<and> ss_drive_id (f r) = ss_drive_id r"
  shows "evolves (keeps world_ok) (set_sync E i f)"
proof -
  have k: "ss_id (touch_sync now f r) = ss_id r \<and> ss_drive_id (touch_sync now f r) = ss_drive_id r" for now r
    using assms by (simp add: touch_sync_def)
  have "below_sequences w s \<Longrightarrow> below_sequences w' (s\<lparr>t_sync_state := update_where p (touch_sync now f) (t_sync_state s)\<rparr>)"
    if "w_next_sync w' = w_next_sync w" "w_next_doc w' = w_next_doc w" "w_next_log w' = w_next_log w" for w w' s p now
    using that k by (auto simp: below_sequences_def set_update_where)
  then show ?thesis unfolding set_sync_def modify_store_def
    using store_ok_set_sync [OF k]
    by (intro evolve_intros preorder_keeps evolves_modify) (auto simp: keeps_def world_ok_def below_sequences_def)
qed

lemma store_ok_new_sync:
  assumes "store_ok s" and "below_sequences w s" and "w_next_sync w \<le> ss_id r"
    and "ss_drive_id r \<notin> ss_drive_id ` set (t_sync_state s)"
  shows "store_ok (s\<lparr>t_sync_state := t_sync_state s @ [r]\<rparr>)"
proof -
  have "ss_id r \<notin> ss_id ` set (t_sync_state s)" using assms(2,3) by (fastforce simp: below_sequences_def)
  with assms(1,4) show ?thesis by (auto simp: store_ok_def)
qed

lemma store_ok_new_document:
  assumes "store_ok s" and "below_sequences w s" and "w_next_doc w \<le> d_id r"
    and "doc_key r \<notin> doc_key ` set (t_documents s)" and "d_sync_state_id r \<in> ss_id ` set (t_sync_state s)"
  shows "store_ok (s\<lparr>t_documents := t_documents s @ [r]\<rparr>)"
proof -
  have "d_id r \<notin> d_id ` set (t_documents s)" using assms(2,3) by (fastforce simp: below_sequences_def)
  with assms(1,4,5) show ?thesis by (auto simp: store_ok_def)
qed

lemma store_ok_new_log:
  assumes "store_ok s" and "below_sequences w s" and "w_next_log w \<le> pl_id r"
    and "pl_document_id r \<in> d_id ` set (t_documents s)"
  shows "store_ok (s\<lparr>t_processing_log := t_processing_log s @ [r]\<rparr>)"
proof -
  have "pl_id r \<notin> pl_id ` set (t_processing_log s)" using assms(2,3) by (fastforce simp: below_sequences_def)
  with assms(1,4) show ?thesis by (auto simp: store_ok_def)
qed

lemma below_sequences_mono:
  "below_sequences w s \<Longrightarrow> w_next_sync w \<le> w_next_sync w' \<Longrightarrow> w_next_doc w \<le> w_next_doc w' \<Longrightarrow>
     w_next_log w \<le> w_next_log w' \<Longrightarrow> below_sequences w' s"
  by (fastforce simp: below_sequences_def)

text \<open>An insertion either fails, having consumed a sequence value, or appends a row with that value.\<close>

lemma world_ok_grown:
  assumes "world_ok w" and "w_durable w' = w_durable w" and "store_ok (w_work w')" and "below_sequences w' (w_work w')"
    and "w_next_sync w \<le> w_next_sync w'" and "w_next_doc w \<le> w_next_doc w'" and "w_next_log w \<le> w_next_log w'"
  shows "world_ok w'"
  using assms below_sequences_mono [of w "w_durable w" w'] by (simp add: world_ok_def)

lemma ok_insert_sync [evolve_intros]: "evolves (keeps world_ok) (insert_sync E r)"
  unfolding insert_sync_def
proof (intro evolve_intros preorder_keeps evolvesI)
  fix w :: world
  let ?i = "w_next_sync w" and ?now = "db_now E (w_txn w)"
  let ?r = "r\<lparr>ss_id := ?i, ss_created_at := ?now, ss_updated_at := ?now\<rparr>"
  let ?w = "w\<lparr>w_next_sync := ?i + 1\<rparr>"
  let ?w2 = "?w\<lparr>w_work := (w_work w)\<lparr>t_sync_state := t_sync_state (w_work w) @ [?r]\<rparr>\<rparr>"
  have "world_ok w \<Longrightarrow> world_ok ?w"
    by (rule world_ok_grown) (auto simp: world_ok_def intro: below_sequences_mono)
  moreover have "world_ok ?w2" if "world_ok w" "ss_drive_id r \<notin> ss_drive_id ` set (t_sync_state (w_work w))"
    using that store_ok_new_sync [of "w_work w" w ?r] below_sequences_mono [of w "w_work w" ?w]
    by (intro world_ok_grown [OF that(1)]) (simp_all add: world_ok_def below_sequences_def)
  ultimately show "keeps world_ok w (snd (let i = ?i; now = ?now; w' = w\<lparr>w_next_sync := i + 1\<rparr> in
      if ss_drive_id r \<in> ss_drive_id ` set (t_sync_state (w_work w)) then (Inl integrity_error, w')
      else (Inr i, w'\<lparr>w_work := (w_work w)\<lparr>t_sync_state := t_sync_state (w_work w)
              @ [r\<lparr>ss_id := i, ss_created_at := now, ss_updated_at := now\<rparr>]\<rparr>\<rparr>)))"
    unfolding keeps_def Let_def by (simp only: if_distrib [of snd] snd_conv split: if_split) blast
qed

lemma ok_insert_document [evolve_intros]: "evolves (keeps world_ok) (insert_document E r)"
  unfolding insert_document_def
proof (intro evolve_intros preorder_keeps evolvesI)
  fix w :: world
  let ?i = "w_next_doc w" and ?now = "db_now E (w_txn w)"
  let ?r = "r\<lparr>d_id := ?i, d_created_at := ?now, d_updated_at := ?now\<rparr>"
  let ?w = "w\<lparr>w_next_doc := ?i + 1\<rparr>"
  let ?w2 = "?w\<lparr>w_work := (w_work w)\<lparr>t_documents := t_documents (w_work w) @ [?r]\<rparr>\<rparr>"
  let ?bad = "doc_key r \<in> doc_key ` set (t_documents (w_work w)) \<or> d_sync_state_id r \<notin> ss_id ` set (t_sync_state (w_work w))"
  have key: "doc_key ?r = doc_key r" by (simp add: doc_key_def)
  have "world_ok w \<Longrightarrow> world_ok ?w"
    by (rule world_ok_grown) (auto simp: world_ok_def intro: below_sequences_mono)
  moreover have "world_ok ?w2" if "world_ok w" "\<not> ?bad"
    using that store_ok_new_document [of "w_work w" w ?r] below_sequences_mono [of w "w_work w" ?w]
    by (intro world_ok_grown [OF that(1)]) (simp_all add: world_ok_def below_sequences_def key)
  ultimately show "keeps world_ok w (snd (let i = ?i; now = ?now; w' = w\<lparr>w_next_doc := i + 1\<rparr> in
      if ?bad then (Inl integrity_error, w')
      else (Inr i, w'\<lparr>w_work := (w_work w)\<lparr>t_documents := t_documents (w_work w)
              @ [r\<lparr>d_id := i, d_created_at := now, d_updated_at := now\<rparr>]\<rparr>\<rparr>)))"
    unfolding keeps_def Let_def by (simp only: if_distrib [of snd] snd_conv split: if_split) blast
qed

lemma ok_insert_log [evolve_intros]: "evolves (keeps world_ok) (insert_log E r)"
  unfolding insert_log_def
proof (intro evolve_intros preorder_keeps evolvesI)
  fix w :: world
  let ?i = "w_next_log w" and ?now = "db_now E (w_txn w)"
  let ?r = "r\<lparr>pl_id := ?i, pl_created_at := ?now\<rparr>"
  let ?w = "w\<lparr>w_next_log := ?i + 1\<rparr>"
  let ?w2 = "?w\<lparr>w_work := (w_work w)\<lparr>t_processing_log := t_processing_log (w_work w) @ [?r]\<rparr>\<rparr>"
  let ?bad = "pl_document_id r \<notin> d_id ` set (t_documents (w_work w))"
  have "world_ok w \<Longrightarrow> world_ok ?w"
    by (rule world_ok_grown) (auto simp: world_ok_def intro: below_sequences_mono)
  moreover have "world_ok ?w2" if "world_ok w" "\<not> ?bad"
    using that store_ok_new_log [of "w_work w" w ?r] below_sequences_mono [of w "w_work w" ?w]
    by (intro world_ok_grown [OF that(1)]) (simp_all add: world_ok_def below_sequences_def)
  ultimately show "keeps world_ok w (snd (let i = ?i; now = ?now; w' = w\<lparr>w_next_log := i + 1\<rparr> in
      if ?bad then (Inl integrity_error, w')
      else (Inr i, w'\<lparr>w_work := (w_work w)\<lparr>t_processing_log := t_processing_log (w_work w)
              @ [r\<lparr>pl_id := i, pl_created_at := now\<rparr>]\<rparr>\<rparr>)))"
    unfolding keeps_def Let_def by (simp only: if_distrib [of snd] snd_conv split: if_split) blast
qed

lemma ok_commit [evolve_intros]: "evolves (keeps world_ok) (commit E)"
  unfolding commit_def
  by (intro evolve_intros preorder_keeps evolvesI) (simp add: keeps_def world_ok_def below_sequences_def)

lemma ok_rollback [evolve_intros]: "evolves (keeps world_ok) rollback"
  unfolding rollback_def by (rule evolves_modify) (simp add: keeps_def world_ok_def below_sequences_def)

lemma ok_session [evolve_intros]: "evolves (keeps world_ok) body \<Longrightarrow> evolves (keeps world_ok) (with_session body)"
  using ok_rollback by (auto simp: evolves_def snd_with_session keeps_def)

end
