(* ===== verification/PyPath.thy ===== *)
theory PyPath
  imports PyText Errors
begin

text \<open>
  \<^verbatim>\<open>pathlib.PurePosixPath\<close> (Python 3.13), as far as the program uses it: a path is its root
  (empty, one slash or two) and its parts. Operating-system calls on paths are the parameter
  record \<open>filesys\<close> of the components that make them.
\<close>

section \<open>Paths\<close>

datatype ppath = PPath (path_root: string) (path_parts: "string list")

definition root_of :: "string \<Rightarrow> string" where
  "root_of s = (if startswith s ''//'' \<and> \<not> startswith s ''///'' then ''//''
     else if startswith s ''/'' then ''/'' else [])"

definition parse_path :: "string \<Rightarrow> ppath" where
  "parse_path s = PPath (root_of s) (filter (\<lambda>p. p \<noteq> [] \<and> p \<noteq> ''.'') (split_on CHR ''/'' s))"

text \<open>\<^verbatim>\<open>str(path)\<close>, which for a POSIX path is \<^verbatim>\<open>as_posix()\<close>.\<close>

definition path_str :: "ppath \<Rightarrow> string" where
  "path_str p = (if path_root p = [] \<and> path_parts p = [] then ''.''
     else path_root p @ join_with ''/'' (path_parts p))"

definition empty_path :: ppath where
  "empty_path = PPath [] []"

definition path_name :: "ppath \<Rightarrow> string" where
  "path_name p = (if path_parts p = [] then [] else last (path_parts p))"

definition path_parent :: "ppath \<Rightarrow> ppath" where
  "path_parent p = PPath (path_root p) (butlast (path_parts p))"

definition is_absolute :: "ppath \<Rightarrow> bool" where
  "is_absolute p \<longleftrightarrow> path_root p \<noteq> []"

text \<open>\<^verbatim>\<open>path.suffix\<close>: from the last dot of the name, which is neither its first nor its last character.\<close>

definition after_last_dot :: "string \<Rightarrow> string" where
  "after_last_dot s = rev (takeWhile (\<lambda>c. c \<noteq> CHR ''.'') (rev s))"

definition suffix_of_name :: "string \<Rightarrow> string" where
  "suffix_of_name n = (let ext = after_last_dot n in
     if ext \<noteq> [] \<and> length ext + 1 < length n then CHR ''.'' # ext else [])"

definition path_suffix :: "ppath \<Rightarrow> string" where
  "path_suffix p = suffix_of_name (path_name p)"

text \<open>\<^verbatim>\<open>base / other\<close>.\<close>

definition path_join :: "ppath \<Rightarrow> ppath \<Rightarrow> ppath" where
  "path_join p q = (if is_absolute q then q else PPath (path_root p) (path_parts p @ path_parts q))"

text \<open>\<^verbatim>\<open>path.relative_to(base)\<close>; \<open>None\<close> is its \<^verbatim>\<open>ValueError\<close>.\<close>

definition relative_to :: "ppath \<Rightarrow> ppath \<Rightarrow> ppath option" where
  "relative_to p base =
     (if path_root p = path_root base \<and> take (length (path_parts base)) (path_parts p) = path_parts base
      then Some (PPath [] (drop (length (path_parts base)) (path_parts p))) else None)"

text \<open>\<^verbatim>\<open>base in path.parents\<close>.\<close>

definition in_parents :: "ppath \<Rightarrow> ppath \<Rightarrow> bool" where
  "in_parents base p \<longleftrightarrow> path_root base = path_root p
     \<and> length (path_parts base) < length (path_parts p)
     \<and> take (length (path_parts base)) (path_parts p) = path_parts base"

text \<open>The order of \<^verbatim>\<open>sorted(paths)\<close>: the lists of components of their strings.\<close>

definition path_key :: "ppath \<Rightarrow> string list" where
  "path_key p = split_on CHR ''/'' (path_str p)"

definition sorted_paths :: "ppath list \<Rightarrow> ppath list" where
  "sorted_paths ps = sort_key path_key ps"

lemma relative_to_join:
  "\<not> is_absolute q \<Longrightarrow> relative_to (path_join p q) p = Some q"
  by (cases q) (auto simp: relative_to_def path_join_def is_absolute_def)

lemma join_relative_to:
  assumes "relative_to p base = Some r"
  shows "path_join base r = p" and "\<not> is_absolute r"
proof -
  have "path_parts base @ drop (length (path_parts base)) (path_parts p) = path_parts p"
    and "path_root p = path_root base"
    and r: "r = PPath [] (drop (length (path_parts base)) (path_parts p))"
    using assms by (auto simp: relative_to_def split: if_splits) (metis append_take_drop_id)
  then show "path_join base r = p"
    by (cases p) (simp add: path_join_def is_absolute_def)
  show "\<not> is_absolute r" using r by (simp add: is_absolute_def)
qed

lemma in_parents_iff:
  "in_parents base p \<longleftrightarrow> (\<exists>parts. parts \<noteq> [] \<and> p = PPath (path_root base) (path_parts base @ parts))"
proof
  assume h: "in_parents base p"
  let ?parts = "drop (length (path_parts base)) (path_parts p)"
  have "path_parts base @ ?parts = path_parts p"
    using h unfolding in_parents_def by (metis append_take_drop_id)
  moreover have "?parts \<noteq> []" using h by (simp add: in_parents_def)
  moreover have "path_root p = path_root base" using h by (simp add: in_parents_def)
  ultimately show "\<exists>parts. parts \<noteq> [] \<and> p = PPath (path_root base) (path_parts base @ parts)"
    by (metis ppath.collapse)
qed (auto simp: in_parents_def)

lemma set_sorted_paths [simp]: "set (sorted_paths ps) = set ps"
  by (simp add: sorted_paths_def)

lemma suffix_of_name_cases: "suffix_of_name n = [] \<or> hd (suffix_of_name n) = CHR ''.''"
  by (simp add: suffix_of_name_def Let_def)

lemma path_name_parent:
  "path_parts p \<noteq> [] \<Longrightarrow> path_join (path_parent p) (PPath [] [path_name p]) = p"
  by (cases p) (simp add: path_join_def path_parent_def path_name_def is_absolute_def)

section \<open>A relative path and its string\<close>

definition proper_part :: "string \<Rightarrow> bool" where
  "proper_part x \<longleftrightarrow> x \<noteq> [] \<and> x \<noteq> ''.'' \<and> CHR ''/'' \<notin> set x"

lemma split_on_no_sep: "c \<notin> set x \<Longrightarrow> split_on c x = [x]"
  by (induction x) auto

lemma split_on_append_sep: "c \<notin> set x \<Longrightarrow> split_on c (x @ c # s) = x # split_on c s"
  by (induction x) auto

lemma split_on_join: "xs \<noteq> [] \<Longrightarrow> \<forall>x \<in> set xs. c \<notin> set x \<Longrightarrow> split_on c (join_with [c] xs) = xs"
proof (induction xs)
  case Nil
  then show ?case by simp
next
  case (Cons x xs)
  then show ?case by (cases xs) (simp_all add: split_on_no_sep split_on_append_sep)
qed

lemma split_on_parts: "x \<in> set (split_on c s) \<Longrightarrow> c \<notin> set x"
proof (induction s arbitrary: x)
  case Nil
  then show ?case by simp
next
  case (Cons a s)
  obtain p ps where ps: "split_on c s = p # ps" by (cases "split_on c s") auto
  show ?case
  proof (cases "a = c")
    case True
    with Cons show ?thesis by auto
  next
    case False
    with Cons.prems ps have "x = a # p \<or> x \<in> set ps" by auto
    with False Cons.IH ps show ?thesis by auto
  qed
qed

lemma parse_path_proper: "\<forall>x \<in> set (path_parts (parse_path s)). proper_part x"
  by (auto simp: parse_path_def proper_part_def dest: split_on_parts)

lemma parse_path_str:
  assumes "path_root p = []" and "\<forall>x \<in> set (path_parts p). proper_part x"
  shows "parse_path (path_str p) = p"
proof (cases "path_parts p")
  case Nil
  with assms(1) show ?thesis by (cases p) (simp add: path_str_def parse_path_def root_of_def startswith_def)
next
  case (Cons x xs)
  let ?s = "join_with ''/'' (path_parts p)"
  have s: "path_str p = ?s" using assms(1) Cons by (simp add: path_str_def)
  have "split_on CHR ''/'' ?s = path_parts p"
    using assms(2) Cons by (intro split_on_join) (auto simp: proper_part_def)
  moreover have "filter (\<lambda>q. q \<noteq> [] \<and> q \<noteq> ''.'') (path_parts p) = path_parts p"
    using assms(2) by (simp add: filter_id_conv proper_part_def)
  moreover have "root_of ?s = []"
  proof -
    have "hd ?s = hd x" "?s \<noteq> []" using assms(2) Cons by (cases xs; auto simp: proper_part_def)+
    moreover have "hd x \<noteq> CHR ''/''" using assms(2) Cons by (metis hd_in_set list.set_intros(1) proper_part_def)
    ultimately show ?thesis by (cases ?s) (auto simp: root_of_def startswith_def)
  qed
  ultimately show ?thesis using assms(1) unfolding parse_path_def s by (cases p) simp
qed

text \<open>\<^verbatim>\<open>str(PurePosixPath(s))\<close> is \<open>s\<close> for a relative string without empty or dot segments.\<close>

definition canonical_relative :: "string \<Rightarrow> bool" where
  "canonical_relative s \<longleftrightarrow> (\<forall>x \<in> set (split_on CHR ''/'' s). x \<noteq> [] \<and> x \<noteq> ''.'')"

lemma canonical_path_str:
  assumes "canonical_relative s"
  shows "path_str (parse_path s) = s"
proof -
  have parts: "filter (\<lambda>q. q \<noteq> [] \<and> q \<noteq> ''.'') (split_on CHR ''/'' s) = split_on CHR ''/'' s"
    using assms by (simp add: filter_id_conv canonical_relative_def)
  have "root_of s = []"
  proof (cases s)
    case (Cons c t)
    have "c \<noteq> CHR ''/''" using assms Cons by (auto simp: canonical_relative_def)
    with Cons show ?thesis by (auto simp: root_of_def startswith_def)
  qed (simp add: root_of_def startswith_def)
  moreover have "join_with ''/'' (split_on CHR ''/'' s) = s" by (rule join_split_on)
  ultimately show ?thesis by (simp add: parse_path_def path_str_def parts)
qed

section \<open>The file system\<close>

text \<open>
  What the program asks of the operating system about a path: whether it is a file or a directory,
  what \<^verbatim>\<open>rglob("*")\<close> lists below it, opening it for reading (the outer result) and reading the open
  stream (the inner one), \<^verbatim>\<open>read_bytes()\<close>, and \<^verbatim>\<open>resolve()\<close>, which follows symbolic links.
\<close>

record filesys =
  fs_is_file :: "ppath \<Rightarrow> bool"
  fs_is_dir :: "ppath \<Rightarrow> bool"
  fs_rglob :: "ppath \<Rightarrow> ppath list"
  fs_open :: "ppath \<Rightarrow> exn + (exn + bytes)"
  fs_read_bytes :: "ppath \<Rightarrow> exn + bytes"
  fs_resolve :: "ppath \<Rightarrow> ppath"

end
