(* ===== verification/AppConfig.thy ===== *)
theory AppConfig
  imports PyPath
begin

text \<open>
  Runtime settings, \<^verbatim>\<open>src/config.py\<close>. Each section parses its slice of the environment, its
  validator rejects a half-configured section, and \<^verbatim>\<open>_load_section\<close> turns an absent one into
  \<open>None\<close>. The conversion of a raw environment string to a boolean, an integer or a URL is
  pydantic's and is the parameter record \<open>pydantic\<close>; the environment is a map from variable names
  to raw strings.
\<close>

section \<open>The environment\<close>

type_synonym environment = "string \<Rightarrow> string option"

record pydantic =
  to_bool :: "string \<Rightarrow> exn + bool"
  to_int :: "string \<Rightarrow> exn + int"
  to_url :: "string \<Rightarrow> exn + string"

definition validation_ok :: "pydantic \<Rightarrow> bool" where
  "validation_ok P \<longleftrightarrow> (\<forall>s e. to_bool P s = Inl e \<longrightarrow> is_validation_error e)
     \<and> (\<forall>s e. to_int P s = Inl e \<longrightarrow> is_validation_error e)
     \<and> (\<forall>s e. to_url P s = Inl e \<longrightarrow> is_validation_error e)"

definition optional_field :: "environment \<Rightarrow> string \<Rightarrow> (string \<Rightarrow> exn + 'a) \<Rightarrow> exn + 'a option" where
  "optional_field env name conv =
     (case env name of None \<Rightarrow> Inr None | Some raw \<Rightarrow> map_sum id Some (conv raw))"

definition default_field :: "environment \<Rightarrow> string \<Rightarrow> (string \<Rightarrow> exn + 'a) \<Rightarrow> 'a \<Rightarrow> exn + 'a" where
  "default_field env name conv dflt = (case env name of None \<Rightarrow> Inr dflt | Some raw \<Rightarrow> conv raw)"

text \<open>\<^verbatim>\<open>bool(s)\<close> of an optional string or secret: absent and empty are both false.\<close>

definition truthy :: "string option \<Rightarrow> bool" where
  "truthy v \<longleftrightarrow> v \<noteq> None \<and> v \<noteq> Some []"

section \<open>Sections\<close>

definition graph_use_managed_identity :: bool where "graph_use_managed_identity = False"
definition graph_token_scope :: string where "graph_token_scope = ''https://graph.microsoft.com/.default''"
definition graph_base_url :: string where "graph_base_url = ''https://graph.microsoft.com/v1.0''"
definition queue_use_managed_identity :: bool where "queue_use_managed_identity = False"
definition walker_root_path :: string where "walker_root_path = ''/Matters''"
definition walker_time_budget_seconds :: int where "walker_time_budget_seconds = 600"

record jev_settings =
  jev_api_key :: "string option"
  jev_base_url :: "string option"

definition jev_is_configured :: "jev_settings \<Rightarrow> bool" where
  "jev_is_configured s \<longleftrightarrow> jev_api_key s \<noteq> None \<and> jev_base_url s \<noteq> None"

text \<open>A URL object is true; an empty secret is false.\<close>

definition jev_intended :: "jev_settings \<Rightarrow> bool" where
  "jev_intended s \<longleftrightarrow> truthy (jev_api_key s) \<or> jev_base_url s \<noteq> None"

definition jev_reject_partial :: "jev_settings \<Rightarrow> exn + jev_settings" where
  "jev_reject_partial s = (if jev_intended s \<and> \<not> jev_is_configured s
     then Inl (ValidationError ''Jev requires both CLASSIFIER__JEV_API_KEY and CLASSIFIER__JEV_BASE_URL'')
     else Inr s)"

definition jev_settings :: "pydantic \<Rightarrow> environment \<Rightarrow> exn + jev_settings" where
  "jev_settings P env =
     bind_result (optional_field env ''CLASSIFIER__JEV_API_KEY'' Inr) (\<lambda>k.
     bind_result (optional_field env ''CLASSIFIER__JEV_BASE_URL'' (to_url P)) (\<lambda>u.
     jev_reject_partial \<lparr>jev_api_key = k, jev_base_url = u\<rparr>))"

record database_settings =
  db_url :: "string option"

definition database_is_configured :: "database_settings \<Rightarrow> bool" where
  "database_is_configured s \<longleftrightarrow> db_url s \<noteq> None"

definition database_settings :: "pydantic \<Rightarrow> environment \<Rightarrow> exn + database_settings" where
  "database_settings P env =
     bind_result (optional_field env ''CLASSIFIER__DATABASE_URL'' Inr) (\<lambda>u. Inr \<lparr>db_url = u\<rparr>)"

record graph_settings =
  gr_tenant_id :: "string option"
  gr_client_id :: "string option"
  gr_client_secret :: "string option"
  gr_use_managed_identity :: bool
  gr_token_scope :: string
  gr_base_url :: string

definition graph_is_configured :: "graph_settings \<Rightarrow> bool" where
  "graph_is_configured s \<longleftrightarrow> (let has_trio = truthy (gr_tenant_id s) \<and> truthy (gr_client_id s) \<and> truthy (gr_client_secret s)
     in gr_use_managed_identity s \<or> has_trio)"

definition graph_intended :: "graph_settings \<Rightarrow> bool" where
  "graph_intended s \<longleftrightarrow> truthy (gr_tenant_id s) \<or> truthy (gr_client_id s) \<or> truthy (gr_client_secret s)
     \<or> gr_use_managed_identity s"

definition graph_partial_message :: string where
  "graph_partial_message = ''Graph app-only auth requires CLASSIFIER__GRAPH_TENANT_ID, CLASSIFIER__GRAPH_CLIENT_ID and CLASSIFIER__GRAPH_CLIENT_SECRET, or CLASSIFIER__GRAPH_USE_MANAGED_IDENTITY=true for managed identity''"

definition graph_reject_partial :: "graph_settings \<Rightarrow> exn + graph_settings" where
  "graph_reject_partial s = (if graph_is_configured s then Inr s
     else if graph_intended s then Inl (ValidationError graph_partial_message) else Inr s)"

definition graph_settings :: "pydantic \<Rightarrow> environment \<Rightarrow> exn + graph_settings" where
  "graph_settings P env =
     bind_result (optional_field env ''CLASSIFIER__GRAPH_TENANT_ID'' Inr) (\<lambda>t.
     bind_result (optional_field env ''CLASSIFIER__GRAPH_CLIENT_ID'' Inr) (\<lambda>c.
     bind_result (optional_field env ''CLASSIFIER__GRAPH_CLIENT_SECRET'' Inr) (\<lambda>x.
     bind_result (default_field env ''CLASSIFIER__GRAPH_USE_MANAGED_IDENTITY'' (to_bool P) graph_use_managed_identity) (\<lambda>m.
     bind_result (default_field env ''CLASSIFIER__GRAPH_TOKEN_SCOPE'' Inr graph_token_scope) (\<lambda>s.
     bind_result (default_field env ''CLASSIFIER__GRAPH_BASE_URL'' Inr graph_base_url) (\<lambda>b.
     graph_reject_partial \<lparr>gr_tenant_id = t, gr_client_id = c, gr_client_secret = x,
       gr_use_managed_identity = m, gr_token_scope = s, gr_base_url = b\<rparr>))))))"

record queue_settings =
  qs_name :: "string option"
  qs_connection_string :: "string option"
  qs_account_url :: "string option"
  qs_use_managed_identity :: bool

definition queue_is_configured :: "queue_settings \<Rightarrow> bool" where
  "queue_is_configured s \<longleftrightarrow>
     (let has_managed = qs_use_managed_identity s \<and> qs_account_url s \<noteq> None;
          has_auth = qs_connection_string s \<noteq> None \<or> has_managed
      in qs_name s \<noteq> None \<and> has_auth)"

definition queue_intended :: "queue_settings \<Rightarrow> bool" where
  "queue_intended s \<longleftrightarrow> truthy (qs_name s) \<or> truthy (qs_connection_string s) \<or> truthy (qs_account_url s)
     \<or> qs_use_managed_identity s"

definition queue_partial_message :: string where
  "queue_partial_message = ''Queue requires CLASSIFIER__QUEUE_NAME and either CLASSIFIER__QUEUE_CONNECTION_STRING, or CLASSIFIER__QUEUE_ACCOUNT_URL with CLASSIFIER__QUEUE_USE_MANAGED_IDENTITY=true for managed identity''"

definition queue_reject_partial :: "queue_settings \<Rightarrow> exn + queue_settings" where
  "queue_reject_partial s = (if queue_is_configured s then Inr s
     else if queue_intended s then Inl (ValidationError queue_partial_message) else Inr s)"

definition queue_settings :: "pydantic \<Rightarrow> environment \<Rightarrow> exn + queue_settings" where
  "queue_settings P env =
     bind_result (optional_field env ''CLASSIFIER__QUEUE_NAME'' Inr) (\<lambda>n.
     bind_result (optional_field env ''CLASSIFIER__QUEUE_CONNECTION_STRING'' Inr) (\<lambda>c.
     bind_result (optional_field env ''CLASSIFIER__QUEUE_ACCOUNT_URL'' Inr) (\<lambda>u.
     bind_result (default_field env ''CLASSIFIER__QUEUE_USE_MANAGED_IDENTITY'' (to_bool P) queue_use_managed_identity) (\<lambda>m.
     queue_reject_partial \<lparr>qs_name = n, qs_connection_string = c, qs_account_url = u,
       qs_use_managed_identity = m\<rparr>))))"

record walker_settings =
  wk_drive_id :: "string option"
  wk_root_path :: string
  wk_time_budget_seconds :: int

definition walker_is_configured :: "walker_settings \<Rightarrow> bool" where
  "walker_is_configured s \<longleftrightarrow> wk_drive_id s \<noteq> None"

definition positive_int :: "pydantic \<Rightarrow> string \<Rightarrow> exn + int" where
  "positive_int P raw = bind_result (to_int P raw) (\<lambda>n.
     if n > 0 then Inr n else Inl (ValidationError ''Input should be greater than 0''))"

definition walker_settings :: "pydantic \<Rightarrow> environment \<Rightarrow> exn + walker_settings" where
  "walker_settings P env =
     bind_result (optional_field env ''CLASSIFIER__WALKER_DRIVE_ID'' Inr) (\<lambda>d.
     bind_result (default_field env ''CLASSIFIER__WALKER_ROOT_PATH'' Inr walker_root_path) (\<lambda>r.
     bind_result (default_field env ''CLASSIFIER__WALKER_TIME_BUDGET_SECONDS'' (positive_int P) walker_time_budget_seconds) (\<lambda>t.
     Inr \<lparr>wk_drive_id = d, wk_root_path = r, wk_time_budget_seconds = t\<rparr>)))"

record processor_settings =
  pr_category_file :: "ppath option"

definition processor_is_configured :: "processor_settings \<Rightarrow> bool" where
  "processor_is_configured s \<longleftrightarrow> pr_category_file s \<noteq> None"

definition processor_settings :: "pydantic \<Rightarrow> environment \<Rightarrow> exn + processor_settings" where
  "processor_settings P env =
     bind_result (optional_field env ''CLASSIFIER__PROCESSOR_CATEGORY_FILE'' (\<lambda>s. Inr (parse_path s))) (\<lambda>f.
     Inr \<lparr>pr_category_file = f\<rparr>)"

record filesystem_settings =
  fs_root :: "ppath option"

definition filesystem_is_configured :: "filesystem_settings \<Rightarrow> bool" where
  "filesystem_is_configured s \<longleftrightarrow> fs_root s \<noteq> None"

definition filesystem_settings :: "pydantic \<Rightarrow> environment \<Rightarrow> exn + filesystem_settings" where
  "filesystem_settings P env =
     bind_result (optional_field env ''CLASSIFIER__FILESYSTEM_ROOT'' (\<lambda>s. Inr (parse_path s))) (\<lambda>r.
     Inr \<lparr>fs_root = r\<rparr>)"

record blob_settings =
  bl_account_url :: "string option"
  bl_container :: "string option"
  bl_prefix :: string

definition blob_is_configured :: "blob_settings \<Rightarrow> bool" where
  "blob_is_configured s \<longleftrightarrow> bl_account_url s \<noteq> None \<and> bl_container s \<noteq> None"

definition blob_settings :: "pydantic \<Rightarrow> environment \<Rightarrow> exn + blob_settings" where
  "blob_settings P env =
     bind_result (optional_field env ''CLASSIFIER__BLOB_ACCOUNT_URL'' Inr) (\<lambda>a.
     bind_result (optional_field env ''CLASSIFIER__BLOB_CONTAINER'' Inr) (\<lambda>c.
     bind_result (default_field env ''CLASSIFIER__BLOB_PREFIX'' Inr []) (\<lambda>p.
     Inr \<lparr>bl_account_url = a, bl_container = c, bl_prefix = p\<rparr>)))"

section \<open>Settings\<close>

definition load_section :: "(pydantic \<Rightarrow> environment \<Rightarrow> exn + 's) \<Rightarrow> ('s \<Rightarrow> bool) \<Rightarrow> pydantic \<Rightarrow> environment \<Rightarrow> exn + 's option" where
  "load_section section_type is_configured P env =
     bind_result (section_type P env) (\<lambda>sec. Inr (if is_configured sec then Some sec else None))"

datatype source = SharePoint | Filesystem | Blob

definition source_of :: "string \<Rightarrow> exn + source" where
  "source_of raw = (if raw = ''sharepoint'' then Inr SharePoint
     else if raw = ''filesystem'' then Inr Filesystem
     else if raw = ''blob'' then Inr Blob
     else Inl (ValidationError (''Input should be 'sharepoint', 'filesystem' or 'blob'' @ [CHR 0x27])))"

record settings =
  st_source :: source
  st_jev :: "jev_settings option"
  st_database :: "database_settings option"
  st_graph :: "graph_settings option"
  st_queue :: "queue_settings option"
  st_walker :: "walker_settings option"
  st_processor :: "processor_settings option"
  st_filesystem :: "filesystem_settings option"
  st_blob :: "blob_settings option"

definition get_settings :: "pydantic \<Rightarrow> environment \<Rightarrow> exn + settings" where
  "get_settings P env =
     bind_result (default_field env ''CLASSIFIER_SOURCE'' source_of SharePoint) (\<lambda>src.
     bind_result (load_section jev_settings jev_is_configured P env) (\<lambda>j.
     bind_result (load_section database_settings database_is_configured P env) (\<lambda>d.
     bind_result (load_section graph_settings graph_is_configured P env) (\<lambda>g.
     bind_result (load_section queue_settings queue_is_configured P env) (\<lambda>q.
     bind_result (load_section walker_settings walker_is_configured P env) (\<lambda>w.
     bind_result (load_section processor_settings processor_is_configured P env) (\<lambda>p.
     bind_result (load_section filesystem_settings filesystem_is_configured P env) (\<lambda>f.
     bind_result (load_section blob_settings blob_is_configured P env) (\<lambda>b.
     Inr \<lparr>st_source = src, st_jev = j, st_database = d, st_graph = g, st_queue = q, st_walker = w,
       st_processor = p, st_filesystem = f, st_blob = b\<rparr>)))))))))"

section \<open>The section interface\<close>

text \<open>
  What \<^verbatim>\<open>_load_section\<close> relies on in a section: a section that parses is configured whenever a value
  of it was meant (\<open>intended\<close>), so that only a wholly absent section becomes \<open>None\<close>; and parsing
  fails only with pydantic's \<^verbatim>\<open>ValidationError\<close>.
\<close>

locale settings_section =
  fixes section_type :: "pydantic \<Rightarrow> environment \<Rightarrow> exn + 's"
    and is_configured :: "'s \<Rightarrow> bool"
    and intended :: "'s \<Rightarrow> bool"
  assumes partial_rejected: "section_type P env = Inr s \<Longrightarrow> intended s \<Longrightarrow> is_configured s"
    and section_failures: "validation_ok P \<Longrightarrow> section_type P env = Inl e \<Longrightarrow> is_validation_error e"
begin

lemma loaded_configured: "load_section section_type is_configured P env = Inr (Some s) \<Longrightarrow> is_configured s"
  by (auto simp: load_section_def bind_result_def split: sum.splits if_splits)

lemma absent_unintended:
  assumes "load_section section_type is_configured P env = Inr None"
  obtains s where "section_type P env = Inr s" and "\<not> intended s"
  using assms partial_rejected
  by (auto simp: load_section_def bind_result_def split: sum.splits if_splits)

lemma load_failures:
  "validation_ok P \<Longrightarrow> load_section section_type is_configured P env = Inl e \<Longrightarrow> is_validation_error e"
  using section_failures by (auto simp: load_section_def bind_result_def split: sum.splits)

end

lemma optional_field_Inl: "optional_field env n conv = Inl e \<longleftrightarrow> (\<exists>raw. env n = Some raw \<and> conv raw = Inl e)"
  by (auto simp: optional_field_def split: option.splits) (metis map_sum.simps sum.exhaust old.sum.inject(1) sum.simps(4) id_apply)+

lemma optional_field_Inr:
  "optional_field env n conv = Inr v \<longleftrightarrow>
     (case v of None \<Rightarrow> env n = None | Some x \<Rightarrow> (\<exists>raw. env n = Some raw \<and> conv raw = Inr x))"
proof (cases "env n")
  case (Some raw)
  then show ?thesis by (cases "conv raw") (auto simp: optional_field_def split: option.splits)
qed (auto simp: optional_field_def split: option.splits)

lemma default_field_Inl: "default_field env n conv d = Inl e \<longleftrightarrow> (\<exists>raw. env n = Some raw \<and> conv raw = Inl e)"
  by (auto simp: default_field_def split: option.splits)

lemma default_field_Inr:
  "default_field env n conv d = Inr v \<longleftrightarrow> (env n = None \<and> v = d) \<or> (\<exists>raw. env n = Some raw \<and> conv raw = Inr v)"
  by (auto simp: default_field_def split: option.splits)

lemmas field_simps = bind_result_Inr_iff bind_result_Inl_iff optional_field_Inl default_field_Inl default_field_Inr

lemma positive_int_Inl: "validation_ok P \<Longrightarrow> positive_int P raw = Inl e \<Longrightarrow> is_validation_error e"
  by (auto simp: positive_int_def validation_ok_def bind_result_Inl_iff split: if_splits)

interpretation jev_section: settings_section jev_settings jev_is_configured jev_intended
  by unfold_locales
    (auto simp: jev_settings_def field_simps jev_reject_partial_def validation_ok_def split: if_splits)

interpretation graph_section: settings_section graph_settings graph_is_configured graph_intended
  by unfold_locales
    (auto simp: graph_settings_def field_simps graph_reject_partial_def validation_ok_def split: if_splits)

interpretation queue_section: settings_section queue_settings queue_is_configured queue_intended
  by unfold_locales
    (auto simp: queue_settings_def field_simps queue_reject_partial_def validation_ok_def split: if_splits)

interpretation database_section: settings_section database_settings database_is_configured database_is_configured
  by unfold_locales (auto simp: database_settings_def field_simps)

interpretation walker_section: settings_section walker_settings walker_is_configured walker_is_configured
  by unfold_locales (auto simp: walker_settings_def field_simps dest: positive_int_Inl)

interpretation processor_section: settings_section processor_settings processor_is_configured processor_is_configured
  by unfold_locales (auto simp: processor_settings_def field_simps)

interpretation filesystem_section: settings_section filesystem_settings filesystem_is_configured filesystem_is_configured
  by unfold_locales (auto simp: filesystem_settings_def field_simps)

interpretation blob_section: settings_section blob_settings blob_is_configured blob_is_configured
  by unfold_locales (auto simp: blob_settings_def field_simps)

lemma get_settings_Inr:
  assumes "get_settings P env = Inr s"
  shows "default_field env ''CLASSIFIER_SOURCE'' source_of SharePoint = Inr (st_source s)"
    and "load_section jev_settings jev_is_configured P env = Inr (st_jev s)"
    and "load_section database_settings database_is_configured P env = Inr (st_database s)"
    and "load_section graph_settings graph_is_configured P env = Inr (st_graph s)"
    and "load_section queue_settings queue_is_configured P env = Inr (st_queue s)"
    and "load_section walker_settings walker_is_configured P env = Inr (st_walker s)"
    and "load_section processor_settings processor_is_configured P env = Inr (st_processor s)"
    and "load_section filesystem_settings filesystem_is_configured P env = Inr (st_filesystem s)"
    and "load_section blob_settings blob_is_configured P env = Inr (st_blob s)"
  using assms by (auto simp: get_settings_def bind_result_Inr_iff)

lemma optional_string: "optional_field env n Inr = Inr v \<longleftrightarrow> env n = v"
  by (auto simp: optional_field_def split: option.splits)

lemma load_section_iff:
  "load_section sec cfg P env = Inr v \<longleftrightarrow> (\<exists>x. sec P env = Inr x \<and> v = (if cfg x then Some x else None))"
  by (auto simp: load_section_def bind_result_Inr_iff)

text \<open>What each loaded section says of its variables.\<close>

lemma default_false: "default_field env n conv False = Inr False \<longleftrightarrow> (\<forall>raw. env n = Some raw \<longrightarrow> conv raw = Inr False)"
  by (simp add: default_field_def split: option.split)

lemma jev_fields:
  "jev_settings P env = Inr j \<Longrightarrow> jev_api_key j = env ''CLASSIFIER__JEV_API_KEY''
    \<and> optional_field env ''CLASSIFIER__JEV_BASE_URL'' (to_url P) = Inr (jev_base_url j) \<and> (jev_is_configured j \<or> \<not> jev_intended j)"
  by (auto simp: jev_settings_def bind_result_Inr_iff optional_string jev_reject_partial_def split: if_splits)

lemma graph_fields:
  "graph_settings P env = Inr g \<Longrightarrow> gr_tenant_id g = env ''CLASSIFIER__GRAPH_TENANT_ID'' \<and> gr_client_id g = env ''CLASSIFIER__GRAPH_CLIENT_ID''
    \<and> gr_client_secret g = env ''CLASSIFIER__GRAPH_CLIENT_SECRET''
    \<and> default_field env ''CLASSIFIER__GRAPH_USE_MANAGED_IDENTITY'' (to_bool P) False = Inr (gr_use_managed_identity g)
    \<and> (graph_is_configured g \<or> \<not> graph_intended g)"
  by (auto simp: graph_settings_def bind_result_Inr_iff optional_string graph_reject_partial_def graph_use_managed_identity_def split: if_splits)

lemma queue_fields:
  "queue_settings P env = Inr q \<Longrightarrow> qs_name q = env ''CLASSIFIER__QUEUE_NAME'' \<and> qs_connection_string q = env ''CLASSIFIER__QUEUE_CONNECTION_STRING''
    \<and> qs_account_url q = env ''CLASSIFIER__QUEUE_ACCOUNT_URL''
    \<and> default_field env ''CLASSIFIER__QUEUE_USE_MANAGED_IDENTITY'' (to_bool P) False = Inr (qs_use_managed_identity q)
    \<and> (queue_is_configured q \<or> \<not> queue_intended q)"
  by (auto simp: queue_settings_def bind_result_Inr_iff optional_string queue_reject_partial_def queue_use_managed_identity_def split: if_splits)

lemma jev_loaded:
  assumes "load_section jev_settings jev_is_configured P env = Inr v"
  shows "case v of
      Some j \<Rightarrow> jev_api_key j = env ''CLASSIFIER__JEV_API_KEY'' \<and> jev_api_key j \<noteq> None \<and> jev_base_url j \<noteq> None
    | None \<Rightarrow> \<not> truthy (env ''CLASSIFIER__JEV_API_KEY'') \<and> env ''CLASSIFIER__JEV_BASE_URL'' = None"
proof -
  obtain x where x: "jev_settings P env = Inr x" "v = (if jev_is_configured x then Some x else None)"
    using assms by (auto simp: load_section_iff)
  then show ?thesis
    using jev_fields [OF x(1)] by (cases "jev_is_configured x") (auto simp: optional_field_Inr jev_is_configured_def jev_intended_def)
qed

lemma graph_loaded:
  assumes "load_section graph_settings graph_is_configured P env = Inr v"
  shows "case v of
      Some g \<Rightarrow> gr_tenant_id g = env ''CLASSIFIER__GRAPH_TENANT_ID'' \<and> gr_client_id g = env ''CLASSIFIER__GRAPH_CLIENT_ID''
        \<and> gr_client_secret g = env ''CLASSIFIER__GRAPH_CLIENT_SECRET''
        \<and> (gr_use_managed_identity g \<or> truthy (gr_tenant_id g) \<and> truthy (gr_client_id g) \<and> truthy (gr_client_secret g))
    | None \<Rightarrow> \<not> truthy (env ''CLASSIFIER__GRAPH_TENANT_ID'') \<and> \<not> truthy (env ''CLASSIFIER__GRAPH_CLIENT_ID'')
        \<and> \<not> truthy (env ''CLASSIFIER__GRAPH_CLIENT_SECRET'')
        \<and> (\<forall>raw. env ''CLASSIFIER__GRAPH_USE_MANAGED_IDENTITY'' = Some raw \<longrightarrow> to_bool P raw = Inr False)"
proof -
  obtain x where x: "graph_settings P env = Inr x" "v = (if graph_is_configured x then Some x else None)"
    using assms by (auto simp: load_section_iff)
  then show ?thesis
    using graph_fields [OF x(1)] by (cases "graph_is_configured x") (auto simp: default_false [symmetric] graph_is_configured_def graph_intended_def Let_def)
qed

lemma queue_loaded:
  assumes "load_section queue_settings queue_is_configured P env = Inr v"
  shows "case v of
      Some q \<Rightarrow> qs_name q = env ''CLASSIFIER__QUEUE_NAME'' \<and> qs_connection_string q = env ''CLASSIFIER__QUEUE_CONNECTION_STRING''
        \<and> qs_account_url q = env ''CLASSIFIER__QUEUE_ACCOUNT_URL'' \<and> qs_name q \<noteq> None
        \<and> (qs_connection_string q \<noteq> None \<or> qs_use_managed_identity q \<and> qs_account_url q \<noteq> None)
    | None \<Rightarrow> \<not> truthy (env ''CLASSIFIER__QUEUE_NAME'') \<and> \<not> truthy (env ''CLASSIFIER__QUEUE_CONNECTION_STRING'')
        \<and> \<not> truthy (env ''CLASSIFIER__QUEUE_ACCOUNT_URL'')
        \<and> (\<forall>raw. env ''CLASSIFIER__QUEUE_USE_MANAGED_IDENTITY'' = Some raw \<longrightarrow> to_bool P raw = Inr False)"
proof -
  obtain x where x: "queue_settings P env = Inr x" "v = (if queue_is_configured x then Some x else None)"
    using assms by (auto simp: load_section_iff)
  then show ?thesis
    using queue_fields [OF x(1)] by (cases "queue_is_configured x") (auto simp: default_false [symmetric] queue_is_configured_def queue_intended_def Let_def)
qed

lemma database_loaded:
  "load_section database_settings database_is_configured P env = Inr d \<Longrightarrow>
     d = map_option (\<lambda>u. \<lparr>db_url = Some u\<rparr>) (env ''CLASSIFIER__DATABASE_URL'')"
  by (cases "env ''CLASSIFIER__DATABASE_URL''")
    (auto simp: load_section_iff database_settings_def database_is_configured_def bind_result_Inr_iff optional_field_def)

lemma walker_loaded:
  "load_section walker_settings walker_is_configured P env = Inr w \<Longrightarrow>
     map_option wk_drive_id w = map_option Some (env ''CLASSIFIER__WALKER_DRIVE_ID'')"
  by (cases "env ''CLASSIFIER__WALKER_DRIVE_ID''")
    (auto simp: load_section_iff walker_settings_def walker_is_configured_def bind_result_Inr_iff optional_field_def)

lemma processor_loaded:
  "load_section processor_settings processor_is_configured P env = Inr p \<Longrightarrow>
     map_option pr_category_file p = map_option (\<lambda>f. Some (parse_path f)) (env ''CLASSIFIER__PROCESSOR_CATEGORY_FILE'')"
  by (cases "env ''CLASSIFIER__PROCESSOR_CATEGORY_FILE''")
    (auto simp: load_section_iff processor_settings_def processor_is_configured_def bind_result_Inr_iff optional_field_def)

lemma filesystem_loaded:
  "load_section filesystem_settings filesystem_is_configured P env = Inr f \<Longrightarrow>
     map_option fs_root f = map_option (\<lambda>r. Some (parse_path r)) (env ''CLASSIFIER__FILESYSTEM_ROOT'')"
  by (cases "env ''CLASSIFIER__FILESYSTEM_ROOT''")
    (auto simp: load_section_iff filesystem_settings_def filesystem_is_configured_def bind_result_Inr_iff optional_field_def)

lemma blob_loaded:
  assumes "load_section blob_settings blob_is_configured P env = Inr v"
  shows "case v of
      Some b \<Rightarrow> bl_account_url b = env ''CLASSIFIER__BLOB_ACCOUNT_URL'' \<and> bl_container b = env ''CLASSIFIER__BLOB_CONTAINER''
        \<and> bl_account_url b \<noteq> None \<and> bl_container b \<noteq> None
    | None \<Rightarrow> env ''CLASSIFIER__BLOB_ACCOUNT_URL'' = None \<or> env ''CLASSIFIER__BLOB_CONTAINER'' = None"
  using assms
  by (auto simp: load_section_iff blob_settings_def blob_is_configured_def bind_result_Inr_iff optional_string)

lemma source_of_failure: "source_of raw = Inl e \<Longrightarrow> is_validation_error e"
  by (auto simp: source_of_def split: if_splits)

section \<open>Properties\<close>

text \<open>
  Claim C31. What the loaded settings say of the environment. A Jev, Graph or queue section is present only
  when it is complete, with the values of its variables, and absent only when none of its variables holds a
  non-empty value and managed identity is not asked for, so a half-configured one never passes as absent.
  The database, the walker, the processor and the file system have one required variable, and are present
  exactly when it is set. The blob section has two and no such check: it is present exactly when both are
  set, so a half-configured one does pass as absent.
\<close>

theorem loaded_settings_reflect_environment:
  assumes "get_settings P env = Inr s"
  shows "(case st_jev s of
        Some j \<Rightarrow> jev_api_key j = env ''CLASSIFIER__JEV_API_KEY'' \<and> jev_api_key j \<noteq> None \<and> jev_base_url j \<noteq> None
      | None \<Rightarrow> \<not> truthy (env ''CLASSIFIER__JEV_API_KEY'') \<and> env ''CLASSIFIER__JEV_BASE_URL'' = None)
    \<and> (case st_graph s of
        Some g \<Rightarrow> gr_tenant_id g = env ''CLASSIFIER__GRAPH_TENANT_ID'' \<and> gr_client_id g = env ''CLASSIFIER__GRAPH_CLIENT_ID''
          \<and> gr_client_secret g = env ''CLASSIFIER__GRAPH_CLIENT_SECRET''
          \<and> (gr_use_managed_identity g \<or> truthy (gr_tenant_id g) \<and> truthy (gr_client_id g) \<and> truthy (gr_client_secret g))
      | None \<Rightarrow> \<not> truthy (env ''CLASSIFIER__GRAPH_TENANT_ID'') \<and> \<not> truthy (env ''CLASSIFIER__GRAPH_CLIENT_ID'')
          \<and> \<not> truthy (env ''CLASSIFIER__GRAPH_CLIENT_SECRET'')
          \<and> (\<forall>raw. env ''CLASSIFIER__GRAPH_USE_MANAGED_IDENTITY'' = Some raw \<longrightarrow> to_bool P raw = Inr False))
    \<and> (case st_queue s of
        Some q \<Rightarrow> qs_name q = env ''CLASSIFIER__QUEUE_NAME'' \<and> qs_connection_string q = env ''CLASSIFIER__QUEUE_CONNECTION_STRING''
          \<and> qs_account_url q = env ''CLASSIFIER__QUEUE_ACCOUNT_URL'' \<and> qs_name q \<noteq> None
          \<and> (qs_connection_string q \<noteq> None \<or> qs_use_managed_identity q \<and> qs_account_url q \<noteq> None)
      | None \<Rightarrow> \<not> truthy (env ''CLASSIFIER__QUEUE_NAME'') \<and> \<not> truthy (env ''CLASSIFIER__QUEUE_CONNECTION_STRING'')
          \<and> \<not> truthy (env ''CLASSIFIER__QUEUE_ACCOUNT_URL'')
          \<and> (\<forall>raw. env ''CLASSIFIER__QUEUE_USE_MANAGED_IDENTITY'' = Some raw \<longrightarrow> to_bool P raw = Inr False))
    \<and> st_database s = map_option (\<lambda>u. \<lparr>db_url = Some u\<rparr>) (env ''CLASSIFIER__DATABASE_URL'')
    \<and> map_option wk_drive_id (st_walker s) = map_option Some (env ''CLASSIFIER__WALKER_DRIVE_ID'')
    \<and> map_option pr_category_file (st_processor s) = map_option (\<lambda>f. Some (parse_path f)) (env ''CLASSIFIER__PROCESSOR_CATEGORY_FILE'')
    \<and> map_option fs_root (st_filesystem s) = map_option (\<lambda>r. Some (parse_path r)) (env ''CLASSIFIER__FILESYSTEM_ROOT'')
    \<and> (case st_blob s of
        Some b \<Rightarrow> bl_account_url b = env ''CLASSIFIER__BLOB_ACCOUNT_URL'' \<and> bl_container b = env ''CLASSIFIER__BLOB_CONTAINER''
          \<and> bl_account_url b \<noteq> None \<and> bl_container b \<noteq> None
      | None \<Rightarrow> env ''CLASSIFIER__BLOB_ACCOUNT_URL'' = None \<or> env ''CLASSIFIER__BLOB_CONTAINER'' = None)"
proof -
  note loads = get_settings_Inr [OF assms]
  show ?thesis
    by (intro conjI jev_loaded [OF loads(2)] database_loaded [OF loads(3)] graph_loaded [OF loads(4)] queue_loaded [OF loads(5)]
        walker_loaded [OF loads(6)] processor_loaded [OF loads(7)] filesystem_loaded [OF loads(8)] blob_loaded [OF loads(9)])
qed

definition sample_pydantic :: pydantic where
  "sample_pydantic = \<lparr>to_bool = (\<lambda>s. if s = ''true'' then Inr True else if s = ''false'' then Inr False
       else Inl (ValidationError ''bool'')),
     to_int = (\<lambda>s. Inl (ValidationError ''int'')), to_url = (\<lambda>s. Inr s)\<rparr>"

definition sample_env :: environment where
  "sample_env = [''CLASSIFIER__QUEUE_NAME'' \<mapsto> ''work'', ''CLASSIFIER__QUEUE_CONNECTION_STRING'' \<mapsto> ''UseDevelopmentStorage=true'']"

lemmas settings_eval = get_settings_def load_section_def bind_result_def default_field_def optional_field_def
  jev_settings_def jev_reject_partial_def jev_intended_def jev_is_configured_def
  database_settings_def database_is_configured_def
  graph_settings_def graph_reject_partial_def graph_intended_def graph_is_configured_def
  queue_settings_def queue_reject_partial_def queue_intended_def queue_is_configured_def
  walker_settings_def walker_is_configured_def processor_settings_def processor_is_configured_def
  filesystem_settings_def filesystem_is_configured_def blob_settings_def blob_is_configured_def
  graph_use_managed_identity_def queue_use_managed_identity_def truthy_def

lemma sample_settings:
  "get_settings sample_pydantic sample_env = Inr \<lparr>st_source = SharePoint, st_jev = None, st_database = None,
     st_graph = None, st_queue = Some \<lparr>qs_name = Some ''work'',
       qs_connection_string = Some ''UseDevelopmentStorage=true'', qs_account_url = None, qs_use_managed_identity = False\<rparr>,
     st_walker = None, st_processor = None, st_filesystem = None, st_blob = None\<rparr>"
  by (simp add: settings_eval sample_env_def)

theorem loaded_settings_reflect_environment_witness:
  "(\<exists>s q. get_settings sample_pydantic sample_env = Inr s \<and> st_queue s = Some q \<and> qs_name q = Some ''work''
      \<and> \<not> truthy (sample_env ''CLASSIFIER__GRAPH_TENANT_ID'') \<and> st_database s = None)
   \<and> (\<exists>s. get_settings sample_pydantic [''CLASSIFIER__BLOB_ACCOUNT_URL'' \<mapsto> ''https://a''] = Inr s \<and> st_blob s = None)"
proof
  show "\<exists>s q. get_settings sample_pydantic sample_env = Inr s \<and> st_queue s = Some q \<and> qs_name q = Some ''work''
      \<and> \<not> truthy (sample_env ''CLASSIFIER__GRAPH_TENANT_ID'') \<and> st_database s = None"
    using loaded_settings_reflect_environment [OF sample_settings] sample_settings by auto
  show "\<exists>s. get_settings sample_pydantic [''CLASSIFIER__BLOB_ACCOUNT_URL'' \<mapsto> ''https://a''] = Inr s \<and> st_blob s = None"
    by (simp add: settings_eval)
qed

lemma settings_failure: "validation_ok P \<Longrightarrow> get_settings P env = Inl e \<Longrightarrow> is_validation_error e"
  using jev_section.load_failures [of P] database_section.load_failures [of P]
    graph_section.load_failures [of P] queue_section.load_failures [of P] walker_section.load_failures [of P]
    processor_section.load_failures [of P] filesystem_section.load_failures [of P] blob_section.load_failures [of P]
  by (auto simp: get_settings_def bind_result_Inl_iff default_field_Inl dest: source_of_failure)

lemma configured_jev: "get_settings P env = Inr s \<Longrightarrow> st_jev s = Some j \<Longrightarrow> jev_is_configured j"
  using get_settings_Inr(2) jev_section.loaded_configured by fastforce

text \<open>
  Loading the settings fails only with \<^verbatim>\<open>ValidationError\<close>, whatever the environment, and an
  empty environment loads: no section is demanded of a job that does not use it, and the source
  defaults to SharePoint. The conversions of pydantic are assumed to fail with \<^verbatim>\<open>ValidationError\<close>.
\<close>

lemma settings_load_failures:
  assumes "validation_ok P"
  shows "(case get_settings P env of Inl e \<Rightarrow> is_validation_error e | Inr s \<Rightarrow> True)
    \<and> (\<exists>s. get_settings P (\<lambda>_. None) = Inr s \<and> st_source s = SharePoint \<and> st_jev s = None \<and> st_database s = None
         \<and> st_graph s = None \<and> st_queue s = None \<and> st_walker s = None \<and> st_processor s = None
         \<and> st_filesystem s = None \<and> st_blob s = None)"
proof
  show "case get_settings P env of Inl e \<Rightarrow> is_validation_error e | Inr s \<Rightarrow> True"
    using settings_failure [OF assms] by (simp split: sum.split)
  show "\<exists>s. get_settings P (\<lambda>_. None) = Inr s \<and> st_source s = SharePoint \<and> st_jev s = None \<and> st_database s = None
         \<and> st_graph s = None \<and> st_queue s = None \<and> st_walker s = None \<and> st_processor s = None
         \<and> st_filesystem s = None \<and> st_blob s = None"
    by (simp add: settings_eval)
qed

lemma settings_load_failures_example:
  "validation_ok sample_pydantic \<and> (case get_settings sample_pydantic [''CLASSIFIER_SOURCE'' \<mapsto> ''s3''] of
     Inl e \<Rightarrow> is_validation_error e | Inr s \<Rightarrow> True)"
proof -
  have "validation_ok sample_pydantic" by (auto simp: validation_ok_def sample_pydantic_def split: if_splits)
  with settings_load_failures show ?thesis by blast
qed

text \<open>
  An empty value counts as configured where the section tests for absence: an empty Jev API
  key beside an endpoint, an empty database URL, and an empty queue name beside an empty connection
  string are loaded as configured sections, while Graph treats an empty credential as absent.
\<close>

lemma blank_values_configure:
  assumes "to_url P u = Inr url"
  shows "load_section jev_settings jev_is_configured P [''CLASSIFIER__JEV_API_KEY'' \<mapsto> [], ''CLASSIFIER__JEV_BASE_URL'' \<mapsto> u]
      = Inr (Some \<lparr>jev_api_key = Some [], jev_base_url = Some url\<rparr>)
    \<and> load_section database_settings database_is_configured P [''CLASSIFIER__DATABASE_URL'' \<mapsto> []] = Inr (Some \<lparr>db_url = Some []\<rparr>)
    \<and> (\<exists>q. load_section queue_settings queue_is_configured P
        [''CLASSIFIER__QUEUE_NAME'' \<mapsto> [], ''CLASSIFIER__QUEUE_CONNECTION_STRING'' \<mapsto> []] = Inr (Some q) \<and> qs_name q = Some [])
    \<and> load_section graph_settings graph_is_configured P
        [''CLASSIFIER__GRAPH_TENANT_ID'' \<mapsto> [], ''CLASSIFIER__GRAPH_CLIENT_ID'' \<mapsto> [], ''CLASSIFIER__GRAPH_CLIENT_SECRET'' \<mapsto> []] = Inr None"
  using assms by (simp add: settings_eval)

lemma blank_values_configure_example:
  "load_section jev_settings jev_is_configured sample_pydantic
     [''CLASSIFIER__JEV_API_KEY'' \<mapsto> [], ''CLASSIFIER__JEV_BASE_URL'' \<mapsto> ''https://jev'']
   = Inr (Some \<lparr>jev_api_key = Some [], jev_base_url = Some ''https://jev''\<rparr>)"
proof -
  have "to_url sample_pydantic ''https://jev'' = Inr ''https://jev''" by (simp add: sample_pydantic_def)
  from blank_values_configure [OF this] show ?thesis by blast
qed

end
