(* ===== verification/Sdk.thy ===== *)
theory Sdk
  imports Errors
begin

text \<open>
  The constructors of the clients the program builds: what Azure's SDK, httpx and SQLAlchemy do with the values
  of the settings. Each accepts its arguments or raises, as \<^verbatim>\<open>ValueError\<close> for a malformed connection string, a
  blank queue or container name or an invalid tenant identifier, or \<^verbatim>\<open>ArgumentError\<close> for a database URL that does
  not parse. Nothing is sent before a client is used.
\<close>

record sdk =
  sdk_default_credential :: "exn + unit"
  sdk_client_secret_credential :: "string \<Rightarrow> string \<Rightarrow> string \<Rightarrow> exn + unit"
  sdk_http_client :: "exn + unit"
  sdk_queue_from_connection_string :: "string \<Rightarrow> string \<Rightarrow> exn + unit"
  sdk_queue_client :: "string \<Rightarrow> string \<Rightarrow> exn + unit"
  sdk_container_client :: "string \<Rightarrow> string \<Rightarrow> exn + unit"
  sdk_engine :: "string \<Rightarrow> exn + unit"

text \<open>An SDK that accepts every value that is not blank.\<close>

definition not_blank :: "string \<Rightarrow> exn + unit" where
  "not_blank s = (if s = [] then Inl (ValueError ''Please specify a name'') else Inr ())"

definition sample_sdk :: sdk where
  "sample_sdk = \<lparr>sdk_default_credential = Inr (), sdk_client_secret_credential = (\<lambda>t _ _. not_blank t), sdk_http_client = Inr (),
     sdk_queue_from_connection_string = (\<lambda>_ n. not_blank n), sdk_queue_client = (\<lambda>_ n. not_blank n),
     sdk_container_client = (\<lambda>_ c. not_blank c), sdk_engine = not_blank\<rparr>"

end
