(* ===== verification/WorkQueue.thy ===== *)
theory WorkQueue
  imports Database AppConfig Sdk
begin

text \<open>
  The exchanged models \<^verbatim>\<open>src/models.py\<close> and the queue client \<^verbatim>\<open>src/message_queue.py\<close>. The Azure
  queue is a parameter: what its three calls answer at each point of the run; so is pydantic's JSON
  codec of a message. A send and a delete that succeed are events of the trace.
\<close>

section \<open>Models\<close>

datatype message_source = Ms_sharepoint | Ms_filesystem | Ms_blob

record message =
  ms_source :: message_source
  ms_document_id :: int
  ms_sync_state_id :: int
  ms_drive_id :: string
  ms_drive_item_id :: string
  ms_file_name :: string
  ms_mime_type :: string
  ms_content_hash :: string
  ms_enqueued_at :: datetime

record document_classification =
  dc_sync_state_id :: int
  dc_drive_item_id :: string
  dc_category :: string
  dc_confidence :: pyfloat
  dc_raw :: "(string \<times> json) list"
  dc_status :: document_status

record received_message =
  rc_message :: message
  rc_message_id :: string
  rc_pop_receipt :: string
  rc_dequeue_count :: int

section \<open>The queue client\<close>

record raw_message =
  rm_id :: string
  rm_pop_receipt :: string
  rm_dequeue_count :: int
  rm_content :: string

record queue_env = db_env +
  q_send :: "nat \<Rightarrow> string \<Rightarrow> exn option"
  q_receive :: "nat \<Rightarrow> int option \<Rightarrow> exn + raw_message option"
  q_delete :: "nat \<Rightarrow> string \<Rightarrow> string \<Rightarrow> exn option"
  m_dump :: "message \<Rightarrow> string"
  m_validate :: "string \<Rightarrow> exn + message"

fun is_queue_error :: "exn \<Rightarrow> bool" where
  "is_queue_error (QueueError _) = True"
| "is_queue_error _ = False"

text \<open>\<^verbatim>\<open>except AzureError as err: raise QueueError(m) from err\<close>.\<close>

definition azure_to_queue :: "string \<Rightarrow> exn \<Rightarrow> exn" where
  "azure_to_queue m e = (if is_azure_error e then QueueError m else e)"

definition enqueue :: "'z queue_env_scheme \<Rightarrow> message \<Rightarrow> unit job" where
  "enqueue E m = bind_op next_tick (\<lambda>t. case q_send E t (m_dump E m) of
     None \<Rightarrow> record_event (Sent (m_dump E m))
   | Some e \<Rightarrow> throw (azure_to_queue (''Failed to enqueue message for drive item '' @ ms_drive_item_id m) e))"

definition receive :: "'z queue_env_scheme \<Rightarrow> int option \<Rightarrow> received_message option job" where
  "receive E visibility_timeout = bind_op next_tick (\<lambda>t. case q_receive E t visibility_timeout of
     Inl e \<Rightarrow> throw (azure_to_queue ''Failed to receive a message from the queue'' e)
   | Inr None \<Rightarrow> ret None
   | Inr (Some raw) \<Rightarrow> then_op (record_event (Received (rm_id raw)))
      (case m_validate E (rm_content raw) of
        Inl e \<Rightarrow> throw (if is_validation_error e
           then QueueError (''Queue message '' @ rm_id raw @ '' is not a valid work item'') else e)
      | Inr m \<Rightarrow> ret (Some \<lparr>rc_message = m, rc_message_id = rm_id raw, rc_pop_receipt = rm_pop_receipt raw,
           rc_dequeue_count = rm_dequeue_count raw\<rparr>)))"

definition delete :: "'z queue_env_scheme \<Rightarrow> received_message \<Rightarrow> unit job" where
  "delete E r = bind_op next_tick (\<lambda>t. case q_delete E t (rc_message_id r) (rc_pop_receipt r) of
     None \<Rightarrow> record_event (Deleted (rc_message_id r) (rc_pop_receipt r))
   | Some e \<Rightarrow> throw (azure_to_queue (''Failed to delete queue message '' @ rc_message_id r) e))"

section \<open>Construction\<close>

datatype queue_client = FromConnectionString string string | WithManagedIdentity string string

text \<open>The arguments are evaluated before the constructor is called.\<close>

definition build_backend :: "sdk \<Rightarrow> queue_settings \<Rightarrow> exn + queue_client" where
  "build_backend K s =
     (case qs_name s of
        None \<Rightarrow> Inl (ValueError ''Queue name is required.'')
      | Some name \<Rightarrow>
          (case qs_connection_string s of
             Some c \<Rightarrow> bind_result (sdk_queue_from_connection_string K c name) (\<lambda>_. Inr (FromConnectionString c name))
           | None \<Rightarrow>
               (case qs_account_url s of
                  None \<Rightarrow> Inl (ValueError ''Queue managed-identity auth requires an account URL.'')
                | Some u \<Rightarrow>
                    bind_result (sdk_default_credential K) (\<lambda>_.
                    bind_result (sdk_queue_client K u name) (\<lambda>_. Inr (WithManagedIdentity u name))))))"

definition create_message_queue :: "sdk \<Rightarrow> settings \<Rightarrow> exn + queue_client" where
  "create_message_queue K s =
     (case st_queue s of
        None \<Rightarrow> Inl (ValueError ''Queue is not configured; set the CLASSIFIER__QUEUE_* settings.'')
      | Some q \<Rightarrow> build_backend K q)"

text \<open>A configured section builds its client when the SDK accepts the values, and raises what the SDK raises otherwise.\<close>

definition queue_constructor :: "sdk \<Rightarrow> queue_settings \<Rightarrow> exn + unit" where
  "queue_constructor K q =
     (case qs_connection_string q of
        Some c \<Rightarrow> sdk_queue_from_connection_string K c (the (qs_name q))
      | None \<Rightarrow> (case sdk_default_credential K of
            Inl e \<Rightarrow> Inl e
          | Inr _ \<Rightarrow> sdk_queue_client K (the (qs_account_url q)) (the (qs_name q))))"

lemma configured_queue_builds:
  assumes "queue_is_configured q"
  shows "case queue_constructor K q of Inl e \<Rightarrow> build_backend K q = Inl e | Inr _ \<Rightarrow> \<exists>c. build_backend K q = Inr c"
  using assms
  by (auto simp: build_backend_def queue_constructor_def queue_is_configured_def bind_result_def Let_def split: option.splits sum.splits)

section \<open>The queue interface\<close>

text \<open>
  What the jobs rely on in the queue client: its calls touch no store, every failure is a
  \<^verbatim>\<open>QueueError\<close> when the SDK raises \<^verbatim>\<open>AzureError\<close> and the codec \<^verbatim>\<open>ValidationError\<close>.
\<close>

definition queue_ok :: "'z queue_env_scheme \<Rightarrow> bool" where
  "queue_ok E \<longleftrightarrow> (\<forall>t c e. q_send E t c = Some e \<longrightarrow> is_azure_error e)
     \<and> (\<forall>t v e. q_receive E t v = Inl e \<longrightarrow> is_azure_error e)
     \<and> (\<forall>t i p e. q_delete E t i p = Some e \<longrightarrow> is_azure_error e)
     \<and> (\<forall>c e. m_validate E c = Inl e \<longrightarrow> is_validation_error e)"

definition same_stores :: "world \<Rightarrow> world \<Rightarrow> bool" where
  "same_stores w w' \<longleftrightarrow> w_durable w' = w_durable w \<and> w_work w' = w_work w \<and> w_next_sync w' = w_next_sync w
     \<and> w_next_doc w' = w_next_doc w \<and> w_next_log w' = w_next_log w"

lemma preorder_same_stores [simp, intro]: "preorder_rel same_stores"
  by (auto simp: preorder_rel_def same_stores_def)

locale message_channel =
  fixes send :: "'env \<Rightarrow> message \<Rightarrow> unit job"
    and recv :: "'env \<Rightarrow> int option \<Rightarrow> received_message option job"
    and del :: "'env \<Rightarrow> received_message \<Rightarrow> unit job"
    and channel_ok :: "'env \<Rightarrow> bool"
  assumes stores_kept: "evolves same_stores (send E m)" "evolves same_stores (recv E v)" "evolves same_stores (del E r)"
    and failures: "channel_ok E \<Longrightarrow> raises_only is_queue_error (send E m)"
      "channel_ok E \<Longrightarrow> raises_only is_queue_error (recv E v)" "channel_ok E \<Longrightarrow> raises_only is_queue_error (del E r)"
begin

lemma send_keeps_ok: "evolves (keeps world_ok) (send E m)"
  by (rule evolves_mono [OF stores_kept(1)]) (auto simp: same_stores_def keeps_def intro: world_ok_same)

lemma recv_keeps_ok: "evolves (keeps world_ok) (recv E v)"
  by (rule evolves_mono [OF stores_kept(2)]) (auto simp: same_stores_def keeps_def intro: world_ok_same)

lemma del_keeps_ok: "evolves (keeps world_ok) (del E r)"
  by (rule evolves_mono [OF stores_kept(3)]) (auto simp: same_stores_def keeps_def intro: world_ok_same)

lemma same_stores_rel: "preorder_rel S \<Longrightarrow> same_stores w w' \<Longrightarrow> store_rel S w w'"
  by (rule store_rel_same) (simp_all add: same_stores_def)

lemma send_rel: "preorder_rel S \<Longrightarrow> evolves (store_rel S) (send E m)"
  by (rule evolves_mono [OF stores_kept(1)]) (rule same_stores_rel)

lemma recv_rel: "preorder_rel S \<Longrightarrow> evolves (store_rel S) (recv E v)"
  by (rule evolves_mono [OF stores_kept(2)]) (rule same_stores_rel)

lemma del_rel: "preorder_rel S \<Longrightarrow> evolves (store_rel S) (del E r)"
  by (rule evolves_mono [OF stores_kept(3)]) (rule same_stores_rel)

end

lemma same_stores_tick [evolve_intros]: "evolves same_stores next_tick"
  by (simp add: evolves_def next_tick_def same_stores_def)

lemma same_stores_event [evolve_intros]: "evolves same_stores (record_event ev)"
  by (simp add: evolves_def record_event_def modify_op_def same_stores_def)

lemma raises_tick [raise_intros]: "raises_only X next_tick"
  by (simp add: raises_only_def next_tick_def)

lemma raises_event [raise_intros]: "raises_only X (record_event ev)"
  by (simp add: raises_only_def record_event_def modify_op_def)

lemma azure_to_queue_error: "is_azure_error e \<Longrightarrow> is_queue_error (azure_to_queue m e)"
  by (simp add: azure_to_queue_def)

lemma evolves_option_exn [evolve_intros]:
  "evolves R m \<Longrightarrow> (\<And>e. evolves R (f e)) \<Longrightarrow> evolves R (case v of Inl e \<Rightarrow> f e | Inr x \<Rightarrow> m)"
  by (cases v) simp_all

lemma enqueue_same_stores: "evolves same_stores (enqueue E m)"
  unfolding enqueue_def by (intro evolve_intros preorder_same_stores)

lemma receive_same_stores: "evolves same_stores (receive E v)"
proof -
  have "evolves same_stores (case q_receive E t v of
     Inl e \<Rightarrow> throw (azure_to_queue ''Failed to receive a message from the queue'' e)
   | Inr None \<Rightarrow> ret None
   | Inr (Some raw) \<Rightarrow> then_op (record_event (Received (rm_id raw)))
      (case m_validate E (rm_content raw) of
        Inl e \<Rightarrow> throw (if is_validation_error e
           then QueueError (''Queue message '' @ rm_id raw @ '' is not a valid work item'') else e)
      | Inr m \<Rightarrow> ret (Some \<lparr>rc_message = m, rc_message_id = rm_id raw, rc_pop_receipt = rm_pop_receipt raw,
           rc_dequeue_count = rm_dequeue_count raw\<rparr>)))" for t
    by (auto split: sum.split option.split intro!: evolve_intros)
  then show ?thesis unfolding receive_def by (intro evolve_intros preorder_same_stores)
qed

lemma delete_same_stores: "evolves same_stores (delete E r)"
  unfolding delete_def by (intro evolve_intros preorder_same_stores)

lemma receive_failures: "queue_ok E \<Longrightarrow> raises_only is_queue_error (receive E v)"
  unfolding receive_def queue_ok_def
  by (intro raise_intros) (auto split: sum.split option.split intro!: raise_intros simp: azure_to_queue_error)

lemma enqueue_failures: "queue_ok E \<Longrightarrow> raises_only is_queue_error (enqueue E m)"
  unfolding enqueue_def queue_ok_def
  by (intro raise_intros) (auto split: option.split intro!: raise_intros simp: azure_to_queue_error)

lemma delete_failures: "queue_ok E \<Longrightarrow> raises_only is_queue_error (delete E r)"
  unfolding delete_def queue_ok_def
  by (intro raise_intros) (auto split: option.split intro!: raise_intros simp: azure_to_queue_error)

interpretation channel: message_channel enqueue receive delete queue_ok
  by unfold_locales (simp_all add: enqueue_same_stores receive_same_stores delete_same_stores
      enqueue_failures receive_failures delete_failures)

section \<open>Properties\<close>

definition sample_message :: message where
  "sample_message = \<lparr>ms_source = Ms_filesystem, ms_document_id = 1, ms_sync_state_id = 1, ms_drive_id = ''filesystem:/data'',
     ms_drive_item_id = ''a.txt'', ms_file_name = ''a.txt'', ms_mime_type = ''text/plain'', ms_content_hash = ''h1'',
     ms_enqueued_at = 5\<rparr>"

definition sample_queue_env :: queue_env where
  "sample_queue_env = \<lparr>db_fault = (\<lambda>_. None), db_now = int, py_now = int, q_send = (\<lambda>_ _. None),
     q_receive = (\<lambda>t _. Inr (Some \<lparr>rm_id = ''m1'', rm_pop_receipt = ''p1'', rm_dequeue_count = 1, rm_content = ''{}''\<rparr>)),
     q_delete = (\<lambda>_ _ _. Some (AzureError ''gone'')), m_dump = (\<lambda>_. ''{}''),
     m_validate = (\<lambda>c. if c = ''{}'' then Inr sample_message else Inl (ValidationError ''bad''))\<rparr>"

definition empty_store :: store where
  "empty_store = \<lparr>t_sync_state = [], t_documents = [], t_processing_log = []\<rparr>"

definition empty_world :: world where
  "empty_world = \<lparr>w_durable = empty_store, w_work = empty_store, w_next_sync = 1, w_next_doc = 1, w_next_log = 1,
     w_tick = 0, w_txn = 0, w_trace = []\<rparr>"

text \<open>
  Claim C33. The queue client fails only with \<^verbatim>\<open>QueueError\<close>: a transport failure of any of the three
  calls, and a body that is not a work item, whose message then stays on the queue since nothing was
  deleted. The SDK is assumed to raise \<^verbatim>\<open>AzureError\<close> and the codec \<^verbatim>\<open>ValidationError\<close>.
\<close>

theorem queue_failures:
  assumes "queue_ok E"
  shows "(case enqueue E m w of (Inr _, w') \<Rightarrow> True | (Inl e, w') \<Rightarrow> is_queue_error e \<and> w_trace w' = w_trace w)
    \<and> (case delete E r w of (Inr _, w') \<Rightarrow> True | (Inl e, w') \<Rightarrow> is_queue_error e \<and> w_trace w' = w_trace w)
    \<and> (case receive E tmo w of
         (Inl e, w') \<Rightarrow> is_queue_error e \<and> (\<forall>i p. count_list (w_trace w') (Deleted i p) = count_list (w_trace w) (Deleted i p))
       | (Inr None, w') \<Rightarrow> q_receive E (w_tick w) tmo = Inr None
       | (Inr (Some x), w') \<Rightarrow> (\<exists>raw. q_receive E (w_tick w) tmo = Inr (Some raw) \<and> m_validate E (rm_content raw) = Inr (rc_message x)))"
proof (intro conjI)
  show "case enqueue E m w of (Inr _, w') \<Rightarrow> True | (Inl e, w') \<Rightarrow> is_queue_error e \<and> w_trace w' = w_trace w"
    using raises_onlyD [OF channel.failures(1) [OF assms], of m w]
    by (auto simp: enqueue_def next_tick_def record_event_def op_simps split: prod.splits sum.splits option.splits)
  show "case delete E r w of (Inr _, w') \<Rightarrow> True | (Inl e, w') \<Rightarrow> is_queue_error e \<and> w_trace w' = w_trace w"
    using raises_onlyD [OF channel.failures(3) [OF assms], of r w]
    by (auto simp: delete_def next_tick_def record_event_def op_simps split: prod.splits sum.splits option.splits)
  show "case receive E tmo w of
         (Inl e, w') \<Rightarrow> is_queue_error e \<and> (\<forall>i p. count_list (w_trace w') (Deleted i p) = count_list (w_trace w) (Deleted i p))
       | (Inr None, w') \<Rightarrow> q_receive E (w_tick w) tmo = Inr None
       | (Inr (Some x), w') \<Rightarrow> (\<exists>raw. q_receive E (w_tick w) tmo = Inr (Some raw) \<and> m_validate E (rm_content raw) = Inr (rc_message x))"
    using raises_onlyD [OF channel.failures(2) [OF assms], of tmo w]
    by (auto simp: receive_def next_tick_def record_event_def op_simps split: prod.splits sum.splits option.splits)
qed

theorem queue_failures_witness:
  "\<exists>e w'. delete sample_queue_env \<lparr>rc_message = sample_message, rc_message_id = ''m1'', rc_pop_receipt = ''p1'',
      rc_dequeue_count = 1\<rparr> empty_world = (Inl e, w') \<and> is_queue_error e \<and> w_trace w' = []"
proof -
  let ?r = "\<lparr>rc_message = sample_message, rc_message_id = ''m1'', rc_pop_receipt = ''p1'', rc_dequeue_count = 1\<rparr>"
  have "queue_ok sample_queue_env" by (auto simp: queue_ok_def sample_queue_env_def split: if_splits)
  from queue_failures [OF this, where r = ?r and w = empty_world, THEN conjunct2, THEN conjunct1] have
    "case delete sample_queue_env ?r empty_world of (Inr _, w') \<Rightarrow> True
       | (Inl e, w') \<Rightarrow> is_queue_error e \<and> w_trace w' = w_trace empty_world" .
  moreover obtain e w' where d: "delete sample_queue_env ?r empty_world = (Inl e, w')"
    by (simp add: delete_def next_tick_def op_simps sample_queue_env_def)
  ultimately show ?thesis by (simp add: empty_world_def)
qed

end
