(* ===== verification/Enqueuer.thy ===== *)
theory Enqueuer
  imports WorkQueue
begin

text \<open>
  The enqueue core shared by the producers, \<^verbatim>\<open>src/enqueuer.py\<close>: the decision whether a discovered
  file needs queuing, the row it leaves in \<^verbatim>\<open>documents\<close>, and the commit that precedes the send. An ORM
  object is the identifier of its row; reading an attribute of the \<^verbatim>\<open>sync_state\<close> object may reload it.
\<close>

section \<open>Operations\<close>

record document_candidate =
  ca_drive_item_id :: string
  ca_content_hash :: string
  ca_file_name :: "string option"
  ca_mime_type :: "string option"
  ca_folder_path :: "string option"

definition IN_FLIGHT :: "document_status set" where
  "IN_FLIGHT = {Ds_queued, Ds_processing}"

text \<open>
  \<^verbatim>\<open>sync.id\<close> reloads the sync row only when a commit has expired it. The model reloads it every time: an
  additional call that may fail, so that its failures include those of the code.
\<close>

definition existing_document :: "'z queue_env_scheme \<Rightarrow> int \<Rightarrow> string \<Rightarrow> document option job" where
  "existing_document E sync drive_item_id = bind_op (load_sync E sync) (\<lambda>s.
     one_or_none E t_documents (\<lambda>d. d_sync_state_id d = ss_id s \<and> d_drive_item_id d = drive_item_id))"

fun should_enqueue :: "document option \<Rightarrow> string \<Rightarrow> bool" where
  "should_enqueue None new_hash = True"
| "should_enqueue (Some d) new_hash =
     (if d_status d \<in> IN_FLIGHT then False
      else if d_status d = Ds_pending then True
      else Some new_hash \<noteq> d_content_hash d)"

definition rotate_hash :: "document_candidate \<Rightarrow> document \<Rightarrow> document" where
  "rotate_hash c d = (if Some (ca_content_hash c) \<noteq> d_content_hash d then d\<lparr>d_previous_hash := d_content_hash d\<rparr> else d)"

definition queued_fields :: "document_candidate \<Rightarrow> document \<Rightarrow> document" where
  "queued_fields c d = d\<lparr>d_file_name := ca_file_name c, d_mime_type := ca_mime_type c,
     d_folder_path := ca_folder_path c, d_content_hash := Some (ca_content_hash c), d_status := Ds_queued\<rparr>"

definition upsert_queued_row ::
  "'z queue_env_scheme \<Rightarrow> int \<Rightarrow> document_candidate \<Rightarrow> document option \<Rightarrow> document job" where
  "upsert_queued_row E sync c existing =
     (case existing of
        None \<Rightarrow>
          (let d = queued_fields c (new_document sync (ca_drive_item_id c)) in
           bind_op (insert_document E d) (\<lambda>i. ret (d\<lparr>d_id := i\<rparr>)))
      | Some d \<Rightarrow>
          then_op (set_document E (d_id d) (\<lambda>r. queued_fields c (rotate_hash c r)))
          (then_op (flush E) (ret (queued_fields c (rotate_hash c d)))))"

definition or_empty :: "string option \<Rightarrow> string" where
  "or_empty v = (case v of None \<Rightarrow> [] | Some s \<Rightarrow> s)"

definition build_message :: "document \<Rightarrow> string \<Rightarrow> message_source \<Rightarrow> datetime \<Rightarrow> message" where
  "build_message d drive_id src enqueued_at = \<lparr>ms_source = src, ms_document_id = d_id d,
     ms_sync_state_id = d_sync_state_id d, ms_drive_id = drive_id, ms_drive_item_id = d_drive_item_id d,
     ms_file_name = or_empty (d_file_name d), ms_mime_type = or_empty (d_mime_type d),
     ms_content_hash = or_empty (d_content_hash d), ms_enqueued_at = enqueued_at\<rparr>"

definition queue_document ::
  "'z queue_env_scheme \<Rightarrow> int \<Rightarrow> string \<Rightarrow> message_source \<Rightarrow> document_candidate \<Rightarrow> document option \<Rightarrow> unit job" where
  "queue_document E sync drive_id src c existing =
     bind_op (upsert_queued_row E sync c existing) (\<lambda>d.
     bind_op (utc_now E) (\<lambda>t.
     let m = build_message d drive_id src t in
     then_op (commit E) (enqueue E m)))"

definition enqueue_if_needed ::
  "'z queue_env_scheme \<Rightarrow> int \<Rightarrow> string \<Rightarrow> message_source \<Rightarrow> document_candidate \<Rightarrow> unit job" where
  "enqueue_if_needed E sync drive_id src c =
     bind_op (existing_document E sync (ca_drive_item_id c)) (\<lambda>existing.
     if should_enqueue existing (ca_content_hash c)
     then queue_document E sync drive_id src c existing else ret ())"

section \<open>Reading\<close>

text \<open>Operations that only read leave the stores, the transaction and the trace as they were.\<close>

definition only_reads :: "world \<Rightarrow> world \<Rightarrow> bool" where
  "only_reads w w' \<longleftrightarrow> same_stores w w' \<and> w_trace w' = w_trace w \<and> w_txn w' = w_txn w"

lemma preorder_only_reads [simp, intro]: "preorder_rel only_reads"
  by (auto simp: preorder_rel_def only_reads_def same_stores_def)

lemma reads_tick [evolve_intros]: "evolves only_reads next_tick"
  by (simp add: evolves_def next_tick_def only_reads_def same_stores_def)

lemma reads_clock [evolve_intros]: "evolves only_reads (utc_now E)"
  unfolding utc_now_def by (intro evolve_intros preorder_only_reads)

lemma reads_call [evolve_intros]: "evolves only_reads (db_call E)"
  unfolding db_call_def by (intro evolve_intros preorder_only_reads)

lemma reads_query [evolve_intros]: "evolves only_reads (one_or_none E table p)"
proof -
  have "evolves only_reads (case rows of [] \<Rightarrow> ret None | [r] \<Rightarrow> ret (Some r) | _ \<Rightarrow> throw e)" for rows e
    by (cases rows; cases "tl rows") (auto intro: evolve_intros)
  then show ?thesis unfolding one_or_none_def by (intro evolve_intros preorder_only_reads)
qed

lemma reads_load [evolve_intros]: "evolves only_reads (load_row E table key i)"
  unfolding load_row_def by (intro evolve_intros preorder_only_reads)

lemma reads_load_sync [evolve_intros]: "evolves only_reads (load_sync E i)"
  unfolding load_sync_def by (rule reads_load)

lemma reads_load_document [evolve_intros]: "evolves only_reads (load_document E i)"
  unfolding load_document_def by (rule reads_load)

lemma only_reads_stores:
  "only_reads w w' \<Longrightarrow> w_durable w' = w_durable w \<and> w_work w' = w_work w \<and> w_trace w' = w_trace w"
  by (simp add: only_reads_def same_stores_def)

lemma only_reads_rel: "preorder_rel S \<Longrightarrow> evolves only_reads m \<Longrightarrow> evolves (store_rel S) m"
  by (erule evolves_mono) (auto simp: only_reads_def intro: channel.same_stores_rel)

text \<open>Kinds of events an operation adds none of to the trace.\<close>

fun is_deletion :: "event \<Rightarrow> bool" where
  "is_deletion (Deleted _ _) = True"
| "is_deletion _ = False"

fun is_sent :: "event \<Rightarrow> bool" where
  "is_sent (Sent _) = True"
| "is_sent _ = False"

definition adds_none :: "(event \<Rightarrow> bool) \<Rightarrow> world \<Rightarrow> world \<Rightarrow> bool" where
  "adds_none k w w' \<longleftrightarrow> filter k (w_trace w') = filter k (w_trace w)"

lemma preorder_adds_none [simp, intro]: "preorder_rel (adds_none k)"
  by (simp add: preorder_rel_def adds_none_def)

lemma adds_none_call [evolve_intros]: "evolves (adds_none k) (db_call E)"
  by (rule evolves_mono [OF reads_call]) (simp add: only_reads_def adds_none_def)

lemma adds_none_commit: "(\<And>s. \<not> k (Committed s)) \<Longrightarrow> evolves (adds_none k) (commit E)"
  unfolding commit_def by (intro evolve_intros preorder_adds_none evolvesI) (simp add: adds_none_def)

lemma db_call_cases:
  obtains (fails) m where "db_call E w = (Inl (SQLAlchemyError m), w\<lparr>w_tick := Suc (w_tick w)\<rparr>)"
    | (answers) "db_call E w = (Inr (), w\<lparr>w_tick := Suc (w_tick w)\<rparr>)"
  by (cases "db_fault E (w_tick w)") (auto simp: db_call_def next_tick_def op_simps)

lemma raises_call [raise_intros]: "raises_only is_sqlalchemy_error (db_call E)"
  unfolding raises_only_def by (metis db_call_cases is_sqlalchemy_error.simps(1) prod.inject sum.inject(1) sum.distinct(1))

lemma raises_query [raise_intros]: "raises_only is_sqlalchemy_error (one_or_none E table p)"
proof -
  have "raises_only is_sqlalchemy_error (case rows of [] \<Rightarrow> ret None | [r] \<Rightarrow> ret (Some r) | _ \<Rightarrow> throw (SQLAlchemyError m))" for rows m
    by (cases rows; cases "tl rows") (auto intro: raise_intros)
  then show ?thesis unfolding one_or_none_def by (intro raise_intros)
qed

lemma case_rows_Inr:
  "(case rows of [] \<Rightarrow> ret None | [r] \<Rightarrow> ret (Some r) | _ \<Rightarrow> throw e) u = (Inr v, u') \<Longrightarrow>
     rows = (case v of None \<Rightarrow> [] | Some x \<Rightarrow> [x])"
  by (cases rows; cases "tl rows") (auto simp: op_simps)

lemma one_or_none_Inr:
  assumes "one_or_none E table p w = (Inr r, w')"
  shows "filter p (table (w_work w)) = (case r of None \<Rightarrow> [] | Some x \<Rightarrow> [x])"
proof (cases rule: db_call_cases [of E w])
  case (fails m)
  with assms show ?thesis by (simp add: one_or_none_def then_op_def bind_op_def)
next
  case answers
  with assms show ?thesis
    by (auto simp: one_or_none_def then_op_def bind_op_def gets_op_def dest: case_rows_Inr)
qed

lemma filter_single: "filter p xs = [r] \<Longrightarrow> r \<in> set xs \<and> p r"
  by (metis filter_eq_ConsD in_set_conv_decomp)

lemma load_row_Inr:
  "load_row E table key i w = (Inr r, w') \<Longrightarrow> r \<in> set (table (w_work w)) \<and> key r = i"
  unfolding load_row_def
  by (erule bind_op_eqE) (auto simp: op_simps dest!: one_or_none_Inr filter_single split: option.splits)

lemma raises_load [raise_intros]: "raises_only is_sqlalchemy_error (load_row E table key i)"
  unfolding load_row_def by (intro raise_intros) (auto split: option.split intro: raise_intros)

text \<open>The row of a file.\<close>

definition lookup_document :: "store \<Rightarrow> int \<Rightarrow> string \<Rightarrow> document option" where
  "lookup_document s sync item = find (\<lambda>d. doc_key d = (sync, item)) (t_documents s)"

lemma existing_document_result:
  assumes "existing_document E sync item w = (r, w')"
  shows "only_reads w w' \<and> (case r of Inl e \<Rightarrow> is_sqlalchemy_error e
     | Inr p \<Rightarrow> p = lookup_document (w_work w) sync item \<and> sync \<in> ss_id ` set (t_sync_state (w_work w)))"
proof -
  have "evolves only_reads (existing_document E sync item)"
    unfolding existing_document_def by (intro evolve_intros preorder_only_reads)
  then have reads: "only_reads w w'" using assms by (rule evolvesD)
  have errs: "raises_only is_sqlalchemy_error (existing_document E sync item)"
    unfolding existing_document_def load_sync_def by (intro raise_intros)
  show ?thesis
  proof (cases r)
    case (Inl e)
    then show ?thesis using reads raises_onlyD [OF errs] assms by auto
  next
    case (Inr p)
    then obtain s u where s: "load_sync E sync w = (Inr s, u)" and
      q: "one_or_none E t_documents (\<lambda>d. d_sync_state_id d = ss_id s \<and> d_drive_item_id d = item) u = (Inr p, w')"
      using assms unfolding existing_document_def by (auto elim!: bind_op_eqE)
    have sid: "ss_id s = sync" "s \<in> set (t_sync_state (w_work w))" using load_row_Inr [OF s [unfolded load_sync_def]] by auto
    have "w_work u = w_work w"
      using evolvesD [OF reads_load_sync s] by (simp add: only_reads_stores)
    then have "filter (\<lambda>d. doc_key d = (sync, item)) (t_documents (w_work w)) = (case p of None \<Rightarrow> [] | Some x \<Rightarrow> [x])"
      using one_or_none_Inr [OF q] sid by (simp add: doc_key_def)
    then have "p = lookup_document (w_work w) sync item"
      by (auto simp: lookup_document_def find_filter split: option.splits)
    then show ?thesis using Inr reads sid by auto
  qed
qed

section \<open>Writing the row\<close>

lemma insert_document_result:
  assumes "insert_document E r w = (res, w')"
  shows "w_durable w' = w_durable w \<and> w_trace w' = w_trace w
    \<and> (case res of Inl e \<Rightarrow> is_sqlalchemy_error e \<and> w_work w' = w_work w
       | Inr i \<Rightarrow> i = w_next_doc w
          \<and> w_work w' = (w_work w)\<lparr>t_documents := t_documents (w_work w)
              @ [r\<lparr>d_id := i, d_created_at := db_now E (w_txn w), d_updated_at := db_now E (w_txn w)\<rparr>]\<rparr>
          \<and> doc_key r \<notin> doc_key ` set (t_documents (w_work w)))"
  using assms
  by (cases rule: db_call_cases [of E w])
    (auto simp: insert_document_def then_op_def bind_op_def Let_def integrity_error_def split: if_splits)

lemma set_document_eq:
  "set_document E i f w = (Inr (), w\<lparr>w_work := (w_work w)\<lparr>t_documents :=
     update_where (\<lambda>d. d_id d = i) (touch_document (db_now E (w_txn w)) f) (t_documents (w_work w))\<rparr>\<rparr>)"
  by (simp add: set_document_def modify_store_def op_simps)

lemma commit_result:
  assumes "commit E w = (r, w')"
  shows "(\<exists>m. r = Inl (SQLAlchemyError m) \<and> w_durable w' = w_durable w \<and> w_work w' = w_work w \<and> w_trace w' = w_trace w)
    \<or> (r = Inr () \<and> w_durable w' = w_work w \<and> w_work w' = w_work w \<and> w_trace w' = w_trace w @ [Committed (w_work w)])"
  using assms by (cases rule: db_call_cases [of E w]) (auto simp: commit_def then_op_def bind_op_def)

lemma enqueue_result:
  assumes "enqueue E m w = (r, w')"
  shows "same_stores w w' \<and> (case r of Inl e \<Rightarrow> w_trace w' = w_trace w
    | Inr _ \<Rightarrow> w_trace w' = w_trace w @ [Sent (m_dump E m)])"
  using assms by (auto simp: enqueue_def next_tick_def record_event_def op_simps same_stores_def split: option.splits)

text \<open>
  What queuing leaves of the row the file had: the new identity and hash, the old hash rotated when the
  content changed, and everything a human or the classifier put there untouched.
\<close>

definition queued_from :: "int \<Rightarrow> document_candidate \<Rightarrow> document option \<Rightarrow> document \<Rightarrow> bool" where
  "queued_from sync c prior d \<longleftrightarrow> doc_key d = (sync, ca_drive_item_id c) \<and> d_status d = Ds_queued
     \<and> d_content_hash d = Some (ca_content_hash c) \<and> d_file_name d = ca_file_name c
     \<and> d_mime_type d = ca_mime_type c \<and> d_folder_path d = ca_folder_path c
     \<and> (case prior of
          None \<Rightarrow> d_previous_hash d = None \<and> d_classification_override d = None \<and> d_category d = None \<and> d_retry_count d = 0
        | Some p \<Rightarrow> d_id d = d_id p
            \<and> d_previous_hash d = (if d_content_hash p = Some (ca_content_hash c) then d_previous_hash p else d_content_hash p)
            \<and> d_classification_override d = d_classification_override p \<and> d_category d = d_category p
            \<and> d_confidence d = d_confidence p \<and> d_classified_by d = d_classified_by p
            \<and> d_raw_response d = d_raw_response p \<and> d_error_message d = d_error_message p
            \<and> d_retry_count d = d_retry_count p \<and> d_classified_at d = d_classified_at p
            \<and> d_processed_at d = d_processed_at p)"

lemma queued_from_insert:
  "queued_from sync c None ((queued_fields c (new_document sync (ca_drive_item_id c)))
     \<lparr>d_id := i, d_created_at := x, d_updated_at := y\<rparr>)"
  by (simp add: queued_from_def queued_fields_def new_document_def doc_key_def)

lemma touch_cases: "touch_document now f d = f d \<or> touch_document now f d = (f d)\<lparr>d_updated_at := now\<rparr>"
  by (simp add: touch_document_def)

lemma queued_from_update:
  assumes "doc_key p = (sync, ca_drive_item_id c)"
  shows "queued_from sync c (Some p) (touch_document now (\<lambda>r. queued_fields c (rotate_hash c r)) p)"
proof -
  let ?r = "queued_fields c (rotate_hash c p)"
  have "queued_from sync c (Some p) ?r" and "queued_from sync c (Some p) (?r\<lparr>d_updated_at := now\<rparr>)"
    using assms by (auto simp: queued_from_def queued_fields_def rotate_hash_def doc_key_def)
  then show ?thesis using touch_cases [of now "\<lambda>r. queued_fields c (rotate_hash c r)" p] by auto
qed

lemma upsert_result:
  assumes ok: "store_ok (w_work w)" and prior: "prior = lookup_document (w_work w) sync (ca_drive_item_id c)"
    and "upsert_queued_row E sync c prior w = (r, w')"
  shows "w_durable w' = w_durable w \<and> w_trace w' = w_trace w
    \<and> (case r of Inl e \<Rightarrow> is_sqlalchemy_error e
       | Inr d \<Rightarrow> \<exists>row. lookup_document (w_work w') sync (ca_drive_item_id c) = Some row
           \<and> queued_from sync c prior row \<and> d_id d = d_id row \<and> doc_key d = doc_key row
           \<and> d_file_name d = ca_file_name c \<and> d_mime_type d = ca_mime_type c
           \<and> d_content_hash d = Some (ca_content_hash c))"
proof (cases prior)
  case None
  let ?d = "queued_fields c (new_document sync (ca_drive_item_id c))"
  have key: "doc_key ?d = (sync, ca_drive_item_id c)" by (simp add: queued_fields_def new_document_def doc_key_def)
  obtain res u where i: "insert_document E ?d w = (res, u)" by fastforce
  from insert_document_result [OF i] show ?thesis
  proof (cases res)
    case (Inl e)
    with insert_document_result [OF i] i None assms(3) show ?thesis
      by (auto simp: upsert_queued_row_def Let_def bind_op_def)
  next
    case (Inr n)
    let ?row = "?d\<lparr>d_id := n, d_created_at := db_now E (w_txn w), d_updated_at := db_now E (w_txn w)\<rparr>"
    have rows: "t_documents (w_work u) = t_documents (w_work w) @ [?row]" and
      fresh: "(sync, ca_drive_item_id c) \<notin> doc_key ` set (t_documents (w_work w))"
      using insert_document_result [OF i] Inr key by auto
    have "doc_key ?row = (sync, ca_drive_item_id c)" by (simp add: queued_fields_def new_document_def doc_key_def)
    then have "lookup_document (w_work u) sync (ca_drive_item_id c) = Some ?row"
      unfolding lookup_document_def rows by (rule find_append_new [where key = doc_key, OF fresh])
    moreover have "r = Inr (?d\<lparr>d_id := n\<rparr>)" "w' = u"
      using assms(3) i Inr None by (auto simp: upsert_queued_row_def Let_def bind_op_def ret_def)
    ultimately show ?thesis using insert_document_result [OF i] queued_from_insert None Inr
      by (auto simp: doc_key_def queued_fields_def)
  qed
next
  case (Some p)
  let ?f = "\<lambda>r. queued_fields c (rotate_hash c r)"
  let ?t = "touch_document (db_now E (w_txn w)) ?f"
  have f: "d_id (?t d) = d_id d \<and> doc_key (?t d) = doc_key d" for d
    by (simp add: touch_document_def queued_fields_def rotate_hash_def doc_key_def)
  have p: "find (\<lambda>d. doc_key d = (sync, ca_drive_item_id c)) (t_documents (w_work w)) = Some p"
    using prior Some by (simp add: lookup_document_def)
  then have pk: "doc_key p = (sync, ca_drive_item_id c)" by (metis (mono_tags, lifting) find_Some_iff2)
  have row: "find (\<lambda>d. doc_key d = (sync, ca_drive_item_id c))
      (update_where (\<lambda>d. d_id d = d_id p) ?t (t_documents (w_work w))) = Some (?t p)"
    using ok by (intro find_update_where [where key = doc_key, OF _ p f]) (simp add: store_ok_def)
  let ?w = "w\<lparr>w_work := (w_work w)\<lparr>t_documents := update_where (\<lambda>d. d_id d = d_id p) ?t (t_documents (w_work w))\<rparr>\<rparr>"
  have u: "upsert_queued_row E sync c prior w = then_op (flush E) (ret (?f p)) ?w"
    using Some by (simp add: upsert_queued_row_def then_op_def bind_op_def set_document_eq)
  show ?thesis
  proof (cases rule: db_call_cases [of E ?w])
    case (fails m)
    with u assms(3) show ?thesis by (auto simp: flush_def then_op_def bind_op_def)
  next
    case answers
    then have "r = Inr (?f p)" and "w' = ?w\<lparr>w_tick := Suc (w_tick w)\<rparr>"
      using u assms(3) by (auto simp: flush_def then_op_def bind_op_def ret_def)
    moreover have "queued_from sync c prior (?t p)" using queued_from_update [OF pk] Some by simp
    ultimately show ?thesis using row f [of p] pk
      by (simp add: lookup_document_def queued_fields_def rotate_hash_def doc_key_def)
  qed
qed

section \<open>The outcome of enqueuing\<close>

definition needs_queuing :: "document option \<Rightarrow> string \<Rightarrow> bool" where
  "needs_queuing prior h \<longleftrightarrow> (case prior of None \<Rightarrow> True
     | Some p \<Rightarrow> d_status p \<notin> {Ds_queued, Ds_processing} \<and> (d_status p = Ds_pending \<or> d_content_hash p \<noteq> Some h))"

lemma should_enqueue_iff: "should_enqueue prior h \<longleftrightarrow> needs_queuing prior h"
  by (cases prior) (auto simp: needs_queuing_def IN_FLIGHT_def)

text \<open>The message of a row: its identity and the candidate's metadata.\<close>

definition work_item :: "document \<Rightarrow> string \<Rightarrow> message_source \<Rightarrow> document_candidate \<Rightarrow> datetime \<Rightarrow> message" where
  "work_item row drive_id src c t = \<lparr>ms_source = src, ms_document_id = d_id row, ms_sync_state_id = d_sync_state_id row,
     ms_drive_id = drive_id, ms_drive_item_id = ca_drive_item_id c, ms_file_name = or_empty (ca_file_name c),
     ms_mime_type = or_empty (ca_mime_type c), ms_content_hash = ca_content_hash c, ms_enqueued_at = t\<rparr>"

text \<open>The three ways queuing a file ends.\<close>

definition queuing_outcome ::
  "'z queue_env_scheme \<Rightarrow> int \<Rightarrow> string \<Rightarrow> message_source \<Rightarrow> document_candidate \<Rightarrow> document option \<Rightarrow> world \<Rightarrow> exn + unit \<Rightarrow> world \<Rightarrow> bool" where
  "queuing_outcome E sync drive_id src c prior w r w' \<longleftrightarrow>
     (\<exists>e. r = Inl e \<and> is_sqlalchemy_error e \<and> w_durable w' = w_durable w \<and> w_trace w' = w_trace w)
     \<or> (\<exists>row. lookup_document (w_durable w') sync (ca_drive_item_id c) = Some row \<and> queued_from sync c prior row
          \<and> w_work w' = w_durable w'
          \<and> ((\<exists>e. r = Inl e \<and> w_trace w' = w_trace w @ [Committed (w_durable w')])
             \<or> (\<exists>t. r = Inr () \<and> w_trace w' = w_trace w
                   @ [Committed (w_durable w'), Sent (m_dump E (work_item row drive_id src c t))])))"

lemma queue_document_outcome:
  assumes "store_ok (w_work w)" and "prior = lookup_document (w_work w) sync (ca_drive_item_id c)"
    and "queue_document E sync drive_id src c prior w = (r, w')"
  shows "queuing_outcome E sync drive_id src c prior w r w'"
proof -
  obtain res u where up: "upsert_queued_row E sync c prior w = (res, u)" by fastforce
  note u = upsert_result [OF assms(1,2) up]
  show ?thesis
  proof (cases res)
    case (Inl e)
    with assms(3) up have "r = Inl e" "w' = u" by (auto simp: queue_document_def bind_op_def)
    with u Inl show ?thesis by (auto simp: queuing_outcome_def)
  next
    case (Inr d)
    then obtain row where row: "lookup_document (w_work u) sync (ca_drive_item_id c) = Some row"
        "queued_from sync c prior row" "d_id d = d_id row" "doc_key d = doc_key row" "d_file_name d = ca_file_name c"
        "d_mime_type d = ca_mime_type c" "d_content_hash d = Some (ca_content_hash c)" using u by auto
    obtain t v where now: "utc_now E u = (Inr t, v)" by (simp add: utc_now_def next_tick_def op_simps)
    have v: "w_durable v = w_durable u" "w_work v = w_work u" "w_trace v = w_trace u"
      using evolvesD [OF reads_clock now] by (auto simp: only_reads_stores)
    let ?m = "build_message d drive_id src t"
    have m: "?m = work_item row drive_id src c t"
      using row by (auto simp: build_message_def work_item_def or_empty_def queued_from_def doc_key_def)
    obtain cr x where cm: "commit E v = (cr, x)" by fastforce
    have rest: "(r, w') = then_op (commit E) (enqueue E ?m) v"
      using assms(3) up Inr now by (simp add: queue_document_def bind_op_def)
    from commit_result [OF cm] show ?thesis
    proof (elim disjE exE conjE)
      fix msg
      assume "cr = Inl (SQLAlchemyError msg)" and x: "w_durable x = w_durable v" "w_trace x = w_trace v"
      then have "r = Inl (SQLAlchemyError msg)" "w' = x" using rest cm by (auto simp: then_op_def bind_op_def)
      with x v u show ?thesis by (simp add: queuing_outcome_def)
    next
      assume ok: "cr = Inr ()" "w_durable x = w_work v" "w_work x = w_work v" "w_trace x = w_trace v @ [Committed (w_work v)]"
      then have "enqueue E ?m x = (r, w')" using rest cm by (auto simp: then_op_def bind_op_def)
      from enqueue_result [OF this] ok v u row m show ?thesis
        by (cases r) (auto simp: queuing_outcome_def same_stores_def)
    qed
  qed
qed

lemma enqueue_outcome:
  assumes "store_ok (w_work w)" and "prior = lookup_document (w_work w) sync (ca_drive_item_id c)"
    and "enqueue_if_needed E sync drive_id src c w = (r, w')"
  shows "if needs_queuing prior (ca_content_hash c) then queuing_outcome E sync drive_id src c prior w r w'
    else w_durable w' = w_durable w \<and> w_work w' = w_work w \<and> w_trace w' = w_trace w \<and> (\<forall>e. r = Inl e \<longrightarrow> is_sqlalchemy_error e)"
proof -
  obtain res u where ex: "existing_document E sync (ca_drive_item_id c) w = (res, u)" by fastforce
  from existing_document_result [OF ex] have u: "only_reads w u" "case res of Inl e \<Rightarrow> is_sqlalchemy_error e | Inr p \<Rightarrow> p = prior"
    using assms(2) by (auto split: sum.splits)
  note same = only_reads_stores [OF u(1)]
  show ?thesis
  proof (cases res)
    case (Inl e)
    with assms(3) ex have "r = Inl e" "w' = u" by (auto simp: enqueue_if_needed_def bind_op_def)
    with u Inl same show ?thesis by (simp add: queuing_outcome_def)
  next
    case (Inr p)
    then have p: "p = prior" using u by simp
    show ?thesis
    proof (cases "needs_queuing prior (ca_content_hash c)")
      case True
      then have "queue_document E sync drive_id src c prior u = (r, w')"
        using assms(3) ex Inr p by (simp add: enqueue_if_needed_def bind_op_def should_enqueue_iff)
      from queue_document_outcome [OF _ _ this] assms(1,2) same True show ?thesis
        by (simp add: queuing_outcome_def)
    next
      case False
      then have "r = Inr ()" "w' = u"
        using assms(3) ex Inr p by (simp_all add: enqueue_if_needed_def bind_op_def should_enqueue_iff ret_def)
      with False same show ?thesis by simp
    qed
  qed
qed

section \<open>Sends follow their commit\<close>

text \<open>
  The row a message announces is durable when the message is sent: the event before every send is the
  commit of a store where the row is queued under the message's identity and hash.
\<close>

definition announces :: "'z queue_env_scheme \<Rightarrow> store \<Rightarrow> string \<Rightarrow> bool" where
  "announces E s body \<longleftrightarrow> (\<exists>m d. body = m_dump E m \<and> d \<in> set (t_documents s) \<and> d_id d = ms_document_id m
     \<and> doc_key d = (ms_sync_state_id m, ms_drive_item_id m) \<and> d_status d = Ds_queued
     \<and> d_content_hash d = Some (ms_content_hash m))"

definition sends_committed :: "'z queue_env_scheme \<Rightarrow> event list \<Rightarrow> bool" where
  "sends_committed E tr \<longleftrightarrow> (\<forall>pre body post. tr = pre @ Sent body # post \<longrightarrow>
     (\<exists>pre' s. pre = pre' @ [Committed s] \<and> announces E s body))"

lemma sends_committed_Nil: "sends_committed E []"
  by (simp add: sends_committed_def)

lemma append_split: "tr @ [e] = pre @ x # post \<longleftrightarrow> (\<exists>post'. post = post' @ [e] \<and> tr = pre @ x # post') \<or> (post = [] \<and> x = e \<and> tr = pre)"
  by (cases post rule: rev_cases) auto

lemma sends_committed_snoc:
  "sends_committed E tr \<Longrightarrow> (\<And>b. e \<noteq> Sent b) \<Longrightarrow> sends_committed E (tr @ [e])"
  unfolding sends_committed_def append_split by blast

lemma sends_committed_send:
  "sends_committed E tr \<Longrightarrow> announces E s body \<Longrightarrow> sends_committed E (tr @ [Committed s, Sent body])"
proof -
  assume tr: "sends_committed E tr" and a: "announces E s body"
  have "sends_committed E (tr @ [Committed s])" by (rule sends_committed_snoc [OF tr]) simp
  then have "sends_committed E ((tr @ [Committed s]) @ [Sent body])"
    using a unfolding sends_committed_def append_split by blast
  then show ?thesis by simp
qed

lemma lookup_document_Some:
  "lookup_document s sync item = Some d \<Longrightarrow> d \<in> set (t_documents s) \<and> doc_key d = (sync, item)"
  unfolding lookup_document_def by (rule find_key_Some [where key = doc_key])

lemma queuing_sends_committed:
  assumes "queuing_outcome E sync drive_id src c prior w r w'" and "sends_committed E (w_trace w)"
  shows "sends_committed E (w_trace w')"
proof -
  have "announces E s (m_dump E (work_item row drive_id src c t))"
    if "lookup_document s sync (ca_drive_item_id c) = Some row" "queued_from sync c prior row" for s row t
    unfolding announces_def using lookup_document_Some [OF that(1)] that(2)
    by (intro exI [of _ "work_item row drive_id src c t"] exI [of _ row])
      (simp add: work_item_def queued_from_def doc_key_def)
  with assms show ?thesis
    by (auto simp: queuing_outcome_def intro!: sends_committed_send intro: sends_committed_snoc)
qed

text \<open>What a human or the classifier wrote about a document.\<close>

definition verdict :: "document \<Rightarrow> string option \<times> string option \<times> pyfloat option \<times> string option
    \<times> (string \<times> json) list option \<times> int" where
  "verdict d = (d_classification_override d, d_category d, d_confidence d, d_classified_by d, d_raw_response d, d_retry_count d)"

lemma verdict_queued [simp]: "verdict (queued_fields c (rotate_hash c d)) = verdict d"
  by (simp add: verdict_def queued_fields_def rotate_hash_def)

section \<open>The enqueue interface\<close>

text \<open>
  The contract the producers rely on: feeding a candidate keeps the schema's constraints and every
  verdict, and sends only what it has committed. A producer that does nothing else to \<^verbatim>\<open>documents\<close>
  inherits this for a whole walk.
\<close>

definition producer_inv :: "'z queue_env_scheme \<Rightarrow> world \<Rightarrow> bool" where
  "producer_inv E w \<longleftrightarrow> world_ok w \<and> sends_committed E (w_trace w)"

locale enqueue_contract =
  fixes E :: "'z queue_env_scheme"
    and enq :: "'c \<Rightarrow> unit job"
  assumes keeps_inv: "evolves (keeps (producer_inv E)) (enq c)"
    and keeps_verdicts: "evolves (store_rel (docs_keep verdict)) (enq c)"
begin

lemma batch_keeps_inv: "evolves (keeps (producer_inv E)) (for_each enq cs)"
  by (intro evolve_intros preorder_keeps keeps_inv)

lemma batch_keeps_verdicts: "evolves (store_rel (docs_keep verdict)) (for_each enq cs)"
  by (intro evolve_intros keep.wpre keeps_verdicts)

lemma batch_sends_committed:
  assumes "world_ok w" and "sends_committed E (w_trace w)"
  shows "sends_committed E (w_trace (snd (for_each enq cs w)))"
  using batch_keeps_inv assms by (simp add: evolves_def keeps_def producer_inv_def)

end

context store_preorder
begin

lemma enqueuing:
  assumes "\<And>i. evolves (store_rel S) (set_document E i (\<lambda>r. queued_fields c (rotate_hash c r)))"
    and "\<And>d. evolves (store_rel S) (insert_document E d)"
  shows "evolves (store_rel S) (enqueue_if_needed E sync drive_id src c)"
proof -
  have "evolves (store_rel S) (upsert_queued_row E sync c p)" for p
    unfolding upsert_queued_row_def Let_def by (intro evolve_intros wpre flushing assms)
  then show ?thesis
    unfolding enqueue_if_needed_def queue_document_def existing_document_def Let_def
    by (intro evolve_intros wpre loading_sync query clock committing channel.send_rel [OF pre])
qed

end

lemma enqueue_keeps_verdicts: "evolves (store_rel (docs_keep verdict)) (enqueue_if_needed E sync drive_id src c)"
  by (intro keep.enqueuing keeps_setting_document keeps_inserting_document)
    (auto simp: queued_fields_def rotate_hash_def doc_key_def verdict_def)

lemma enqueue_keeps_world_ok: "evolves (keeps world_ok) (enqueue_if_needed E sync drive_id src c)"
proof -
  have "evolves (keeps world_ok) (set_document E i (\<lambda>r. queued_fields c (rotate_hash c r)))" for i
    by (rule ok_set_document) (simp add: queued_fields_def rotate_hash_def doc_key_def)
  then have "evolves (keeps world_ok) (upsert_queued_row E sync c p)" for p
    unfolding upsert_queued_row_def Let_def by (intro evolve_intros preorder_keeps)
  then show ?thesis
    unfolding enqueue_if_needed_def queue_document_def existing_document_def Let_def
    by (intro evolve_intros preorder_keeps channel.send_keeps_ok)
qed

lemma enqueue_keeps_inv: "evolves (keeps (producer_inv E)) (enqueue_if_needed E sync drive_id src c)"
proof (rule evolvesI)
  fix w
  obtain r w' where run: "enqueue_if_needed E sync drive_id src c w = (r, w')" by fastforce
  show "keeps (producer_inv E) w (snd (enqueue_if_needed E sync drive_id src c w))"
    unfolding keeps_def producer_inv_def run snd_conv
  proof (intro impI conjI)
    assume inv: "world_ok w \<and> sends_committed E (w_trace w)"
    show "world_ok w'" using evolvesD [OF enqueue_keeps_world_ok run] inv by (simp add: keeps_def)
    have "store_ok (w_work w)" using inv by (simp add: world_ok_def)
    from enqueue_outcome [OF this refl run] inv show "sends_committed E (w_trace w')"
      by (auto split: if_splits intro: queuing_sends_committed)
  qed
qed

interpretation enqueuer: enqueue_contract E "enqueue_if_needed E sync drive_id src" for E sync drive_id src
  by unfold_locales (rule enqueue_keeps_inv enqueue_keeps_verdicts)+

section \<open>The producer interface\<close>

text \<open>
  What the deployment relies on in a producer, whichever the source: a whole walk keeps the producer
  invariant and the verdicts. Run in a session that starts on the durable store, it leaves every
  human override and every earlier result in place, and sends only committed rows.
\<close>

locale producer =
  fixes E :: "'z queue_env_scheme"
    and produce :: "'r job"
  assumes produce_inv: "evolves (keeps (producer_inv E)) produce"
    and produce_verdicts: "evolves (store_rel (docs_keep verdict)) produce"
begin

lemma session_keeps:
  assumes "world_ok w" and "w_work w = w_durable w" and "sends_committed E (w_trace w)"
    and "with_session produce w = (r, w')"
  shows "docs_keep verdict (w_durable w) (w_durable w') \<and> sends_committed E (w_trace w') \<and> world_ok w'"
proof -
  have w': "w' = snd (rollback (snd (produce w)))" using assms(4) snd_with_session [of produce w] by simp
  have inv: "producer_inv E (snd (produce w))" using produce_inv assms(1,3) by (simp add: evolves_def keeps_def producer_inv_def)
  have "docs_keep verdict (w_durable w) (w_durable (snd (with_session produce w)))"
    using keep.session_outcome [OF keep.closing [OF produce_verdicts] assms(2)] .
  moreover have "world_ok w'" using ok_rollback inv w' by (simp add: evolves_def keeps_def producer_inv_def)
  moreover have "sends_committed E (w_trace w')"
    using inv unfolding w' producer_inv_def rollback_def modify_op_def by (auto intro: sends_committed_snoc)
  ultimately show ?thesis using assms(4) by simp
qed

end

lemma inv_reads: "evolves only_reads m \<Longrightarrow> evolves (keeps (producer_inv E)) m"
  unfolding evolves_def keeps_def producer_inv_def only_reads_def same_stores_def by (metis world_ok_same)

lemma inv_quiet:
  assumes "evolves (keeps world_ok) m" and "\<And>w. w_trace (snd (m w)) = w_trace w"
  shows "evolves (keeps (producer_inv E)) m"
  using assms by (simp add: evolves_def keeps_def producer_inv_def)

lemma inv_commit: "evolves (keeps (producer_inv E)) (commit E')"
proof (rule evolvesI)
  fix w
  obtain r u where cm: "commit E' w = (r, u)" by fastforce
  have "world_ok w \<Longrightarrow> world_ok u" using evolvesD [OF ok_commit cm] by (simp add: keeps_def)
  with commit_result [OF cm] show "keeps (producer_inv E) w (snd (commit E' w))"
    unfolding cm by (auto simp: keeps_def producer_inv_def intro: sends_committed_snoc)
qed

lemma inv_set_sync:
  "(\<And>r. ss_id (f r) = ss_id r \<and> ss_drive_id (f r) = ss_drive_id r) \<Longrightarrow> evolves (keeps (producer_inv E)) (set_sync E' i f)"
  by (intro inv_quiet ok_set_sync) (simp_all add: set_sync_def modify_store_def op_simps)

lemma inv_insert_sync: "evolves (keeps (producer_inv E)) (insert_sync E' r)"
proof (rule inv_quiet [OF ok_insert_sync])
  show "w_trace (snd (insert_sync E' r w)) = w_trace w" for w
    by (cases rule: db_call_cases [of E' w]) (simp_all add: insert_sync_def then_op_def bind_op_def Let_def)
qed

section \<open>Properties\<close>

lemma queuing_outcome_in_flight:
  assumes "queuing_outcome E sync drive_id src c prior w r w'" and "w_trace w' \<noteq> w_trace w"
  shows "\<exists>row. lookup_document (w_work w') sync (ca_drive_item_id c) = Some row \<and> d_status row = Ds_queued"
  using assms by (auto simp: queuing_outcome_def queued_from_def)

lemma in_flight_silent:
  assumes "store_ok (w_work w)" and "lookup_document (w_work w) sync (ca_drive_item_id c) = Some row"
    and "d_status row \<in> {Ds_queued, Ds_processing}" and "enqueue_if_needed E sync drive_id src c w = (r, w')"
  shows "w_trace w' = w_trace w \<and> w_durable w' = w_durable w"
  using enqueue_outcome [OF assms(1) refl assms(4)] assms(2,3) by (auto simp: needs_queuing_def split: if_splits)

text \<open>
  Claim C17. The enqueue decision and its effect: a file is queued exactly when it has no row, or its
  row is not in flight and is \<open>pending\<close> or carries another content hash. Queuing leaves one durable row
  for the file, queued under the new hash and metadata, with the old hash rotated into
  \<^verbatim>\<open>previous_hash\<close> when the content changed and the human override and the earlier result untouched;
  the commit of that row is followed by the send of its message. Otherwise nothing is written or sent.
\<close>

theorem enqueue_if_needed_spec:
  assumes "store_ok (w_work w)" and "w_work w = w_durable w"
    and "enqueue_if_needed E sync drive_id src c w = (Inr (), w')"
  shows "if (case lookup_document (w_durable w) sync (ca_drive_item_id c) of None \<Rightarrow> True
       | Some p \<Rightarrow> d_status p \<notin> {Ds_queued, Ds_processing} \<and> (d_status p = Ds_pending \<or> d_content_hash p \<noteq> Some (ca_content_hash c)))
    then \<exists>row t. lookup_document (w_durable w') sync (ca_drive_item_id c) = Some row
       \<and> queued_from sync c (lookup_document (w_durable w) sync (ca_drive_item_id c)) row
       \<and> w_trace w' = w_trace w @ [Committed (w_durable w'), Sent (m_dump E (work_item row drive_id src c t))]
    else w_durable w' = w_durable w \<and> w_trace w' = w_trace w"
  using enqueue_outcome [OF assms(1) refl assms(3)] assms(2)
  unfolding needs_queuing_def queuing_outcome_def by (auto split: if_splits)

definition sample_sync :: sync_state where
  "sample_sync = (new_sync_state ''d'')\<lparr>ss_id := 1\<rparr>"

definition sample_store :: store where
  "sample_store = \<lparr>t_sync_state = [sample_sync],
     t_documents = [(new_document 1 ''old'')\<lparr>d_id := 1, d_content_hash := Some ''h0'', d_status := Ds_completed,
       d_classification_override := Some ''Invoice''\<rparr>],
     t_processing_log = []\<rparr>"

definition sample_world :: world where
  "sample_world = empty_world\<lparr>w_durable := sample_store, w_work := sample_store, w_next_sync := 2, w_next_doc := 2\<rparr>"

definition sample_candidate :: document_candidate where
  "sample_candidate = \<lparr>ca_drive_item_id = ''old'', ca_content_hash = ''h1'', ca_file_name = Some ''old.txt'',
     ca_mime_type = Some ''text/plain'', ca_folder_path = None\<rparr>"

lemmas enqueue_eval = enqueue_if_needed_def existing_document_def load_sync_def load_row_def one_or_none_def
  db_call_def next_tick_def queue_document_def upsert_queued_row_def flush_def utc_now_def commit_def enqueue_def
  set_document_def modify_store_def record_event_def op_simps IN_FLIGHT_def Let_def

lemmas sample_eval = sample_world_def sample_store_def sample_sync_def sample_candidate_def sample_queue_env_def
  empty_world_def empty_store_def new_sync_state_def new_document_def

lemma sample_store_ok: "store_ok (w_work sample_world)"
  by (simp add: sample_eval store_ok_def doc_key_def)

lemma sample_enqueue: "\<exists>w'. enqueue_if_needed sample_queue_env 1 ''d'' Ms_sharepoint sample_candidate sample_world = (Inr (), w')"
  by (simp add: enqueue_eval sample_eval)

theorem enqueue_if_needed_spec_witness:
  "\<exists>w' row t. enqueue_if_needed sample_queue_env 1 ''d'' Ms_sharepoint sample_candidate sample_world = (Inr (), w')
     \<and> lookup_document (w_durable w') 1 ''old'' = Some row \<and> d_previous_hash row = Some ''h0''
     \<and> d_content_hash row = Some ''h1'' \<and> d_classification_override row = Some ''Invoice''
     \<and> w_trace w' = [Committed (w_durable w'),
          Sent (m_dump sample_queue_env (work_item row ''d'' Ms_sharepoint sample_candidate t))]"
proof -
  obtain w' where run: "enqueue_if_needed sample_queue_env 1 ''d'' Ms_sharepoint sample_candidate sample_world = (Inr (), w')"
    using sample_enqueue by blast
  have "w_work sample_world = w_durable sample_world" by (simp add: sample_world_def)
  from enqueue_if_needed_spec [OF sample_store_ok this run]
  have "\<exists>row t. lookup_document (w_durable w') 1 ''old'' = Some row
       \<and> queued_from 1 sample_candidate (lookup_document sample_store 1 ''old'') row
       \<and> w_trace w' = [Committed (w_durable w'),
          Sent (m_dump sample_queue_env (work_item row ''d'' Ms_sharepoint sample_candidate t))]"
    by (simp add: sample_eval lookup_document_def doc_key_def)
  with run show ?thesis
    by (fastforce simp: queued_from_def sample_eval lookup_document_def doc_key_def)
qed

text \<open>
  A send that fails leaves an at-most-once gap and never a duplicate: when enqueuing raises,
  no message was sent; either nothing became durable, or the row is durably queued, and from then on
  any later attempt for this file, whatever its content hash, writes and sends nothing. After a
  successful attempt the same holds, so repeating a walk never sends a file's message twice.
\<close>

lemma queued_file_not_resent:
  assumes "world_ok w" and "enqueue_if_needed E sync drive_id src c w = (r, w')"
    and "enqueue_if_needed E' sync drive_id' src' c' w' = (r', w'')" and "ca_drive_item_id c' = ca_drive_item_id c"
    and "w_trace w' \<noteq> w_trace w"
  shows "(\<exists>row. lookup_document (w_durable w') sync (ca_drive_item_id c) = Some row \<and> d_status row = Ds_queued)
    \<and> (\<forall>e. r = Inl e \<longrightarrow> w_trace w' = w_trace w @ [Committed (w_durable w')])
    \<and> w_trace w'' = w_trace w' \<and> w_durable w'' = w_durable w'"
proof -
  let ?prior = "lookup_document (w_work w) sync (ca_drive_item_id c)"
  have "store_ok (w_work w)" using assms(1) by (simp add: world_ok_def)
  from enqueue_outcome [OF this refl assms(2)] assms(5)
  have out: "queuing_outcome E sync drive_id src c ?prior w r w'" by (simp split: if_splits)
  then have both: "w_work w' = w_durable w'" using assms(5) by (auto simp: queuing_outcome_def)
  from queuing_outcome_in_flight [OF out assms(5)] obtain row where
    row: "lookup_document (w_work w') sync (ca_drive_item_id c) = Some row" "d_status row = Ds_queued" by blast
  have "world_ok w'" using evolvesD [OF enqueue_keeps_world_ok assms(2)] assms(1) by (simp add: keeps_def)
  then have "store_ok (w_work w')" by (simp add: world_ok_def)
  from in_flight_silent [OF this _ _ assms(3)] row assms(4) both out assms(5)
  show ?thesis by (auto simp: queuing_outcome_def)
qed

lemma sample_world_ok: "world_ok sample_world"
  using sample_store_ok by (simp add: world_ok_def below_sequences_def sample_eval)

lemma queued_file_not_resent_example:
  "\<exists>w' w'' r'. enqueue_if_needed sample_queue_env 1 ''d'' Ms_sharepoint sample_candidate sample_world = (Inr (), w')
     \<and> enqueue_if_needed sample_queue_env 1 ''d'' Ms_sharepoint (sample_candidate\<lparr>ca_content_hash := ''h2''\<rparr>) w' = (r', w'')
     \<and> w_trace w' \<noteq> w_trace sample_world \<and> w_trace w'' = w_trace w'"
proof -
  obtain w' where run: "enqueue_if_needed sample_queue_env 1 ''d'' Ms_sharepoint sample_candidate sample_world = (Inr (), w')"
    using sample_enqueue by blast
  have ne: "w_trace w' \<noteq> w_trace sample_world"
    using run by (auto simp: enqueue_eval sample_eval)
  obtain r' w'' where again:
    "enqueue_if_needed sample_queue_env 1 ''d'' Ms_sharepoint (sample_candidate\<lparr>ca_content_hash := ''h2''\<rparr>) w' = (r', w'')"
    by fastforce
  have "ca_drive_item_id (sample_candidate\<lparr>ca_content_hash := ''h2''\<rparr>) = ca_drive_item_id sample_candidate" by simp
  from queued_file_not_resent [OF sample_world_ok run again this ne] run again ne show ?thesis by blast
qed

end
