(* ===== verification/Utf8.thy ===== *)
theory Utf8
  imports PyText
begin

text \<open>
  The two text codecs of the program: strict UTF-8 (as \<^verbatim>\<open>bytes.decode("utf-8")\<close>, which rejects
  overlong forms, surrogates and values above U+10FFFF), with and without a byte-order mark, and
  Latin-1. The encoder is the reference the decoder is proved against.
\<close>

section \<open>Encoding\<close>

definition scalar :: "nat \<Rightarrow> bool" where
  "scalar c \<longleftrightarrow> c < 55296 \<or> (57344 \<le> c \<and> c < 1114112)"

definition encode_cp :: "nat \<Rightarrow> nat list" where
  "encode_cp c =
     (if c < 128 then [c]
      else if c < 2048 then [192 + c div 64, 128 + c mod 64]
      else if c < 65536 then [224 + c div 4096, 128 + c div 64 mod 64, 128 + c mod 64]
      else [240 + c div 262144, 128 + c div 4096 mod 64, 128 + c div 64 mod 64, 128 + c mod 64])"

definition utf8_encode :: "utext \<Rightarrow> bytes" where
  "utf8_encode cps = map of_nat (concat (map encode_cp cps))"

section \<open>Decoding\<close>

definition cont :: "nat \<Rightarrow> bool" where
  "cont b \<longleftrightarrow> 128 \<le> b \<and> b < 192"

fun decode_cp :: "nat list \<Rightarrow> (nat \<times> nat list) option" where
  "decode_cp [] = None"
| "decode_cp (a # r) =
     (if a < 128 then Some (a, r)
      else if 194 \<le> a \<and> a < 224 then
        (case r of b # r' \<Rightarrow> if cont b then Some ((a - 192) * 64 + (b - 128), r') else None | _ \<Rightarrow> None)
      else if 224 \<le> a \<and> a < 240 then
        (case r of b # c # r' \<Rightarrow>
             if cont b \<and> cont c \<and> (a = 224 \<longrightarrow> 160 \<le> b) \<and> (a = 237 \<longrightarrow> b < 160)
             then Some ((a - 224) * 4096 + (b - 128) * 64 + (c - 128), r') else None
         | _ \<Rightarrow> None)
      else if 240 \<le> a \<and> a < 245 then
        (case r of b # c # d # r' \<Rightarrow>
             if cont b \<and> cont c \<and> cont d \<and> (a = 240 \<longrightarrow> 144 \<le> b) \<and> (a = 244 \<longrightarrow> b < 144)
             then Some ((a - 240) * 262144 + (b - 128) * 4096 + (c - 128) * 64 + (d - 128), r') else None
         | _ \<Rightarrow> None)
      else None)"

lemma decode_cp_shorter: "decode_cp bs = Some (c, r) \<Longrightarrow> length r < length bs"
  by (cases bs) (auto split: if_splits list.splits)

function decode_nats :: "nat list \<Rightarrow> utext option" where
  "decode_nats bs =
     (if bs = [] then Some []
      else case decode_cp bs of
        None \<Rightarrow> None
      | Some (c, r) \<Rightarrow> map_option (\<lambda>cs. c # cs) (decode_nats r))"
  by pat_completeness auto
termination
  by (relation "measure length") (auto dest: decode_cp_shorter)

declare decode_nats.simps [simp del]

definition utf8_decode :: "bytes \<Rightarrow> utext option" where
  "utf8_decode bs = decode_nats (map unat bs)"

text \<open>\<^verbatim>\<open>utf-8-sig\<close>: one leading byte-order mark is dropped. \<^verbatim>\<open>latin-1\<close>: every byte is its code point.\<close>

definition bom :: bytes where
  "bom = [239, 187, 191]"

definition utf8_sig_decode :: "bytes \<Rightarrow> utext option" where
  "utf8_sig_decode bs = utf8_decode (if take 3 bs = bom then drop 3 bs else bs)"

definition latin1_decode :: "bytes \<Rightarrow> utext" where
  "latin1_decode bs = map unat bs"

section \<open>Decoding inverts encoding\<close>

lemma encode_cp_bytes: "scalar c \<Longrightarrow> b \<in> set (encode_cp c) \<Longrightarrow> b < 256"
  by (auto simp: encode_cp_def scalar_def split: if_splits)

lemma div_bounds:
  fixes c :: nat
  shows "c < 2048 \<Longrightarrow> 128 \<le> c \<Longrightarrow> 2 \<le> c div 64 \<and> c div 64 < 32"
    and "c < 65536 \<Longrightarrow> c div 4096 < 16" and "c < 1114112 \<Longrightarrow> c div 262144 < 5"
  by auto

lemma digits3:
  fixes c :: nat
  shows "c div 4096 * 4096 + c div 64 mod 64 * 64 + c mod 64 = c"
proof -
  have "c div 64 div 64 = c div 4096" by (simp add: div_mult2_eq [symmetric])
  then have "c div 64 = c div 4096 * 64 + c div 64 mod 64" by (metis div_mult_mod_eq)
  moreover have "c = c div 64 * 64 + c mod 64" by simp
  ultimately show ?thesis by linarith
qed

lemma digits4:
  fixes c :: nat
  shows "c div 262144 * 262144 + c div 4096 mod 64 * 4096 + c div 64 mod 64 * 64 + c mod 64 = c"
proof -
  have "c div 4096 div 64 = c div 262144" by (simp add: div_mult2_eq [symmetric])
  then have "c div 4096 = c div 262144 * 64 + c div 4096 mod 64" by (metis div_mult_mod_eq)
  with digits3 [of c] show ?thesis by linarith
qed

lemma decode_encode_cp:
  assumes "scalar c"
  shows "decode_cp (encode_cp c @ r) = Some (c, r)"
proof -
  consider (one) "c < 128" | (two) "128 \<le> c" "c < 2048" | (three) "2048 \<le> c" "c < 65536"
    | (four) "65536 \<le> c" "c < 1114112"
    using assms by (auto simp: scalar_def) linarith+
  then show ?thesis
  proof cases
    case one
    then show ?thesis by (simp add: encode_cp_def)
  next
    case two
    then show ?thesis using div_bounds(1) [of c] by (simp add: encode_cp_def cont_def)
  next
    case three
    have "c div 4096 = 0 \<Longrightarrow> 32 \<le> c div 64 mod 64"
    proof -
      assume "c div 4096 = 0"
      then have "c div 64 mod 64 * 64 + c mod 64 = c" using digits3 [of c] by simp
      then show ?thesis using three(1) by linarith
    qed
    moreover have "c div 4096 = 13 \<Longrightarrow> c div 64 mod 64 < 32"
    proof -
      assume "c div 4096 = 13"
      then have "53248 + c div 64 mod 64 * 64 + c mod 64 = c" and "c < 57344" using digits3 [of c] by auto
      moreover have "c < 55296" using assms \<open>c < 57344\<close> by (auto simp: scalar_def)
      ultimately show ?thesis by linarith
    qed
    ultimately show ?thesis using three div_bounds(2) [of c] digits3 [of c]
      by (simp add: encode_cp_def cont_def)
  next
    case four
    have "c div 262144 = 0 \<Longrightarrow> 16 \<le> c div 4096 mod 64"
    proof -
      assume "c div 262144 = 0"
      then have "c div 4096 mod 64 * 4096 + c div 64 mod 64 * 64 + c mod 64 = c" using digits4 [of c] by simp
      moreover have "c div 64 mod 64 < 64" "c mod 64 < 64" by simp_all
      ultimately show ?thesis using four(1) by linarith
    qed
    moreover have "c div 262144 = 4 \<Longrightarrow> c div 4096 mod 64 < 16"
    proof -
      assume "c div 262144 = 4"
      then have "1048576 + c div 4096 mod 64 * 4096 + c div 64 mod 64 * 64 + c mod 64 = c"
        using digits4 [of c] by simp
      then show ?thesis using four(2) by linarith
    qed
    ultimately show ?thesis using four div_bounds(3) [of c] digits4 [of c]
      by (simp add: encode_cp_def cont_def)
  qed
qed

lemma encode_cp_nonempty [simp]: "encode_cp c \<noteq> []"
  by (simp add: encode_cp_def)

lemma decode_encode_nats: "\<forall>c \<in> set cps. scalar c \<Longrightarrow> decode_nats (concat (map encode_cp cps)) = Some cps"
proof (induction cps)
  case Nil
  then show ?case by (simp add: decode_nats.simps)
next
  case (Cons c cps)
  then show ?case using decode_encode_cp [of c "concat (map encode_cp cps)"]
    by (subst decode_nats.simps) simp
qed

lemma unat_of_bytes: "\<forall>b \<in> set bs. b < 256 \<Longrightarrow> map (unat \<circ> (of_nat :: nat \<Rightarrow> 8 word)) bs = bs"
  by (induction bs) (simp_all add: unat_of_nat)

lemma map_unat_encode:
  assumes "\<forall>c \<in> set cps. scalar c"
  shows "map unat (utf8_encode cps) = concat (map encode_cp cps)"
proof -
  have "\<forall>b \<in> set (concat (map encode_cp cps)). b < 256" using assms encode_cp_bytes by auto
  then show ?thesis unfolding utf8_encode_def by (simp only: map_map unat_of_bytes)
qed

lemma utf8_decode_encode:
  assumes "\<forall>c \<in> set cps. scalar c"
  shows "utf8_decode (utf8_encode cps) = Some cps"
proof -
  have "map unat (utf8_encode cps) = concat (map encode_cp cps)" by (rule map_unat_encode [OF assms])
  then show ?thesis using decode_encode_nats [OF assms] by (simp add: utf8_decode_def)
qed

lemma utf8_encode_bom: "utf8_encode (65279 # cps) = bom @ utf8_encode cps"
  by (simp add: utf8_encode_def encode_cp_def bom_def)

lemma utf8_encode_starts_bom:
  assumes "\<forall>c \<in> set cps. scalar c" and "take 3 (utf8_encode cps) = bom"
  shows "\<exists>r. cps = 65279 # r"
proof -
  let ?rest = "map unat (drop 3 (utf8_encode cps))"
  have "utf8_encode cps = bom @ drop 3 (utf8_encode cps)" by (metis assms(2) append_take_drop_id)
  then have "map unat (utf8_encode cps) = map unat (bom @ drop 3 (utf8_encode cps))" by (rule arg_cong)
  then have "concat (map encode_cp cps) = 239 # 187 # 191 # ?rest"
    by (simp add: map_unat_encode [OF assms(1)] bom_def)
  then have "decode_nats (239 # 187 # 191 # ?rest) = Some cps"
    using decode_encode_nats [OF assms(1)] by simp
  moreover have "decode_nats (239 # 187 # 191 # ?rest) = map_option (\<lambda>cs. 65279 # cs) (decode_nats ?rest)"
    by (subst decode_nats.simps) (simp add: cont_def)
  ultimately show ?thesis by auto
qed

lemma utf8_sig_decode_encode:
  assumes "\<forall>c \<in> set cps. scalar c"
  shows "utf8_sig_decode (bom @ utf8_encode cps) = Some cps"
    and "take 1 cps \<noteq> [65279] \<Longrightarrow> utf8_sig_decode (utf8_encode cps) = Some cps"
proof -
  have "take 3 (bom @ utf8_encode cps) = bom" "drop 3 (bom @ utf8_encode cps) = utf8_encode cps"
    by (simp_all add: bom_def)
  then show "utf8_sig_decode (bom @ utf8_encode cps) = Some cps"
    by (simp add: utf8_sig_decode_def utf8_decode_encode [OF assms])
  assume "take 1 cps \<noteq> [65279]"
  then have "take 3 (utf8_encode cps) \<noteq> bom" using utf8_encode_starts_bom [OF assms] by auto
  then show "utf8_sig_decode (utf8_encode cps) = Some cps"
    by (simp add: utf8_sig_decode_def utf8_decode_encode [OF assms])
qed

end
