(* ===== verification/GraphClient.thy ===== *)
theory GraphClient
  imports Enqueuer Utf8
begin

text \<open>
  The Microsoft Graph client, \<^verbatim>\<open>src/graph_client.py\<close>: the pure readers of a driveItem, the delta
  generator, the URLs, the download. A driveItem and a response body are JSON values. The token
  credential, the HTTP client and \<^verbatim>\<open>repr\<close> of a float are parameters of the environment.
\<close>

section \<open>Reading JSON values\<close>

fun json_truthy :: "json \<Rightarrow> bool" where
  "json_truthy JNull = False"
| "json_truthy (JBool b) = b"
| "json_truthy (JInt i) = (i \<noteq> 0)"
| "json_truthy (JFloat x) = (x \<noteq> Fin 0 \<and> x \<noteq> NegZero)"
| "json_truthy (JStr s) = (s \<noteq> [])"
| "json_truthy (JArr xs) = (xs \<noteq> [])"
| "json_truthy (JObj d) = (d \<noteq> [])"

fun json_repr :: "(pyfloat \<Rightarrow> string) \<Rightarrow> json \<Rightarrow> string" where
  "json_repr fr JNull = ''None''"
| "json_repr fr (JBool b) = (if b then ''True'' else ''False'')"
| "json_repr fr (JInt i) = show_int i"
| "json_repr fr (JFloat x) = fr x"
| "json_repr fr (JStr s) = py_repr s"
| "json_repr fr (JArr xs) = ''['' @ join_with '', '' (map (json_repr fr) xs) @ '']''"
| "json_repr fr (JObj d) = ''{'' @ join_with '', '' (map (\<lambda>(k, v). py_repr k @ '': '' @ json_repr fr v) d) @ ''}''"

fun json_str :: "(pyfloat \<Rightarrow> string) \<Rightarrow> json \<Rightarrow> string" where
  "json_str fr (JStr s) = s"
| "json_str fr v = json_repr fr v"

text \<open>\<^verbatim>\<open>v.get(k, default)\<close>: only an object has the method; a missing key without a default is \<^verbatim>\<open>None\<close>.\<close>

fun json_get_default :: "json \<Rightarrow> string \<Rightarrow> json \<Rightarrow> exn + json" where
  "json_get_default (JObj d) k dflt = Inr (case map_of d k of None \<Rightarrow> dflt | Some v \<Rightarrow> v)"
| "json_get_default v k dflt = Inl (AttributeError ''object has no attribute 'get' '')"

definition json_get :: "json \<Rightarrow> string \<Rightarrow> exn + json" where
  "json_get v k = json_get_default v k JNull"

text \<open>Iterating a value: a list's elements, an object's keys, a string's characters.\<close>

fun json_iter :: "json \<Rightarrow> exn + json list" where
  "json_iter (JArr xs) = Inr xs"
| "json_iter (JObj d) = Inr (map (\<lambda>p. JStr (fst p)) d)"
| "json_iter (JStr s) = Inr (map (\<lambda>c. JStr [c]) s)"
| "json_iter v = Inl (OtherError ''object is not iterable'')"

section \<open>Readers of a driveItem\<close>

definition HASH_FIELDS :: "string list" where
  "HASH_FIELDS = [''quickXorHash'', ''sha256Hash'', ''crc32Hash'']"

definition folder_path :: "json \<Rightarrow> exn + string option" where
  "folder_path item =
     bind_result (json_get_default item ''parentReference'' (JObj [])) (\<lambda>p.
     bind_result (json_get p ''path'') (\<lambda>path.
     Inr (case path of JStr s \<Rightarrow> Some s | _ \<Rightarrow> None)))"

fun first_hash :: "(pyfloat \<Rightarrow> string) \<Rightarrow> (string \<times> json) list \<Rightarrow> string list \<Rightarrow> string option" where
  "first_hash fr hashes [] = None"
| "first_hash fr hashes (f # fs) =
     (case map_of hashes f of
        Some v \<Rightarrow> if json_truthy v then Some (json_str fr v) else first_hash fr hashes fs
      | None \<Rightarrow> first_hash fr hashes fs)"

definition content_hash :: "(pyfloat \<Rightarrow> string) \<Rightarrow> json \<Rightarrow> exn + string option" where
  "content_hash fr item =
     bind_result (json_get item ''file'') (\<lambda>file_facet.
     case file_facet of
       JObj facet \<Rightarrow>
         (case (case map_of facet ''hashes'' of None \<Rightarrow> JObj [] | Some v \<Rightarrow> v) of
            JObj hashes \<Rightarrow> Inr (first_hash fr hashes HASH_FIELDS)
          | _ \<Rightarrow> Inr None)
     | _ \<Rightarrow> Inr None)"

section \<open>URLs\<close>

definition url_safe :: "nat \<Rightarrow> bool" where
  "url_safe n \<longleftrightarrow> (48 \<le> n \<and> n \<le> 57) \<or> (65 \<le> n \<and> n \<le> 90) \<or> (97 \<le> n \<and> n \<le> 122)
     \<or> n = 95 \<or> n = 46 \<or> n = 45 \<or> n = 126 \<or> n = 47"

definition upper_hex :: "nat \<Rightarrow> char" where
  "upper_hex n = (if n < 10 then char_of (48 + n) else char_of (55 + n))"

text \<open>\<^verbatim>\<open>urllib.parse.quote(s, safe="/")\<close>: over the UTF-8 bytes.\<close>

definition quote_byte :: "8 word \<Rightarrow> string" where
  "quote_byte b = (let n = unat b in if url_safe n then [char_of n]
     else [CHR ''%'', upper_hex (n div 16), upper_hex (n mod 16)])"

definition quote :: "string \<Rightarrow> string" where
  "quote s = concat (map quote_byte (utf8_encode (map of_char s)))"

record graph_client =
  gc_scope :: string
  gc_base_url :: string

definition graph_client_init :: "string \<Rightarrow> string \<Rightarrow> graph_client" where
  "graph_client_init sc url = \<lparr>gc_scope = sc, gc_base_url = rstrip_char CHR ''/'' url\<rparr>"

definition initial_delta_url :: "graph_client \<Rightarrow> string \<Rightarrow> string option \<Rightarrow> string" where
  "initial_delta_url g drive_id root_path =
     (let url = gc_base_url g @ ''/drives/'' @ drive_id;
          relative = strip_char CHR ''/'' (case root_path of None \<Rightarrow> [] | Some p \<Rightarrow> p) in
      if relative = [] then url @ ''/root/delta'' else url @ ''/root:/'' @ quote relative @ '':/delta'')"

section \<open>Requests\<close>

record http_response =
  hr_status :: "exn option"
  hr_content :: bytes
  hr_json :: "exn + json"

record graph_env = queue_env +
  g_token :: "nat \<Rightarrow> string \<Rightarrow> exn + string"
  g_get :: "nat \<Rightarrow> string \<Rightarrow> (string \<times> string) list \<Rightarrow> bool \<Rightarrow> exn + http_response"
  float_repr :: "pyfloat \<Rightarrow> string"

fun is_http_error :: "exn \<Rightarrow> bool" where
  "is_http_error (HTTPError _) = True"
| "is_http_error _ = False"

fun is_client_authentication_error :: "exn \<Rightarrow> bool" where
  "is_client_authentication_error (ClientAuthenticationError _) = True"
| "is_client_authentication_error _ = False"

fun is_value_error :: "exn \<Rightarrow> bool" where
  "is_value_error (ValueError _) = True"
| "is_value_error (ValidationError _) = True"
| "is_value_error _ = False"

definition auth_header :: "'z graph_env_scheme \<Rightarrow> graph_client \<Rightarrow> (string \<times> string) list job" where
  "auth_header E g = bind_op next_tick (\<lambda>t. case g_token E t (gc_scope g) of
     Inl e \<Rightarrow> throw (if is_client_authentication_error e
        then GraphError (''Graph token acquisition failed: '' @ exn_str e) else e)
   | Inr token \<Rightarrow> ret [(''Authorization'', ''Bearer '' @ token)])"

text \<open>\<^verbatim>\<open>http.get(url)\<close> then \<^verbatim>\<open>raise_for_status()\<close>, under the handler for \<^verbatim>\<open>httpx.HTTPError\<close>.\<close>

definition http_get :: "'z graph_env_scheme \<Rightarrow> graph_client \<Rightarrow> string \<Rightarrow> bool \<Rightarrow> string \<Rightarrow> http_response job" where
  "http_get E g url follow msg =
     catch_op
       (bind_op (auth_header E g) (\<lambda>headers. bind_op next_tick (\<lambda>t.
        case g_get E t url headers follow of
          Inl e \<Rightarrow> throw e
        | Inr resp \<Rightarrow> (case hr_status resp of Some e \<Rightarrow> throw e | None \<Rightarrow> ret resp))))
       (\<lambda>e. throw (if is_http_error e then GraphError (msg @ url @ '': '' @ exn_str e) else e))"

definition get_json :: "'z graph_env_scheme \<Rightarrow> graph_client \<Rightarrow> string \<Rightarrow> json job" where
  "get_json E g url = bind_op (http_get E g url False ''Graph request failed: GET '') (\<lambda>resp.
     case hr_json resp of
       Inl e \<Rightarrow> throw (if is_value_error e
          then GraphError (''Graph response was not valid JSON: GET '' @ url @ '': '' @ exn_str e) else e)
     | Inr body \<Rightarrow> ret body)"

definition graph_download :: "'z graph_env_scheme \<Rightarrow> graph_client \<Rightarrow> string \<Rightarrow> string \<Rightarrow> bytes job" where
  "graph_download E g drive_id drive_item_id =
     (let url = gc_base_url g @ ''/drives/'' @ drive_id @ ''/items/'' @ drive_item_id @ ''/content'' in
      bind_op (http_get E g url True ''Graph download failed: GET '') (\<lambda>resp. ret (hr_content resp)))"

definition graph_fetch_content_hash :: "'z graph_env_scheme \<Rightarrow> graph_client \<Rightarrow> string \<Rightarrow> string \<Rightarrow> string option job" where
  "graph_fetch_content_hash E g drive_id drive_item_id =
     (let url = gc_base_url g @ ''/drives/'' @ drive_id @ ''/items/'' @ drive_item_id @ ''?$select=file'' in
      bind_op (get_json E g url) (\<lambda>body. lift_op (content_hash (float_repr E) body)))"

section \<open>The delta generator\<close>

text \<open>
  The suspended generator: about to fetch a page, or at its end with the terminal payload. Resuming
  it yields a page and the next state, or returns the delta link, or raises. A link that is not a
  string is refused when it is fetched, once the header is built.
\<close>

record delta_page =
  dp_items :: json
  dp_next_link :: json

datatype delta_gen = Fetching json | Finishing json

definition delta_pages :: "graph_client \<Rightarrow> string \<Rightarrow> string option \<Rightarrow> string option \<Rightarrow> delta_gen" where
  "delta_pages g drive_id start_url root_path =
     Fetching (JStr (case start_url of
        Some u \<Rightarrow> if u \<noteq> [] then u else initial_delta_url g drive_id root_path
      | None \<Rightarrow> initial_delta_url g drive_id root_path))"

fun as_url :: "json \<Rightarrow> exn + string" where
  "as_url (JStr u) = Inr u"
| "as_url _ = Inl (OtherError ''Invalid type for url'')"

definition no_delta_link_message :: "string \<Rightarrow> string" where
  "no_delta_link_message drive_id = ''Delta walk of drive '' @ py_repr drive_id @ '' ended without an @odata.deltaLink token.''"

definition next_page ::
  "'z graph_env_scheme \<Rightarrow> graph_client \<Rightarrow> string \<Rightarrow> delta_gen \<Rightarrow> ((delta_page \<times> delta_gen) + string) job" where
  "next_page E g drive_id gen =
     (case gen of
        Fetching link \<Rightarrow>
          bind_op (case as_url link of Inr url \<Rightarrow> get_json E g url | Inl e \<Rightarrow> then_op (auth_header E g) (throw e)) (\<lambda>payload.
          bind_op (lift_op (json_get payload ''value'')) (\<lambda>v.
          bind_op (lift_op (json_get payload ''@odata.nextLink'')) (\<lambda>next_link.
          ret (Inl (\<lparr>dp_items = (if json_truthy v then v else JArr []), dp_next_link = next_link\<rparr>,
            if next_link = JNull then Finishing payload else Fetching next_link)))))
      | Finishing payload \<Rightarrow>
          bind_op (lift_op (json_get payload ''@odata.deltaLink'')) (\<lambda>delta_link.
          if delta_link = JNull then throw (GraphError (no_delta_link_message drive_id))
          else ret (Inr (json_str (float_repr E) delta_link))))"

text \<open>
  The flat view: the items of all pages, in order, and the delta link, with fuel for the pages; \<open>None\<close>
  when the fuel runs out. The items yielded before an exception are not part of the result.
\<close>

fun iter_delta_from ::
  "'z graph_env_scheme \<Rightarrow> graph_client \<Rightarrow> string \<Rightarrow> nat \<Rightarrow> delta_gen \<Rightarrow> (json list \<times> string) option job" where
  "iter_delta_from E g drive_id 0 gen = ret None"
| "iter_delta_from E g drive_id (Suc n) gen =
     bind_op (next_page E g drive_id gen) (\<lambda>r. case r of
       Inr link \<Rightarrow> ret (Some ([], link))
     | Inl (page, gen') \<Rightarrow>
         bind_op (lift_op (json_iter (dp_items page))) (\<lambda>items.
         bind_op (iter_delta_from E g drive_id n gen') (\<lambda>rest.
         ret (map_option (\<lambda>(more, link). (items @ more, link)) rest))))"

definition iter_delta ::
  "'z graph_env_scheme \<Rightarrow> graph_client \<Rightarrow> string \<Rightarrow> string option \<Rightarrow> string option \<Rightarrow> nat \<Rightarrow> (json list \<times> string) option job" where
  "iter_delta E g drive_id start_url root_path fuel =
     iter_delta_from E g drive_id fuel (delta_pages g drive_id start_url root_path)"

section \<open>Construction\<close>

datatype credential = DefaultAzureCredential | ClientSecretCredential string string string

definition build_credential :: "sdk \<Rightarrow> graph_settings \<Rightarrow> exn + credential" where
  "build_credential K s =
     (if gr_use_managed_identity s then bind_result (sdk_default_credential K) (\<lambda>_. Inr DefaultAzureCredential)
      else case (gr_tenant_id s, gr_client_id s, gr_client_secret s) of
        (Some t, Some c, Some x) \<Rightarrow>
          bind_result (sdk_client_secret_credential K t c x) (\<lambda>_. Inr (ClientSecretCredential t c x))
      | _ \<Rightarrow> Inl (ValueError ''Graph app-only auth requires tenant_id, client_id and client_secret.''))"

definition create_graph_client :: "sdk \<Rightarrow> settings \<Rightarrow> exn + (credential \<times> graph_client)" where
  "create_graph_client K s =
     (case st_graph s of
        None \<Rightarrow> Inl (ValueError ''Graph is not configured; set the CLASSIFIER__GRAPH_* settings.'')
      | Some graph \<Rightarrow> bind_result (build_credential K graph) (\<lambda>c.
          bind_result (sdk_http_client K) (\<lambda>_.
          Inr (c, graph_client_init (gr_token_scope graph) (gr_base_url graph)))))"

text \<open>A configured section builds its client when the constructors accept the values.\<close>

definition graph_constructor :: "sdk \<Rightarrow> graph_settings \<Rightarrow> exn + unit" where
  "graph_constructor K g =
     (case (if gr_use_managed_identity g then sdk_default_credential K
            else sdk_client_secret_credential K (the (gr_tenant_id g)) (the (gr_client_id g)) (the (gr_client_secret g))) of
        Inl e \<Rightarrow> Inl e
      | Inr _ \<Rightarrow> sdk_http_client K)"

lemma configured_graph_builds:
  assumes "graph_is_configured g" and "st_graph s = Some g"
  shows "case graph_constructor K g of Inl e \<Rightarrow> create_graph_client K s = Inl e
    | Inr _ \<Rightarrow> \<exists>c. create_graph_client K s = Inr (c, graph_client_init (gr_token_scope g) (gr_base_url g))"
  using assms
  by (auto simp: create_graph_client_def build_credential_def graph_constructor_def graph_is_configured_def bind_result_def truthy_def
      split: option.splits sum.splits)

section \<open>Percent-encoding\<close>

definition hex_val :: "char \<Rightarrow> nat" where
  "hex_val c = (let n = of_char c in if n < 65 then n - 48 else n - 55)"

fun unquote :: "string \<Rightarrow> nat list" where
  "unquote [] = []"
| "unquote (c # s) = (if c = CHR ''%'' then
     (case s of h # l # r \<Rightarrow> (16 * hex_val h + hex_val l) # unquote r | _ \<Rightarrow> [])
     else of_char c # unquote s)"

lemma hex_val_upper_hex: "n < 16 \<Longrightarrow> hex_val (upper_hex n) = n"
  by (simp add: hex_val_def upper_hex_def Let_def)

lemma percent_not_safe: "\<not> url_safe (of_char CHR ''%'')"
  by (simp add: url_safe_def)

lemma unquote_quote_byte: "unquote (quote_byte b @ r) = unat b # unquote r"
proof (cases "url_safe (unat b)")
  case True
  have b: "unat b < 256" using unsigned_less [of b, where ?'a = nat] by simp
  have "(char_of (unat b) :: char) \<noteq> CHR ''%''"
  proof
    assume "(char_of (unat b) :: char) = CHR ''%''"
    then have "unat b = of_char CHR ''%''" using b by (metis of_char_of mod_less)
    with True percent_not_safe show False by simp
  qed
  with True b show ?thesis by (simp add: quote_byte_def Let_def)
next
  case False
  have b: "unat b < 256" using unsigned_less [of b, where ?'a = nat] by simp
  then have "unat b div 16 < 16" by simp
  moreover have "16 * (unat b div 16) + unat b mod 16 = unat b" by simp
  ultimately show ?thesis using False by (simp add: quote_byte_def Let_def hex_val_upper_hex)
qed

lemma unquote_bytes: "unquote (concat (map quote_byte bs)) = map unat bs"
  by (induction bs) (simp_all add: unquote_quote_byte)

lemma latin_scalars: "\<forall>c \<in> set (map of_char (s :: string)). scalar c"
proof -
  have "scalar (of_char c)" for c :: char
    unfolding scalar_def using nat_of_char_less_256 [of c] by linarith
  then show ?thesis by simp
qed

lemma unquote_quote: "utf8_decode (map of_nat (unquote (quote s))) = Some (map of_char s)"
  using utf8_decode_encode [OF latin_scalars [of s]] by (simp add: quote_def unquote_bytes comp_def)

lemma upper_hex_safe: "n < 16 \<Longrightarrow> url_safe (of_char (upper_hex n))"
  by (auto simp: upper_hex_def url_safe_def)

lemma quote_byte_safe: "c \<in> set (quote_byte b) \<Longrightarrow> url_safe (of_char c) \<or> c = CHR ''%''"
proof -
  assume c: "c \<in> set (quote_byte b)"
  have b: "unat b < 256" using unsigned_less [of b, where ?'a = nat] by simp
  then have "unat b div 16 < 16" "unat b mod 16 < 16" by simp_all
  with c b show ?thesis
    by (auto simp: quote_byte_def Let_def upper_hex_safe split: if_splits)
qed

lemma quote_safe: "c \<in> set (quote s) \<Longrightarrow> url_safe (of_char c) \<or> c = CHR ''%''"
  by (auto simp: quote_def dest: quote_byte_safe)

section \<open>Walking a chain of pages\<close>

text \<open>
  A service that answers: the credential gives a token, and \<open>serves\<close> says that a URL has a JSON
  payload at any time; \<open>delta_chain\<close> is a sequence of pages linked by their next links, ending with
  a delta link.
\<close>

definition token_ok :: "'z graph_env_scheme \<Rightarrow> graph_client \<Rightarrow> bool" where
  "token_ok E g \<longleftrightarrow> (\<forall>t. \<exists>tok. g_token E t (gc_scope g) = Inr tok)"

definition serves :: "'z graph_env_scheme \<Rightarrow> string \<Rightarrow> json \<Rightarrow> bool" where
  "serves E url payload \<longleftrightarrow> (\<forall>t h. \<exists>resp. g_get E t url h False = Inr resp \<and> hr_status resp = None \<and> hr_json resp = Inr payload)"

fun delta_chain :: "'z graph_env_scheme \<Rightarrow> string \<Rightarrow> json list list \<Rightarrow> string \<Rightarrow> bool" where
  "delta_chain E url [] link = False"
| "delta_chain E url [items] link = (\<exists>d. serves E url (JObj d) \<and> map_of d ''value'' = Some (JArr items)
     \<and> map_of d ''@odata.nextLink'' = None \<and> map_of d ''@odata.deltaLink'' = Some (JStr link))"
| "delta_chain E url (items # others) link = (\<exists>d u. serves E url (JObj d) \<and> map_of d ''value'' = Some (JArr items)
     \<and> map_of d ''@odata.nextLink'' = Some (JStr u) \<and> delta_chain E u others link)"

lemma get_json_served:
  assumes "token_ok E g" and "serves E url payload"
  shows "\<exists>w'. get_json E g url w = (Inr payload, w') \<and> only_reads w w'"
proof -
  have "\<exists>tok. g_token E t (gc_scope g) = Inr tok" for t using assms(1) by (simp add: token_ok_def)
  moreover have "\<exists>resp. g_get E t url h False = Inr resp \<and> hr_status resp = None \<and> hr_json resp = Inr payload" for t h
    using assms(2) by (simp add: serves_def)
  ultimately obtain tok resp where "g_token E (w_tick w) (gc_scope g) = Inr tok"
    "g_get E (Suc (w_tick w)) url [(''Authorization'', ''Bearer '' @ tok)] False = Inr resp"
    "hr_status resp = None" "hr_json resp = Inr payload" by metis
  then show ?thesis
    by (simp add: get_json_def http_get_def auth_header_def next_tick_def op_simps only_reads_def same_stores_def)
qed

lemma next_page_served:
  assumes "token_ok E g" and "serves E url (JObj d)" and "map_of d ''value'' = Some (JArr items)"
  shows "\<exists>w'. next_page E g drive_id (Fetching (JStr url)) w =
      (Inr (Inl (\<lparr>dp_items = JArr items, dp_next_link = (case map_of d ''@odata.nextLink'' of None \<Rightarrow> JNull | Some v \<Rightarrow> v)\<rparr>,
        if (case map_of d ''@odata.nextLink'' of None \<Rightarrow> JNull | Some v \<Rightarrow> v) = JNull then Finishing (JObj d)
        else Fetching (case map_of d ''@odata.nextLink'' of None \<Rightarrow> JNull | Some v \<Rightarrow> v))), w') \<and> only_reads w w'"
proof -
  obtain w' where "get_json E g url w = (Inr (JObj d), w')" "only_reads w w'"
    using get_json_served [OF assms(1,2)] by blast
  then show ?thesis using assms(3) by (auto simp: next_page_def json_get_def op_simps)
qed

lemma next_page_end:
  "map_of d ''@odata.deltaLink'' = Some (JStr link) \<Longrightarrow>
     next_page E g drive_id (Finishing (JObj d)) w = (Inr (Inr link), w)"
  by (simp add: next_page_def json_get_def op_simps)

lemma iter_delta_chain:
  assumes tok: "token_ok E g" and "delta_chain E url pages link" and "length pages < n"
  shows "\<exists>w'. iter_delta_from E g drive_id n (Fetching (JStr url)) w = (Inr (Some (concat pages, link)), w') \<and> only_reads w w'"
  using assms(2,3)
proof (induction pages arbitrary: url n w)
  case Nil
  then show ?case by simp
next
  case (Cons items others)
  obtain m where n: "n = Suc m" and m: "length others < m" using Cons.prems(2) by (cases n) auto
  show ?case
  proof (cases others)
    case Nil
    then obtain d where d: "serves E url (JObj d)" "map_of d ''value'' = Some (JArr items)"
      "map_of d ''@odata.nextLink'' = None" "map_of d ''@odata.deltaLink'' = Some (JStr link)" using Cons.prems(1) by auto
    obtain k where k: "m = Suc k" using m by (cases m) auto
    from next_page_served [OF tok d(1,2), of drive_id w] d(3) obtain v where
      "next_page E g drive_id (Fetching (JStr url)) w = (Inr (Inl (\<lparr>dp_items = JArr items, dp_next_link = JNull\<rparr>, Finishing (JObj d))), v)"
      "only_reads w v" by auto
    then show ?thesis using n k Nil by (simp add: op_simps next_page_end [OF d(4)])
  next
    case (Cons p ps)
    then obtain d u where d: "serves E url (JObj d)" "map_of d ''value'' = Some (JArr items)"
      "map_of d ''@odata.nextLink'' = Some (JStr u)" "delta_chain E u others link" using Cons.prems(1) by auto
    from next_page_served [OF tok d(1,2), of drive_id w] d(3) obtain v where
      v: "next_page E g drive_id (Fetching (JStr url)) w = (Inr (Inl (\<lparr>dp_items = JArr items, dp_next_link = JStr u\<rparr>, Fetching (JStr u))), v)"
      "only_reads w v" by auto
    from Cons.IH [OF d(4) m, of v] obtain w' where
      "iter_delta_from E g drive_id m (Fetching (JStr u)) v = (Inr (Some (concat others, link)), w')" "only_reads v w'" by blast
    then show ?thesis using n v preorder_trans [OF preorder_only_reads v(2)] by (simp add: op_simps)
  qed
qed

section \<open>Properties\<close>

text \<open>
  Claim C29. A delta walk is complete and ordered: over a service that answers with pages chained by
  their next links, the flat iterator returns the items of every page in order and the delta link of
  the last one, once its fuel exceeds the number of pages, from a saved start URL as from the initial
  one, and changes no state.
\<close>

theorem iter_delta_complete:
  assumes "token_ok E g" and "delta_chain E url pages link" and "length pages < fuel"
    and "start = Some url \<and> url \<noteq> [] \<or> (start = None \<or> start = Some []) \<and> url = initial_delta_url g drive_id root_path"
  shows "\<exists>w'. iter_delta E g drive_id start root_path fuel w = (Inr (Some (concat pages, link)), w') \<and> only_reads w w'"
proof -
  have "delta_pages g drive_id start root_path = Fetching (JStr url)" using assms(4) by (auto simp: delta_pages_def)
  then show ?thesis using iter_delta_chain [OF assms(1-3)] by (simp add: iter_delta_def)
qed

fun is_graph_error :: "exn \<Rightarrow> bool" where
  "is_graph_error (GraphError _) = True"
| "is_graph_error _ = False"

definition graph_ok :: "'z graph_env_scheme \<Rightarrow> bool" where
  "graph_ok E \<longleftrightarrow> (\<forall>t sc e. g_token E t sc = Inl e \<longrightarrow> is_client_authentication_error e)
     \<and> (\<forall>t u h f e. g_get E t u h f = Inl e \<longrightarrow> is_http_error e)
     \<and> (\<forall>t u h f r e. g_get E t u h f = Inr r \<longrightarrow> (hr_status r = Some e \<longrightarrow> is_http_error e) \<and> (hr_json r = Inl e \<longrightarrow> is_value_error e))"

text \<open>Every failure of a request is a \<^verbatim>\<open>GraphError\<close>.\<close>

lemma http_get_cases:
  assumes "graph_ok E" and "http_get E g url f msg w = (r, w')"
  shows "only_reads w w' \<and> (case r of Inl e \<Rightarrow> is_graph_error e | Inr resp \<Rightarrow> \<forall>e. hr_json resp = Inl e \<longrightarrow> is_value_error e)"
proof -
  have tok: "g_token E t sc = Inl e \<Longrightarrow> is_client_authentication_error e" for t sc e
    using assms(1) by (simp add: graph_ok_def)
  have get: "g_get E t u h f = Inl e \<Longrightarrow> is_http_error e" for t u h f e
    using assms(1) unfolding graph_ok_def by blast
  have resp: "g_get E t u h f = Inr r \<Longrightarrow> (hr_status r = Some e \<longrightarrow> is_http_error e) \<and> (hr_json r = Inl e \<longrightarrow> is_value_error e)" for t u h f r e
    using assms(1) unfolding graph_ok_def by blast
  show ?thesis
    using assms(2) tok [of "w_tick w" "gc_scope g"]
    by (auto simp: http_get_def auth_header_def next_tick_def op_simps only_reads_def same_stores_def
        split: sum.splits option.splits if_splits prod.splits dest: get resp)
qed

lemma get_json_failures: "graph_ok E \<Longrightarrow> raises_only is_graph_error (get_json E g url)"
  unfolding raises_only_def get_json_def
  by (fastforce elim!: bind_op_eqE simp: op_simps split: sum.splits if_splits dest: http_get_cases)

lemma download_failures: "graph_ok E \<Longrightarrow> raises_only is_graph_error (graph_download E g d i)"
  unfolding raises_only_def graph_download_def Let_def
  by (fastforce elim!: bind_op_eqE simp: op_simps dest: http_get_cases)

lemma reads_auth_header: "evolves only_reads (auth_header E g)"
  unfolding auth_header_def by (intro evolve_intros preorder_only_reads) (auto split: sum.split intro: evolve_intros)

lemma reads_http [evolve_intros]: "evolves only_reads (http_get E g url f msg)"
proof -
  have "evolves only_reads (case x of Inl e \<Rightarrow> throw e
      | Inr resp \<Rightarrow> (case hr_status resp of Some e \<Rightarrow> throw e | None \<Rightarrow> ret resp))" for x
    by (auto split: sum.split option.split intro: evolve_intros)
  then show ?thesis unfolding http_get_def by (intro evolve_intros preorder_only_reads reads_auth_header)
qed

lemma reads_get_json [evolve_intros]: "evolves only_reads (get_json E g url)"
  unfolding get_json_def
  by (intro evolve_intros preorder_only_reads) (auto split: sum.split intro: evolve_intros)

lemma reads_download [evolve_intros]: "evolves only_reads (graph_download E g d i)"
  unfolding graph_download_def Let_def by (intro evolve_intros preorder_only_reads)

lemma reads_fetch_hash [evolve_intros]: "evolves only_reads (graph_fetch_content_hash E g d i)"
  unfolding graph_fetch_content_hash_def Let_def by (intro evolve_intros preorder_only_reads)

lemma reads_next_page [evolve_intros]: "evolves only_reads (next_page E g drive_id gen)"
  unfolding next_page_def
  by (cases gen) (auto intro!: evolve_intros preorder_only_reads reads_auth_header split: sum.split)

definition sample_graph_env :: graph_env where
  "sample_graph_env = queue_env.extend sample_queue_env \<lparr>g_token = (\<lambda>_ _. Inr ''tok''),
     g_get = (\<lambda>_ u _ _. Inr \<lparr>hr_status = None, hr_content = [], hr_json = Inr (JObj
       (if u = ''p2'' then [(''value'', JArr [JInt 3]), (''@odata.deltaLink'', JStr ''delta'')]
        else [(''value'', JArr [JInt 1, JInt 2]), (''@odata.nextLink'', JStr ''p2'')]))\<rparr>),
     float_repr = (\<lambda>_. ''0.5'')\<rparr>"

theorem iter_delta_complete_witness:
  "\<exists>w'. iter_delta sample_graph_env (graph_client_init ''s'' ''https://graph/'') ''d'' (Some ''p1'') None 3 empty_world
     = (Inr (Some ([JInt 1, JInt 2, JInt 3], ''delta'')), w')"
proof -
  have "token_ok sample_graph_env (graph_client_init ''s'' ''https://graph/'')"
    by (simp add: token_ok_def sample_graph_env_def queue_env.defs)
  moreover have "delta_chain sample_graph_env ''p1'' [[JInt 1, JInt 2], [JInt 3]] ''delta''"
    by (simp add: serves_def sample_graph_env_def queue_env.defs)
  ultimately have "\<exists>w'. iter_delta sample_graph_env (graph_client_init ''s'' ''https://graph/'') ''d'' (Some ''p1'') None 3 empty_world
     = (Inr (Some (concat [[JInt 1, JInt 2], [JInt 3]], ''delta'')), w') \<and> only_reads empty_world w'"
    by (rule iter_delta_complete) simp_all
  then show ?thesis by auto
qed

text \<open>
  Claim C30. The initial delta URL addresses the configured subtree: an absent, empty or all-slash root
  walks the whole drive, and any other root is addressed by \<^verbatim>\<open>/root:/{path}:/delta\<close> where \<^verbatim>\<open>{path}\<close>
  holds only URL-safe characters and percent escapes and decodes, as UTF-8, to the root without the
  slashes at its ends.
\<close>

theorem initial_delta_url_addresses_root:
  "\<exists>relative. relative = strip_char CHR ''/'' (case root_path of None \<Rightarrow> [] | Some p \<Rightarrow> p)
    \<and> (relative = [] \<longleftrightarrow> (\<forall>p. root_path = Some p \<longrightarrow> set p \<subseteq> {CHR ''/''}))
    \<and> (if relative = [] then initial_delta_url g drive_id root_path = gc_base_url g @ ''/drives/'' @ drive_id @ ''/root/delta''
       else \<exists>path. initial_delta_url g drive_id root_path = gc_base_url g @ ''/drives/'' @ drive_id @ ''/root:/'' @ path @ '':/delta''
          \<and> (\<forall>c \<in> set path. url_safe (of_char c) \<or> c = CHR ''%'')
          \<and> utf8_decode (map of_nat (unquote path)) = Some (map of_char relative))"
proof -
  let ?rel = "strip_char CHR ''/'' (case root_path of None \<Rightarrow> [] | Some p \<Rightarrow> p)"
  have e: "?rel = [] \<longleftrightarrow> (\<forall>p. root_path = Some p \<longrightarrow> set p \<subseteq> {CHR ''/''})"
    by (cases root_path) (auto simp: strip_char_def strip_by_Nil_iff)
  have "initial_delta_url g drive_id root_path = gc_base_url g @ ''/drives/'' @ drive_id @ ''/root:/'' @ quote ?rel @ '':/delta''"
    if "?rel \<noteq> []" using that by (simp add: initial_delta_url_def Let_def)
  then have "if ?rel = [] then initial_delta_url g drive_id root_path = gc_base_url g @ ''/drives/'' @ drive_id @ ''/root/delta''
       else \<exists>path. initial_delta_url g drive_id root_path = gc_base_url g @ ''/drives/'' @ drive_id @ ''/root:/'' @ path @ '':/delta''
          \<and> (\<forall>c \<in> set path. url_safe (of_char c) \<or> c = CHR ''%'')
          \<and> utf8_decode (map of_nat (unquote path)) = Some (map of_char ?rel)"
    using quote_safe [of _ ?rel] unquote_quote [of ?rel] by (auto simp: initial_delta_url_def Let_def)
  with e show ?thesis by blast
qed

theorem initial_delta_url_addresses_root_witness:
  "\<exists>path. initial_delta_url \<lparr>gc_scope = [], gc_base_url = ''u''\<rparr> ''d'' (Some ''/My Docs'') = ''u/drives/d/root:/'' @ path @ '':/delta''
     \<and> utf8_decode (map of_nat (unquote path)) = Some (map of_char ''My Docs'')"
  using initial_delta_url_addresses_root [of "Some ''/My Docs''" "\<lparr>gc_scope = [], gc_base_url = ''u''\<rparr>" "''d''"]
  by (auto simp: strip_char_def strip_by_def)

text \<open>
  A driveItem whose \<^verbatim>\<open>parentReference\<close> is present but null has no folder path to read: the reader
  raises instead of returning \<^verbatim>\<open>None\<close>.
\<close>

theorem folder_path_null_parent: "\<exists>m. folder_path (JObj [(''parentReference'', JNull)]) = Inl (AttributeError m)"
  by (simp add: folder_path_def bind_result_def json_get_def)

end
