(* ===== verification/TextExtraction.thy ===== *)
theory TextExtraction
  imports Utf8 PyPath
begin

text \<open>
  Text extraction, \<^verbatim>\<open>src/extraction.py\<close>: the extractors, the suffix and MIME registries and the two
  dispatchers. \<^verbatim>\<open>pypdf\<close> and \<^verbatim>\<open>python-docx\<close> are the parameter record \<open>libs\<close>: what each returns or
  raises on a byte stream. The codecs are those of the theory on UTF-8.
\<close>

section \<open>Extractors\<close>

text \<open>
  An open DOCX document is what reading it gives: \<^verbatim>\<open>document.paragraphs\<close> and the text of each, \<^verbatim>\<open>document.tables\<close>,
  \<^verbatim>\<open>table.rows\<close>, \<^verbatim>\<open>row.cells\<close> and the text of each cell. Every one of these reads may raise: \<^verbatim>\<open>row.cells\<close>
  raises \<^verbatim>\<open>ValueError\<close> on a vertical merge without a cell above it.
\<close>

type_synonym docx_texts = "exn + (exn + utext) list"

record docx_document =
  docx_paragraphs :: docx_texts
  docx_tables :: "exn + (exn + docx_texts list) list"

record libs =
  pdf_pages :: "bytes \<Rightarrow> exn + utext option list"
  docx_parse :: "bytes \<Rightarrow> exn + docx_document"

text \<open>A binary stream is what reading it gives.\<close>

type_synonym stream = "exn + bytes"

datatype extractor = PdfTextExtractor | DocxTextExtractor | PlainTextExtractor

definition nonblank :: "utext list \<Rightarrow> utext list" where
  "nonblank parts = filter (\<lambda>p. p \<noteq> []) (map strip_text parts)"

definition join_nonblank :: "utext list \<Rightarrow> utext" where
  "join_nonblank parts = join_with [10] (nonblank parts)"

fun caught_by_pdf :: "exn \<Rightarrow> bool" where
  "caught_by_pdf (PyPdfError _) = True"
| "caught_by_pdf (OSError _) = True"
| "caught_by_pdf (ValueError _) = True"
| "caught_by_pdf _ = False"

definition pdf_extract :: "libs \<Rightarrow> stream \<Rightarrow> exn + utext" where
  "pdf_extract L stream =
     (case (case stream of Inl e \<Rightarrow> Inl e | Inr data \<Rightarrow> pdf_pages L data) of
        Inl e \<Rightarrow> if caught_by_pdf e then Inl (ExtractionError ''Cannot extract text from PDF document'') else Inl e
      | Inr pages \<Rightarrow> Inr (join_nonblank (map (\<lambda>p. case p of None \<Rightarrow> [] | Some t \<Rightarrow> t) pages)))"

fun caught_by_docx :: "exn \<Rightarrow> bool" where
  "caught_by_docx (PackageNotFoundError _) = True"
| "caught_by_docx (BadZipFile _) = True"
| "caught_by_docx (OSError _) = True"
| "caught_by_docx (ValueError _) = True"
| "caught_by_docx _ = False"

text \<open>The reads outside the \<^verbatim>\<open>try\<close>, in the order the code makes them.\<close>

definition docx_read_texts :: "docx_texts \<Rightarrow> exn + utext list" where
  "docx_read_texts reads = bind_result reads (collect_results id)"

definition docx_lines :: "docx_document \<Rightarrow> exn + utext list" where
  "docx_lines d =
     bind_result (docx_read_texts (docx_paragraphs d)) (\<lambda>paragraphs.
     bind_result (bind_result (docx_tables d) (collect_results (\<lambda>rows. bind_result rows (collect_results docx_read_texts)))) (\<lambda>tables.
     Inr (paragraphs @ concat (map concat tables))))"

definition docx_extract :: "libs \<Rightarrow> stream \<Rightarrow> exn + utext" where
  "docx_extract L stream =
     (case (case stream of Inl e \<Rightarrow> Inl e | Inr data \<Rightarrow> docx_parse L data) of
        Inl e \<Rightarrow> if caught_by_docx e then Inl (ExtractionError ''Cannot extract text from DOCX document'') else Inl e
      | Inr document \<Rightarrow> bind_result (docx_lines document) (\<lambda>ls. Inr (join_nonblank ls)))"

definition plain_extract :: "libs \<Rightarrow> stream \<Rightarrow> exn + utext" where
  "plain_extract L stream =
     (case stream of
        Inl e \<Rightarrow> if is_os_error e then Inl (ExtractionError ''Cannot read plain-text document'') else Inl e
      | Inr data \<Rightarrow> (case utf8_sig_decode data of Some t \<Rightarrow> Inr t | None \<Rightarrow> Inr (latin1_decode data)))"

fun run_extractor :: "extractor \<Rightarrow> libs \<Rightarrow> stream \<Rightarrow> exn + utext" where
  "run_extractor PdfTextExtractor L s = pdf_extract L s"
| "run_extractor DocxTextExtractor L s = docx_extract L s"
| "run_extractor PlainTextExtractor L s = plain_extract L s"

section \<open>Registries\<close>

definition EXTRACTORS :: "(string \<times> extractor) list" where
  "EXTRACTORS =
     [(''.pdf'', PdfTextExtractor), (''.docx'', DocxTextExtractor), (''.txt'', PlainTextExtractor),
      (''.json'', PlainTextExtractor), (''.yml'', PlainTextExtractor), (''.yaml'', PlainTextExtractor),
      (''.md'', PlainTextExtractor), (''.csv'', PlainTextExtractor), (''.xml'', PlainTextExtractor)]"

definition SUFFIX_TO_MIME :: "(string \<times> string) list" where
  "SUFFIX_TO_MIME =
     [(''.pdf'', ''application/pdf''),
      (''.docx'', ''application/vnd.openxmlformats-officedocument.wordprocessingml.document''),
      (''.txt'', ''text/plain''), (''.json'', ''application/json''), (''.yml'', ''application/yaml''),
      (''.yaml'', ''application/yaml''), (''.md'', ''text/markdown''), (''.csv'', ''text/csv''),
      (''.xml'', ''application/xml'')]"

text \<open>A dictionary display keeps the last value of a repeated key.\<close>

definition MIME_TO_SUFFIX :: "(string \<times> string) list" where
  "MIME_TO_SUFFIX = rev (map (\<lambda>(s, m). (m, s)) SUFFIX_TO_MIME
     @ [(''application/x-yaml'', ''.yaml''), (''text/yaml'', ''.yaml''), (''text/xml'', ''.xml'')])"

definition TEXT_MIME_PREFIX :: string where
  "TEXT_MIME_PREFIX = ''text/''"

definition supported_suffixes :: "string set" where
  "supported_suffixes = set (map fst EXTRACTORS)"

definition supported_mime_types :: "string set" where
  "supported_mime_types = set (map fst MIME_TO_SUFFIX)"

definition mime_type_for_suffix :: "string \<Rightarrow> string option" where
  "mime_type_for_suffix suffix = map_of SUFFIX_TO_MIME (lower suffix)"

section \<open>Dispatch\<close>

definition unsupported_suffix_message :: "ppath \<Rightarrow> string" where
  "unsupported_suffix_message path = ''No text extractor for '' @ py_repr (path_suffix path) @ '' file: ''
     @ path_str path @ '' (supported: '' @ join_with '', '' (sorted_list_of_set supported_suffixes) @ '')''"

definition extract_text :: "libs \<Rightarrow> filesys \<Rightarrow> ppath \<Rightarrow> exn + utext" where
  "extract_text L F path =
     (case map_of EXTRACTORS (lower (path_suffix path)) of
        None \<Rightarrow> Inl (UnsupportedFormatError (unsupported_suffix_message path))
      | Some x \<Rightarrow>
          (case (case fs_open F path of Inl e \<Rightarrow> Inl e | Inr s \<Rightarrow> run_extractor x L s) of
             Inl e \<Rightarrow> if is_os_error e
                then Inl (ExtractionError (''Cannot read document file: '' @ path_str path)) else Inl e
           | Inr t \<Rightarrow> Inr t))"

definition normalized_mime :: "string \<Rightarrow> string" where
  "normalized_mime mime_type = lower (strip (before_first CHR '';'' mime_type))"

definition suffix_for_mime :: "string \<Rightarrow> string option" where
  "suffix_for_mime mime_type =
     (let normalized = normalized_mime mime_type in
      case map_of MIME_TO_SUFFIX normalized of
        Some s \<Rightarrow> Some s
      | None \<Rightarrow> if startswith normalized TEXT_MIME_PREFIX then Some ''.txt'' else None)"

definition unsupported_mime_message :: "string \<Rightarrow> string" where
  "unsupported_mime_message mime_type = ''No text extractor for MIME type '' @ py_repr mime_type
     @ '' (supported: '' @ join_with '', '' (sorted_list_of_set supported_mime_types) @ '')''"

text \<open>The lookup \<^verbatim>\<open>_EXTRACTORS[suffix]\<close> raises \<^verbatim>\<open>KeyError\<close> for a suffix without an extractor.\<close>

definition extract_text_from_bytes :: "libs \<Rightarrow> bytes \<Rightarrow> string \<Rightarrow> exn + utext" where
  "extract_text_from_bytes L data mime_type =
     (case suffix_for_mime mime_type of
        None \<Rightarrow> Inl (UnsupportedFormatError (unsupported_mime_message mime_type))
      | Some suffix \<Rightarrow>
          (case map_of EXTRACTORS suffix of
             None \<Rightarrow> Inl (KeyError suffix)
           | Some x \<Rightarrow> run_extractor x L (Inr data)))"

lemma before_first_append: "c \<notin> set xs \<Longrightarrow> before_first c (xs @ c # ys) = xs"
  unfolding before_first_def by (induction xs) auto

section \<open>Joining fragments\<close>

definition visible :: "nat \<Rightarrow> bool" where
  "visible c \<longleftrightarrow> \<not> is_space_cp c"

lemma filter_join_with:
  "filter visible sep = [] \<Longrightarrow> filter visible (join_with sep ps) = filter visible (concat ps)"
  by (induction sep ps rule: join_with.induct) auto

lemma filter_nonblank: "filter visible (concat (nonblank parts)) = filter visible (concat parts)"
  unfolding nonblank_def
proof (induction parts)
  case Nil
  then show ?case by simp
next
  case (Cons p ps)
  have "filter visible (strip_text p) = filter visible p"
    unfolding strip_text_def by (rule filter_strip_by) (simp add: visible_def)
  with Cons show ?case by (cases "strip_text p = []") auto
qed

lemma join_with_hd: "ps \<noteq> [] \<Longrightarrow> \<forall>p \<in> set ps. p \<noteq> [] \<Longrightarrow> hd (join_with sep ps) = hd (hd ps)"
  by (induction sep ps rule: join_with.induct) auto

lemma join_with_last: "ps \<noteq> [] \<Longrightarrow> \<forall>p \<in> set ps. p \<noteq> [] \<Longrightarrow> last (join_with sep ps) = last (last ps)"
proof (induction sep ps rule: join_with.induct)
  case (3 sep p q ps)
  then have "join_with sep (q # ps) \<noteq> []" by (cases ps) auto
  with 3 show ?case by simp
qed auto

lemma join_with_Nil_iff: "\<forall>p \<in> set ps. p \<noteq> [] \<Longrightarrow> join_with sep ps = [] \<longleftrightarrow> ps = []"
  by (induction sep ps rule: join_with.induct) auto

lemma nonblank_members: "p \<in> set (nonblank parts) \<Longrightarrow> p \<noteq> [] \<and> \<not> is_space_cp (hd p) \<and> \<not> is_space_cp (last p)"
  using strip_by_ends [of is_space_cp] by (auto simp: nonblank_def strip_text_def)

section \<open>The registries agree\<close>

lemma canonical_mime:
  "(s, m) \<in> set SUFFIX_TO_MIME \<Longrightarrow> normalized_mime m = m"
  unfolding SUFFIX_TO_MIME_def by (auto simp: normalized_mime_def text_eval)

lemma registry_agrees:
  assumes "map_of EXTRACTORS s = Some x"
  shows "\<exists>m s'. (s, m) \<in> set SUFFIX_TO_MIME \<and> map_of SUFFIX_TO_MIME s = Some m
    \<and> map_of MIME_TO_SUFFIX m = Some s' \<and> map_of EXTRACTORS s' = Some x"
  using assms unfolding EXTRACTORS_def SUFFIX_TO_MIME_def MIME_TO_SUFFIX_def
  by (simp split: if_splits)

lemma mime_suffix_registered: "map_of MIME_TO_SUFFIX m = Some s \<Longrightarrow> map_of EXTRACTORS s \<noteq> None"
  unfolding EXTRACTORS_def SUFFIX_TO_MIME_def MIME_TO_SUFFIX_def
  by (simp split: if_splits)

lemma suffix_for_mime_registered: "suffix_for_mime m = Some s \<Longrightarrow> \<exists>x. map_of EXTRACTORS s = Some x"
  using mime_suffix_registered
  by (fastforce simp: suffix_for_mime_def Let_def EXTRACTORS_def split: option.splits if_splits)

lemma suffix_for_canonical_mime:
  "(s, m) \<in> set SUFFIX_TO_MIME \<Longrightarrow> map_of MIME_TO_SUFFIX m = Some s' \<Longrightarrow> suffix_for_mime m = Some s'"
  by (simp add: suffix_for_mime_def canonical_mime)

lemma supported_suffix_iff: "s \<in> supported_suffixes \<longleftrightarrow> (\<exists>x. map_of EXTRACTORS s = Some x)"
  by (metis map_of_eq_None_iff not_Some_eq supported_suffixes_def list.set_map)

section \<open>The extractor interface\<close>

text \<open>
  The contract of the \<^verbatim>\<open>TextExtractor\<close> protocol: where opening a document raises only the classes the
  extractor lists and a stream fails only with \<^verbatim>\<open>OSError\<close>, an extractor raises \<^verbatim>\<open>ExtractionError\<close>, or an
  exception of a read it does not guard. The libraries do not know the program's own exceptions.
\<close>

definition libs_ok :: "libs \<Rightarrow> bool" where
  "libs_ok L \<longleftrightarrow> (\<forall>d e. pdf_pages L d = Inl e \<longrightarrow> caught_by_pdf e) \<and> (\<forall>d e. docx_parse L d = Inl e \<longrightarrow> caught_by_docx e)
     \<and> (\<forall>data d e. docx_parse L data = Inr d \<longrightarrow> docx_lines d = Inl e \<longrightarrow> \<not> is_app_error e)"

text \<open>The exception of an unguarded read of a DOCX stream: the document opened, and reading it raised.\<close>

definition unguarded_read :: "libs \<Rightarrow> stream \<Rightarrow> exn \<Rightarrow> bool" where
  "unguarded_read L s e \<longleftrightarrow> (\<exists>data d. s = Inr data \<and> docx_parse L data = Inr d \<and> docx_lines d = Inl e)"

definition stream_ok :: "stream \<Rightarrow> bool" where
  "stream_ok s \<longleftrightarrow> (\<forall>e. s = Inl e \<longrightarrow> is_os_error e)"

fun is_plain_extraction_error :: "exn \<Rightarrow> bool" where
  "is_plain_extraction_error (ExtractionError _) = True"
| "is_plain_extraction_error _ = False"

locale text_extractor =
  fixes extr :: "libs \<Rightarrow> stream \<Rightarrow> exn + utext"
    and escapes :: "libs \<Rightarrow> stream \<Rightarrow> exn \<Rightarrow> bool"
  assumes failures: "libs_ok L \<Longrightarrow> stream_ok s \<Longrightarrow> extr L s = Inl e \<Longrightarrow> is_plain_extraction_error e \<or> escapes L s e"
    and escapes_foreign: "libs_ok L \<Longrightarrow> escapes L s e \<Longrightarrow> \<not> is_app_error e"
begin

lemma bytes_failures:
  "libs_ok L \<Longrightarrow> extr L (Inr data) = Inl e \<Longrightarrow> is_plain_extraction_error e \<or> escapes L (Inr data) e"
  by (rule failures) (auto simp: stream_ok_def)

lemma not_unsupported:
  assumes "libs_ok L" and "stream_ok s" and "extr L s = Inl e"
  shows "\<not> is_unsupported e"
  using failures [OF assms] escapes_foreign [OF assms(1), of s e] by (cases e) auto

end

lemma os_error_caught: "is_os_error e \<Longrightarrow> caught_by_pdf e \<and> caught_by_docx e"
  by (cases e) auto

interpretation pdf: text_extractor pdf_extract "\<lambda>_ _ _. False"
  using os_error_caught
  by unfold_locales (auto simp: pdf_extract_def libs_ok_def stream_ok_def split: sum.splits if_splits)

interpretation docx: text_extractor docx_extract unguarded_read
proof unfold_locales
  show "is_plain_extraction_error e \<or> unguarded_read L s e"
    if "libs_ok L" "stream_ok s" "docx_extract L s = Inl e" for L s e
    using that os_error_caught
    by (auto simp: docx_extract_def libs_ok_def stream_ok_def unguarded_read_def bind_result_Inl_iff split: sum.splits if_splits)
  show "\<not> is_app_error e" if "libs_ok L" "unguarded_read L s e" for L s e
    using that by (auto simp: libs_ok_def unguarded_read_def)
qed

interpretation plain: text_extractor plain_extract "\<lambda>_ _ _. False"
  by unfold_locales (auto simp: plain_extract_def stream_ok_def split: sum.splits if_splits option.splits)

lemma run_extractor_failures:
  assumes "libs_ok L" and "stream_ok s" and "run_extractor x L s = Inl e"
  shows "is_plain_extraction_error e \<or> (x = DocxTextExtractor \<and> unguarded_read L s e)"
  using assms by (cases x) (auto dest: pdf.failures docx.failures plain.failures)

section \<open>Properties\<close>

text \<open>
  Claim C36. The suffix and MIME registries agree: the MIME type stamped on a file with a supported
  suffix, in any letter case, dispatches the bytes to the same extractor the suffix selects, so a
  document enumerated locally is never rejected later as an unsupported MIME type.
\<close>

theorem suffix_mime_dispatch:
  assumes "lower sfx \<in> supported_suffixes"
  shows "\<exists>m x. mime_type_for_suffix sfx = Some m \<and> map_of EXTRACTORS (lower sfx) = Some x
    \<and> (\<forall>L data. extract_text_from_bytes L data m = run_extractor x L (Inr data))"
proof -
  obtain x where x: "map_of EXTRACTORS (lower sfx) = Some x" using assms supported_suffix_iff by auto
  from registry_agrees [OF x] obtain m s' where m: "(lower sfx, m) \<in> set SUFFIX_TO_MIME"
      "map_of SUFFIX_TO_MIME (lower sfx) = Some m" "map_of MIME_TO_SUFFIX m = Some s'"
      "map_of EXTRACTORS s' = Some x" by blast
  have "\<forall>L data. extract_text_from_bytes L data m = run_extractor x L (Inr data)"
    using suffix_for_canonical_mime [OF m(1,3)] m(4) by (simp add: extract_text_from_bytes_def)
  with x m(2) show ?thesis by (auto simp: mime_type_for_suffix_def)
qed

theorem suffix_mime_dispatch_witness:
  "lower ''.YML'' = ''.yml'' \<and> (\<exists>m x. mime_type_for_suffix ''.YML'' = Some m \<and> map_of EXTRACTORS (lower ''.YML'') = Some x
    \<and> (\<forall>L data. extract_text_from_bytes L data m = run_extractor x L (Inr data)))"
proof -
  have l: "lower ''.YML'' = ''.yml''" by code_simp
  then have "lower ''.YML'' \<in> supported_suffixes" by (simp add: supported_suffixes_def EXTRACTORS_def)
  with l suffix_mime_dispatch show ?thesis by blast
qed

text \<open>
  Extraction from bytes fails in exactly three ways: \<^verbatim>\<open>UnsupportedFormatError\<close> when the
  normalised MIME type has no entry and is not a text type, otherwise \<^verbatim>\<open>ExtractionError\<close> from the
  extractor it dispatches to, or what an unguarded read of a DOCX document raises; the lookup of the
  extractor never fails.
\<close>

lemma extract_from_bytes_outcome:
  assumes "libs_ok L"
  shows "case extract_text_from_bytes L data mime of
      Inr t \<Rightarrow> suffix_for_mime mime \<noteq> None
    | Inl e \<Rightarrow> if suffix_for_mime mime = None then e = UnsupportedFormatError (unsupported_mime_message mime)
               else is_plain_extraction_error e \<or> unguarded_read L (Inr data) e"
proof (cases "suffix_for_mime mime")
  case None
  then show ?thesis by (simp add: extract_text_from_bytes_def)
next
  case (Some s)
  then obtain x where "map_of EXTRACTORS s = Some x" using suffix_for_mime_registered by blast
  with Some show ?thesis using run_extractor_failures [OF assms, of "Inr data" x]
    by (auto simp: extract_text_from_bytes_def stream_ok_def split: sum.splits)
qed

definition sample_libs :: libs where
  "sample_libs = \<lparr>pdf_pages = (\<lambda>_. Inl (PyPdfError ''no header'')), docx_parse = (\<lambda>_. Inl (BadZipFile ''not a zip''))\<rparr>"

lemma extract_from_bytes_outcome_example:
  "extract_text_from_bytes sample_libs [104, 105] ''Text/HTML; charset=utf-8'' = Inr [104, 105]
   \<and> suffix_for_mime ''Text/HTML; charset=utf-8'' \<noteq> None"
proof -
  have "libs_ok sample_libs" by (simp add: libs_ok_def sample_libs_def)
  from extract_from_bytes_outcome [OF this, of "''Text/HTML; charset=utf-8''" "[104, 105]"]
  show ?thesis
    by (simp add: extract_text_from_bytes_def suffix_for_mime_def normalized_mime_def Let_def text_eval
        MIME_TO_SUFFIX_def SUFFIX_TO_MIME_def TEXT_MIME_PREFIX_def EXTRACTORS_def plain_extract_def
        utf8_sig_decode_def utf8_decode_def bom_def decode_nats.simps)
qed

text \<open>
  A MIME type is dispatched by its bare type: a parameter list and the white space around
  the type do not change which extractor is selected.
\<close>

lemma mime_parameters_ignored:
  assumes "\<forall>c \<in> set (pre @ post). is_space c" and "CHR '';'' \<notin> set (pre @ m @ post)"
  shows "suffix_for_mime (pre @ m @ post @ CHR '';'' # params) = suffix_for_mime m"
proof -
  have "before_first CHR '';'' (pre @ m @ post @ CHR '';'' # params) = pre @ m @ post"
    using before_first_append [of "CHR '';''" "pre @ m @ post"] assms(2) by simp
  moreover have "before_first CHR '';'' m = m"
    using assms(2) by (auto simp: before_first_def takeWhile_eq_all_conv)
  moreover have "strip (pre @ m @ post) = strip m"
    unfolding strip_def using assms(1) by (intro strip_by_padding) auto
  ultimately show ?thesis by (simp add: suffix_for_mime_def normalized_mime_def)
qed

lemma mime_parameters_ignored_example:
  "suffix_for_mime ('' '' @ ''text/csv'' @ '' '' @ CHR '';'' # ''charset=utf-8'') = suffix_for_mime ''text/csv''"
  by (rule mime_parameters_ignored) (simp_all add: is_space_def is_space_cp_def)

text \<open>
  Plain text is recovered exactly: the UTF-8 encoding of a text of Unicode scalar values,
  with or without a byte-order mark, is extracted to that text (a text that itself starts with the
  mark loses one copy), and bytes that are not UTF-8 give one character per byte; plain-text
  extraction from bytes never fails.
\<close>

lemma plain_text_recovered:
  assumes "\<forall>c \<in> set t. scalar c" and "take 1 t \<noteq> [65279]"
  shows "plain_extract L (Inr (utf8_encode t)) = Inr t \<and> plain_extract L (Inr (bom @ utf8_encode t)) = Inr t
    \<and> (\<exists>u. plain_extract L (Inr data) = Inr u \<and> (utf8_sig_decode data = None \<longrightarrow> length u = length data))"
proof -
  have "plain_extract L (Inr (utf8_encode t)) = Inr t" and "plain_extract L (Inr (bom @ utf8_encode t)) = Inr t"
    using utf8_sig_decode_encode [OF assms(1)] assms(2) by (simp_all add: plain_extract_def)
  moreover have "\<exists>u. plain_extract L (Inr data) = Inr u \<and> (utf8_sig_decode data = None \<longrightarrow> length u = length data)"
    by (cases "utf8_sig_decode data") (simp_all add: plain_extract_def latin1_decode_def)
  ultimately show ?thesis by blast
qed

lemma plain_text_recovered_example:
  "plain_extract sample_libs (Inr (utf8_encode [72, 233, 8364, 128512])) = Inr [72, 233, 8364, 128512]
   \<and> utf8_encode [233, 8364] = [195, 169, 226, 130, 172]"
proof -
  have "\<forall>c \<in> set [72, 233, 8364, 128512]. scalar c" and "take 1 [72, 233, 8364, 128512 :: nat] \<noteq> [65279]"
    by (simp_all add: scalar_def)
  from plain_text_recovered [OF this] show ?thesis by (simp add: utf8_encode_def encode_cp_def)
qed

text \<open>
  Joining the fragments of a PDF or DOCX document loses nothing visible: the characters
  other than white space of the result are those of the fragments, in order; the result has no
  white space at either end, and is empty exactly when every fragment is blank.
\<close>

lemma join_nonblank_content:
  "filter visible (join_nonblank parts) = filter visible (concat parts)
   \<and> strip_text (join_nonblank parts) = join_nonblank parts
   \<and> (join_nonblank parts = [] \<longleftrightarrow> filter visible (concat parts) = [])"
proof -
  let ?ps = "nonblank parts"
  have ne: "\<forall>p \<in> set ?ps. p \<noteq> []" using nonblank_members by blast
  have vis: "filter visible (join_nonblank parts) = filter visible (concat parts)"
    by (simp add: join_nonblank_def filter_join_with filter_nonblank visible_def is_space_cp_def)
  have ends: "?ps = [] \<or> (\<not> is_space_cp (hd (join_nonblank parts)) \<and> \<not> is_space_cp (last (join_nonblank parts)))"
  proof (cases "?ps = []")
    case False
    then have "hd ?ps \<in> set ?ps" "last ?ps \<in> set ?ps" by simp_all
    then have "\<not> is_space_cp (hd (hd ?ps))" "\<not> is_space_cp (last (last ?ps))"
      using nonblank_members by blast+
    with False ne show ?thesis
      by (simp add: join_nonblank_def join_with_hd join_with_last)
  qed simp
  have "strip_text (join_nonblank parts) = join_nonblank parts"
    using ends unfolding strip_text_def by (intro strip_by_id) (auto simp: join_nonblank_def)
  moreover have "join_nonblank parts = [] \<longleftrightarrow> filter visible (concat parts) = []"
  proof
    assume e: "filter visible (concat parts) = []"
    show "join_nonblank parts = []"
    proof (rule ccontr)
      assume "join_nonblank parts \<noteq> []"
      moreover from this have "\<not> is_space_cp (hd (join_nonblank parts))"
        using ends by (auto simp: join_nonblank_def)
      ultimately have "hd (join_nonblank parts) \<in> set (filter visible (join_nonblank parts))"
        by (simp add: visible_def)
      with vis e show False by simp
    qed
  next
    assume "join_nonblank parts = []"
    with vis show "filter visible (concat parts) = []" by simp
  qed
  ultimately show ?thesis using vis by blast
qed

end
