(* ===== verification/Sources.thy ===== *)
theory Sources
  imports TextExtraction
begin

text \<open>
  Document enumeration, \<^verbatim>\<open>src/sources.py\<close>: the local file-system source. The file system is the
  parameter record of the theory on paths; a warning about a skipped file has no effect on the
  result and is not modelled.
\<close>

section \<open>The local source\<close>

record local_source =
  src_root :: ppath

definition source_error_message :: "ppath \<Rightarrow> string" where
  "source_error_message r = ''Source path is not a file or directory: '' @ path_str r"

definition candidate_files :: "filesys \<Rightarrow> local_source \<Rightarrow> exn + ppath list" where
  "candidate_files F src =
     (if fs_is_file F (src_root src) then Inr [src_root src]
      else if fs_is_dir F (src_root src)
        then Inr (sorted_paths (filter (fs_is_file F) (fs_rglob F (src_root src))))
      else Inl (SourceError (source_error_message (src_root src))))"

definition has_extractor :: "ppath \<Rightarrow> bool" where
  "has_extractor path \<longleftrightarrow> lower (path_suffix path) \<in> supported_suffixes"

definition documents :: "filesys \<Rightarrow> local_source \<Rightarrow> exn + ppath list" where
  "documents F src = map_sum id (filter has_extractor) (candidate_files F src)"

section \<open>The source interface\<close>

text \<open>
  What the command line relies on in a \<^verbatim>\<open>DocumentSource\<close>: every path it yields has a registered
  extractor, so extraction never meets an unsupported suffix, and enumeration fails only with
  \<^verbatim>\<open>SourceError\<close>.
\<close>

fun is_source_error :: "exn \<Rightarrow> bool" where
  "is_source_error (SourceError _) = True"
| "is_source_error _ = False"

locale document_source =
  fixes enumerate_docs :: "'src \<Rightarrow> exn + ppath list"
  assumes yields_supported: "enumerate_docs src = Inr ps \<Longrightarrow> p \<in> set ps \<Longrightarrow> has_extractor p"
    and fails_with_source_error: "enumerate_docs src = Inl e \<Longrightarrow> is_source_error e"
begin

lemma extraction_dispatches:
  assumes "enumerate_docs src = Inr ps" and "p \<in> set ps"
  shows "\<exists>x. map_of EXTRACTORS (lower (path_suffix p)) = Some x"
  using yields_supported [OF assms] by (simp add: has_extractor_def supported_suffix_iff)

lemma enumeration_failure_is_app_error: "enumerate_docs src = Inl e \<Longrightarrow> is_app_error e"
  using fails_with_source_error by (cases e) fastforce+

end

lemma documents_cases:
  obtains (single) "fs_is_file F (src_root src)"
      "documents F src = Inr (filter has_extractor [src_root src])"
    | (walk) "\<not> fs_is_file F (src_root src)" "fs_is_dir F (src_root src)"
      "documents F src = Inr (filter has_extractor (sorted_paths (filter (fs_is_file F) (fs_rglob F (src_root src)))))"
    | (absent) "\<not> fs_is_file F (src_root src)" "\<not> fs_is_dir F (src_root src)"
      "documents F src = Inl (SourceError (source_error_message (src_root src)))"
  by (cases "fs_is_file F (src_root src)"; cases "fs_is_dir F (src_root src)")
    (simp_all add: documents_def candidate_files_def)

interpretation local_fs: document_source "documents F" for F
proof unfold_locales
  show "documents F src = Inr ps \<Longrightarrow> p \<in> set ps \<Longrightarrow> has_extractor p" for src ps p
    by (cases rule: documents_cases [of F src]) (auto split: if_splits)
  show "documents F src = Inl e \<Longrightarrow> is_source_error e" for src e
    by (cases rule: documents_cases [of F src]) auto
qed

text \<open>
  What the reads of a DOCX document outside the extractor's \<^verbatim>\<open>try\<close> raise past the dispatcher, which
  translates an \<^verbatim>\<open>OSError\<close> only.
\<close>

definition unguarded_document :: "libs \<Rightarrow> filesys \<Rightarrow> ppath \<Rightarrow> exn option" where
  "unguarded_document L F p =
     (if lower (path_suffix p) \<noteq> ''.docx'' then None
      else case fs_open F p of
        Inr (Inr data) \<Rightarrow>
          (case docx_parse L data of
             Inr d \<Rightarrow> (case docx_lines d of Inl e \<Rightarrow> if is_os_error e then None else Some e | Inr _ \<Rightarrow> None)
           | Inl _ \<Rightarrow> None)
      | _ \<Rightarrow> None)"

lemma docx_suffix: "map_of EXTRACTORS s = Some DocxTextExtractor \<longleftrightarrow> s = ''.docx''"
  by (auto simp: EXTRACTORS_def split: if_splits)

lemma unguarded_document_read:
  "unguarded_document L F p = Some e \<longleftrightarrow>
     lower (path_suffix p) = ''.docx'' \<and> (\<exists>s. fs_open F p = Inr s \<and> unguarded_read L s e) \<and> \<not> is_os_error e"
  by (auto simp: unguarded_document_def unguarded_read_def split: sum.splits if_splits)

lemma unguarded_document_escapes:
  assumes "unguarded_document L F p = Some e"
  shows "extract_text L F p = Inl e"
  using assms unfolding unguarded_document_read unguarded_read_def
  by (auto simp: extract_text_def docx_suffix [THEN iffD2] docx_extract_def bind_result_def)

lemma extract_text_of_supported:
  assumes "map_of EXTRACTORS (lower (path_suffix p)) = Some x" and "libs_ok L"
    and opens: "\<And>e. fs_open F p = Inl e \<Longrightarrow> is_os_error e"
    and reads: "\<And>s. fs_open F p = Inr s \<Longrightarrow> stream_ok s"
    and fails: "extract_text L F p = Inl e"
  shows "if unguarded_document L F p = Some e then \<not> is_app_error e
    else unguarded_document L F p = None \<and> is_plain_extraction_error e"
proof (cases "unguarded_document L F p")
  case (Some u)
  then have "u = e" using unguarded_document_escapes fails by fastforce
  moreover have "\<not> is_app_error u" using Some docx.escapes_foreign [OF assms(2)] by (auto simp: unguarded_document_read)
  ultimately show ?thesis using Some by simp
next
  case none: None
  have "is_plain_extraction_error e"
  proof (cases "fs_open F p")
    case (Inl o')
    with assms(1) opens fails show ?thesis by (auto simp: extract_text_def)
  next
    case (Inr s)
    show ?thesis
    proof (cases "run_extractor x L s")
      case (Inl r)
      from run_extractor_failures [OF assms(2) reads [OF Inr] Inl]
      have "is_plain_extraction_error r \<or> is_os_error r"
        using none unguarded_document_read [of L F p r] Inr assms(1) docx_suffix by auto
      with Inl Inr assms(1) fails show ?thesis by (auto simp: extract_text_def split: if_splits)
    next
      case (Inr t)
      with \<open>fs_open F p = Inr s\<close> assms(1) fails show ?thesis by (simp add: extract_text_def)
    qed
  qed
  with none show ?thesis by simp
qed

section \<open>Properties\<close>

text \<open>
  Claim C34. Enumeration is complete, filtered and ordered: on an existing root it yields exactly
  the files with a registered extractor (the root itself, or the files of the recursive listing,
  sorted by path components), and it raises \<^verbatim>\<open>SourceError\<close> exactly when the root is neither a file
  nor a directory; an unsupported file never makes it fail.
\<close>

theorem documents_spec:
  "case documents F src of
     Inl e \<Rightarrow> e = SourceError (source_error_message (src_root src))
        \<and> \<not> fs_is_file F (src_root src) \<and> \<not> fs_is_dir F (src_root src)
   | Inr ps \<Rightarrow> (fs_is_file F (src_root src) \<or> fs_is_dir F (src_root src))
        \<and> sorted (map path_key ps)
        \<and> set ps = {p. fs_is_file F p \<and> lower (path_suffix p) \<in> supported_suffixes
              \<and> (if fs_is_file F (src_root src) then p = src_root src else p \<in> set (fs_rglob F (src_root src)))}"
proof (cases rule: documents_cases [of F src])
  case single
  then show ?thesis by (auto simp: has_extractor_def)
next
  case walk
  have "sorted (map path_key (filter has_extractor (sorted_paths ps)))" for ps
    unfolding sorted_paths_def by (simp add: sorted_filter)
  with walk show ?thesis by (auto simp: has_extractor_def)
next
  case absent
  then show ?thesis by simp
qed

text \<open>
  Claim C35. A document the local source enumerates is never rejected as an unsupported format. Extracting
  it yields its text or raises \<^verbatim>\<open>ExtractionError\<close> itself, which the command line skips, with one exception:
  when a DOCX document opens and a read of its paragraphs or cells raises something other than \<^verbatim>\<open>OSError\<close>,
  that exception, which is none of the program's own, escapes. The libraries and the operating system are
  assumed to raise only the exception classes they document.
\<close>

theorem enumerated_documents_extract:
  assumes "documents F src = Inr ps" and "p \<in> set ps" and "libs_ok L"
    and "\<And>e. fs_open F p = Inl e \<Longrightarrow> is_os_error e" and "\<And>s. fs_open F p = Inr s \<Longrightarrow> stream_ok s"
  shows "case unguarded_document L F p of
      Some e \<Rightarrow> extract_text L F p = Inl e \<and> \<not> is_app_error e
    | None \<Rightarrow> (case extract_text L F p of Inr t \<Rightarrow> fs_is_file F p | Inl e \<Rightarrow> \<exists>m. e = ExtractionError m)"
proof -
  obtain x where x: "map_of EXTRACTORS (lower (path_suffix p)) = Some x"
    using local_fs.extraction_dispatches [OF assms(1,2)] by blast
  have isf: "fs_is_file F p"
    using assms(1,2) by (cases rule: documents_cases [of F src]) (auto split: if_splits)
  have fails: "if unguarded_document L F p = Some e then \<not> is_app_error e
      else unguarded_document L F p = None \<and> is_plain_extraction_error e" if "extract_text L F p = Inl e" for e
    using extract_text_of_supported [OF x assms(3), of F e] assms(4,5) that by blast
  show ?thesis
  proof (cases "unguarded_document L F p")
    case (Some e)
    with unguarded_document_escapes [OF Some] fails [of e] show ?thesis by simp
  next
    case None
    have "\<exists>m. e = ExtractionError m" if "extract_text L F p = Inl e" for e
      using fails [OF that] None by (cases e) auto
    with None isf show ?thesis by (simp split: sum.split)
  qed
qed

definition sample_files :: filesys where
  "sample_files = \<lparr>fs_is_file = (\<lambda>p. p = parse_path ''in/b.txt'' \<or> p = parse_path ''in/a.exe''),
     fs_is_dir = (\<lambda>p. p = parse_path ''in''),
     fs_rglob = (\<lambda>p. [parse_path ''in/b.txt'', parse_path ''in/a.exe'']),
     fs_open = (\<lambda>p. Inl (OSError ''denied'')), fs_read_bytes = (\<lambda>p. Inl (OSError ''denied'')),
     fs_resolve = (\<lambda>p. p)\<rparr>"

lemmas path_eval = parse_path_def root_of_def path_str_def path_name_def path_suffix_def
  suffix_of_name_def after_last_dot_def path_parent_def is_absolute_def path_join_def

lemma sample_documents:
  "documents sample_files \<lparr>src_root = parse_path ''in''\<rparr> = Inr [parse_path ''in/b.txt'']"
proof -
  have s: "has_extractor (parse_path ''in/b.txt'')" "\<not> has_extractor (parse_path ''in/a.exe'')"
    by (simp_all add: has_extractor_def supported_suffixes_def EXTRACTORS_def path_eval text_eval Let_def)
  let ?l = "sorted_paths [parse_path ''in/b.txt'', parse_path ''in/a.exe'']"
  have k: "path_key (parse_path ''in/a.exe'') = [''in'', ''a.exe'']" "path_key (parse_path ''in/b.txt'') = [''in'', ''b.txt'']"
    by (simp_all add: path_key_def path_eval text_eval)
  then have "?l = [parse_path ''in/a.exe'', parse_path ''in/b.txt'']"
    by (simp add: sorted_paths_def less_list_code less_char_def)
  with s show ?thesis
    by (simp add: documents_def candidate_files_def sample_files_def path_eval text_eval)
qed

text \<open>A DOCX document whose table has a row that continues a merge with no cell above it.\<close>

definition merged_libs :: libs where
  "merged_libs = sample_libs\<lparr>docx_parse := (\<lambda>_. Inr \<lparr>docx_paragraphs = Inr [Inr [72]],
     docx_tables = Inr [Inr [Inl (ValueError ''no tr above topmost tr in w:tbl'')]]\<rparr>)\<rparr>"

definition merged_files :: filesys where
  "merged_files = sample_files\<lparr>fs_is_file := (\<lambda>p. p = parse_path ''m.docx''), fs_is_dir := (\<lambda>_. False), fs_rglob := (\<lambda>_. []), fs_open := (\<lambda>p. Inr (Inr [80]))\<rparr>"

lemma merged_eval:
  "documents merged_files \<lparr>src_root = parse_path ''m.docx''\<rparr> = Inr [parse_path ''m.docx'']"
  "unguarded_document merged_libs merged_files (parse_path ''m.docx'') = Some (ValueError ''no tr above topmost tr in w:tbl'')"
  "libs_ok merged_libs"
proof -
  have l: "lower (path_suffix (parse_path ''m.docx'')) = ''.docx''" by (simp add: path_eval text_eval Let_def)
  then show "documents merged_files \<lparr>src_root = parse_path ''m.docx''\<rparr> = Inr [parse_path ''m.docx'']"
    by (simp add: documents_def candidate_files_def merged_files_def has_extractor_def supported_suffixes_def EXTRACTORS_def)
  have reads: "docx_lines \<lparr>docx_paragraphs = Inr [Inr [72]], docx_tables = Inr [Inr [Inl (ValueError m)]]\<rparr> = Inl (ValueError m)" for m
    by (simp add: docx_lines_def docx_read_texts_def bind_result_def)
  show "libs_ok merged_libs" by (auto simp: libs_ok_def merged_libs_def sample_libs_def reads)
  show "unguarded_document merged_libs merged_files (parse_path ''m.docx'') = Some (ValueError ''no tr above topmost tr in w:tbl'')"
    using l reads by (simp add: unguarded_document_def merged_files_def merged_libs_def)
qed

theorem enumerated_documents_extract_witness:
  "(\<exists>m. extract_text sample_libs sample_files (parse_path ''in/b.txt'') = Inl (ExtractionError m))
   \<and> extract_text merged_libs merged_files (parse_path ''m.docx'') = Inl (ValueError ''no tr above topmost tr in w:tbl'')"
proof
  have L: "libs_ok sample_libs" by (simp add: libs_ok_def sample_libs_def)
  have open': "fs_open sample_files p = Inl (OSError ''denied'')" for p by (simp add: sample_files_def)
  have x: "map_of EXTRACTORS (lower (path_suffix (parse_path ''in/b.txt''))) = Some PlainTextExtractor"
    by (simp add: EXTRACTORS_def path_eval text_eval Let_def)
  have "\<exists>e. extract_text sample_libs sample_files (parse_path ''in/b.txt'') = Inl e"
    by (simp add: extract_text_def x open')
  with enumerated_documents_extract [OF sample_documents _ L, of "parse_path ''in/b.txt''"]
  show "\<exists>m. extract_text sample_libs sample_files (parse_path ''in/b.txt'') = Inl (ExtractionError m)"
    by (auto simp: open' unguarded_document_def split: if_splits)
  have opens: "fs_open merged_files p = Inr (Inr [80])" for p by (simp add: merged_files_def)
  from enumerated_documents_extract [OF merged_eval(1) _ merged_eval(3), of "parse_path ''m.docx''"]
  show "extract_text merged_libs merged_files (parse_path ''m.docx'') = Inl (ValueError ''no tr above topmost tr in w:tbl'')"
    by (simp add: merged_eval(2) opens stream_ok_def)
qed

end
