(* ===== verification/Sha256.thy ===== *)
theory Sha256
  imports PyText
begin

unbundle bit_operations_syntax

text \<open>
  \<^verbatim>\<open>hashlib.sha256(data).hexdigest()\<close> (FIPS 180-4), the content hash of the file-system and blob sources.
\<close>

type_synonym w32 = "32 word"

text \<open>
  The constants of the standard, by their definition: the first 32 fractional bits of the cube roots
  of the first 64 primes, and of the square roots of the first eight. The root of \<open>p\<close> scaled by
  \<open>2 ^ 32\<close> is the integer root of \<open>p * 2 ^ (32 * k)\<close>, found bit by bit from the top.
\<close>

definition primes_below :: "nat \<Rightarrow> nat list" where
  "primes_below n = filter (\<lambda>p. \<forall>d \<in> set [2..<p]. p mod d \<noteq> 0) [2..<n]"

fun root_bits :: "nat \<Rightarrow> nat \<Rightarrow> nat \<Rightarrow> nat \<Rightarrow> nat" where
  "root_bits k n 0 acc = acc"
| "root_bits k n (Suc b) acc = root_bits k n b (if (acc + 2 ^ b) ^ k \<le> n then acc + 2 ^ b else acc)"

definition root_fraction :: "nat \<Rightarrow> nat \<Rightarrow> w32" where
  "root_fraction k p = of_nat (root_bits k (p * 2 ^ (32 * k)) 40 0)"

definition SHA_K :: "w32 list" where
  "SHA_K = map (root_fraction 3) (primes_below 312)"

definition SHA_H :: "w32 list" where
  "SHA_H = map (root_fraction 2) (primes_below 20)"

definition rotr :: "nat \<Rightarrow> w32 \<Rightarrow> w32" where
  "rotr n x = word_rotr n x"

definition small_sigma0 :: "w32 \<Rightarrow> w32" where
  "small_sigma0 x = rotr 7 x XOR rotr 18 x XOR drop_bit 3 x"

definition small_sigma1 :: "w32 \<Rightarrow> w32" where
  "small_sigma1 x = rotr 17 x XOR rotr 19 x XOR drop_bit 10 x"

definition big_sigma0 :: "w32 \<Rightarrow> w32" where
  "big_sigma0 x = rotr 2 x XOR rotr 13 x XOR rotr 22 x"

definition big_sigma1 :: "w32 \<Rightarrow> w32" where
  "big_sigma1 x = rotr 6 x XOR rotr 11 x XOR rotr 25 x"

definition sha_ch :: "w32 \<Rightarrow> w32 \<Rightarrow> w32 \<Rightarrow> w32" where
  "sha_ch e f g = (e AND f) XOR (NOT e AND g)"

definition sha_maj :: "w32 \<Rightarrow> w32 \<Rightarrow> w32 \<Rightarrow> w32" where
  "sha_maj a b c = (a AND b) XOR (a AND c) XOR (b AND c)"

text \<open>The padded message: a one bit, zeros up to 56 bytes modulo 64, and the length in bits.\<close>

definition big_endian :: "nat \<Rightarrow> nat \<Rightarrow> bytes" where
  "big_endian k n = map (\<lambda>i. of_nat (n div 256 ^ (k - 1 - i))) [0..<k]"

definition sha_pad :: "bytes \<Rightarrow> bytes" where
  "sha_pad data = data @ [0x80] @ replicate ((119 - length data mod 64) mod 64) 0
     @ big_endian 8 (8 * length data mod 2 ^ 64)"

fun words_of :: "bytes \<Rightarrow> w32 list" where
  "words_of (a # b # c # d # r) =
     (push_bit 24 (ucast a) OR push_bit 16 (ucast b) OR push_bit 8 (ucast c) OR ucast d) # words_of r"
| "words_of _ = []"

text \<open>The message schedule, kept reversed: the last word is at index 0.\<close>

fun schedule :: "nat \<Rightarrow> w32 list \<Rightarrow> w32 list" where
  "schedule 0 rev_w = rev rev_w"
| "schedule (Suc n) rev_w =
     schedule n ((small_sigma1 (rev_w ! 1) + rev_w ! 6 + small_sigma0 (rev_w ! 14) + rev_w ! 15) # rev_w)"

fun sha_round :: "w32 \<times> w32 \<Rightarrow> w32 list \<Rightarrow> w32 list" where
  "sha_round (k, w) [a, b, c, d, e, f, g, h] =
     (let t1 = h + big_sigma1 e + sha_ch e f g + k + w;
          t2 = big_sigma0 a + sha_maj a b c
      in [t1 + t2, a, b, c, d + t1, e, f, g])"
| "sha_round kw st = st"

definition sha_block :: "w32 list \<Rightarrow> w32 list \<Rightarrow> w32 list" where
  "sha_block hs block = map2 (+) hs (fold sha_round (zip SHA_K (schedule 48 (rev block))) hs)"

function sha_blocks :: "w32 list \<Rightarrow> w32 list \<Rightarrow> w32 list" where
  "sha_blocks hs ws = (if length ws < 16 then hs else sha_blocks (sha_block hs (take 16 ws)) (drop 16 ws))"
  by pat_completeness auto
termination
  by (relation "measure (\<lambda>(hs, ws). length ws)") auto

declare sha_blocks.simps [simp del]

definition hex_word :: "w32 \<Rightarrow> string" where
  "hex_word x = map (\<lambda>i. hex_digit (unat x div 16 ^ (7 - i) mod 16)) [0..<8]"

definition sha256_hex :: "bytes \<Rightarrow> string" where
  "sha256_hex data = concat (map hex_word (sha_blocks SHA_H (words_of (sha_pad data))))"

section \<open>Shape of the digest\<close>

lemma length_sha_round: "length (sha_round kw st) = length st"
  by (cases "(kw, st)" rule: sha_round.cases) (simp_all add: Let_def)

lemma length_fold_round: "length (fold sha_round kws st) = length st"
  by (induction kws arbitrary: st) (simp_all add: length_sha_round)

lemma length_sha_blocks: "length (sha_blocks hs ws) = length hs"
proof (induction hs ws rule: sha_blocks.induct)
  case (1 hs ws)
  have "length (sha_block hs (take 16 ws)) = length hs" by (simp add: sha_block_def length_fold_round)
  with 1 show ?case by (subst sha_blocks.simps) auto
qed

text \<open>The padding makes whole blocks.\<close>

lemma pad_arith:
  assumes "r < (64::nat)"
  shows "(r + (1 + (119 - r) mod 64 + 8)) mod 64 = 0"
proof (cases "r \<le> 55")
  case True
  then have "119 - r = 64 + (55 - r)" by linarith
  then have "(119 - r) mod 64 = 55 - r" by (simp only: mod_add_self1) simp
  with True show ?thesis by simp
next
  case False
  then have "119 - r < 64" by linarith
  then have "r + (1 + (119 - r) mod 64 + 8) = 128" using False assms by simp
  then show ?thesis by simp
qed

lemma length_sha_pad: "length (sha_pad data) mod 64 = 0"
proof -
  let ?n = "length data"
  have "length (sha_pad data) = ?n + (1 + (119 - ?n mod 64) mod 64 + 8)" by (simp add: sha_pad_def big_endian_def)
  moreover have "(?n + k) mod 64 = (?n mod 64 + k) mod 64" for k by (rule mod_add_left_eq [symmetric])
  ultimately show ?thesis using pad_arith [of "?n mod 64"] by (simp only: mod_less_divisor zero_less_numeral simp_thms)
qed

lemma sha256_hex_length: "length (sha256_hex data) = 64"
proof -
  have l: "length (hex_word x) = 8" for x by (simp add: hex_word_def)
  have "length (concat (map hex_word ws)) = 8 * length ws" for ws by (induction ws) (simp_all add: l)
  moreover have "length SHA_H = 8" unfolding SHA_H_def length_map by code_simp
  ultimately show ?thesis by (simp add: sha256_hex_def length_sha_blocks)
qed

lemma sha256_hex_nonempty: "sha256_hex data \<noteq> []"
  using sha256_hex_length [of data] by auto

end
