(* ===== verification/ContentSource.thy ===== *)
theory ContentSource
  imports GraphClient Sources Sha256
begin

text \<open>
  Content retrieval, \<^verbatim>\<open>src/content_source.py\<close> and \<^verbatim>\<open>src/blob_source.py\<close>: the current hash and the bytes
  of one work item, from Graph, from a mounted directory or from a blob container. The file system
  and the container's answers at each point of the run are parameters.
\<close>

section \<open>The environment\<close>

text \<open>
  A listing gives the blobs it yields before it ends or raises.
\<close>

record blob_item =
  bi_name :: string
  bi_metadata :: "(string \<times> string) list option"
  bi_content_type :: "string option"

record content_env = graph_env +
  c_fs :: "nat \<Rightarrow> filesys"
  b_read :: "nat \<Rightarrow> string \<Rightarrow> exn + bytes"
  b_metadata :: "nat \<Rightarrow> string \<Rightarrow> exn + (string \<times> string) list option"
  b_list :: "nat \<Rightarrow> string \<Rightarrow> blob_item list \<times> exn option"

definition hash_bytes :: "bytes \<Rightarrow> string" where
  "hash_bytes data = sha256_hex data"

text \<open>\<^verbatim>\<open>except T as err: raise SourceError(m) from err\<close>.\<close>

definition to_source_error :: "(exn \<Rightarrow> bool) \<Rightarrow> string \<Rightarrow> exn \<Rightarrow> exn" where
  "to_source_error caught m e = (if caught e then SourceError m else e)"

section \<open>The mounted directory\<close>

definition resolve_locator :: "filesys \<Rightarrow> ppath \<Rightarrow> string \<Rightarrow> exn + ppath" where
  "resolve_locator F r locator =
     (let candidate = parse_path locator in
      if is_absolute candidate
      then Inl (SourceError (''Filesystem locator must be relative to the mount root: '' @ py_repr locator))
      else let resolved = fs_resolve F (path_join r candidate); base = fs_resolve F r in
        if resolved \<noteq> base \<and> \<not> in_parents base resolved
        then Inl (SourceError (''Filesystem locator escapes the mount root: '' @ py_repr locator))
        else Inr resolved)"

definition fs_download :: "'z content_env_scheme \<Rightarrow> ppath \<Rightarrow> message \<Rightarrow> bytes job" where
  "fs_download E r m = bind_op next_tick (\<lambda>t. lift_op
     (case resolve_locator (c_fs E t) r (ms_drive_item_id m) of
        Inl e \<Rightarrow> Inl e
      | Inr path \<Rightarrow> map_sum (to_source_error is_os_error (''Cannot read document file: '' @ path_str path)) id
          (fs_read_bytes (c_fs E t) path)))"

definition fs_fetch_content_hash :: "'z content_env_scheme \<Rightarrow> ppath \<Rightarrow> message \<Rightarrow> string option job" where
  "fs_fetch_content_hash E r m = bind_op (fs_download E r m) (\<lambda>data. ret (Some (hash_bytes data)))"

section \<open>The blob container\<close>

record blob_location =
  lo_account_url :: string
  lo_container :: string
  lo_prefix :: string

definition location_drive_id :: "blob_location \<Rightarrow> string" where
  "location_drive_id l = ''blob:'' @ lo_account_url l @ ''/'' @ lo_container l @ ''/'' @ lo_prefix l"

datatype container_client = ContainerClient string string

definition create_container_client :: "sdk \<Rightarrow> string \<Rightarrow> string \<Rightarrow> exn + container_client" where
  "create_container_client K account_url container =
     bind_result (sdk_default_credential K) (\<lambda>_.
     bind_result (sdk_container_client K account_url container) (\<lambda>_. Inr (ContainerClient account_url container)))"

definition SHA256_METADATA_KEY :: string where
  "SHA256_METADATA_KEY = ''sha256''"

definition stored_sha256 :: "(string \<times> string) list option \<Rightarrow> string option" where
  "stored_sha256 metadata = map_of (case metadata of None \<Rightarrow> [] | Some d \<Rightarrow> d) SHA256_METADATA_KEY"

definition read_blob :: "'z content_env_scheme \<Rightarrow> string \<Rightarrow> bytes job" where
  "read_blob E name = bind_op next_tick (\<lambda>t. lift_op
     (map_sum (to_source_error is_azure_error (''Cannot read blob: '' @ name)) id (b_read E t name)))"

definition read_blob_metadata :: "'z content_env_scheme \<Rightarrow> string \<Rightarrow> (string \<times> string) list option job" where
  "read_blob_metadata E name = bind_op next_tick (\<lambda>t. lift_op
     (map_sum (to_source_error is_azure_error (''Cannot read blob properties: '' @ name)) id (b_metadata E t name)))"

definition blob_name :: "string \<Rightarrow> message \<Rightarrow> string" where
  "blob_name prefix m = prefix @ ms_drive_item_id m"

definition blob_download :: "'z content_env_scheme \<Rightarrow> string \<Rightarrow> message \<Rightarrow> bytes job" where
  "blob_download E prefix m = read_blob E (blob_name prefix m)"

definition blob_fetch_content_hash :: "'z content_env_scheme \<Rightarrow> string \<Rightarrow> message \<Rightarrow> string option job" where
  "blob_fetch_content_hash E prefix m =
     bind_op (read_blob_metadata E (blob_name prefix m)) (\<lambda>metadata.
     let stored = stored_sha256 metadata in
     if truthy stored then ret stored
     else bind_op (blob_download E prefix m) (\<lambda>data. ret (Some (hash_bytes data))))"

section \<open>The three sources\<close>

datatype content_source = GraphContentSource graph_client | FilesystemContentSource ppath | BlobContentSource string

fun fetch_content_hash :: "'z content_env_scheme \<Rightarrow> content_source \<Rightarrow> message \<Rightarrow> string option job" where
  "fetch_content_hash E (GraphContentSource g) m = graph_fetch_content_hash E g (ms_drive_id m) (ms_drive_item_id m)"
| "fetch_content_hash E (FilesystemContentSource r) m = fs_fetch_content_hash E r m"
| "fetch_content_hash E (BlobContentSource prefix) m = blob_fetch_content_hash E prefix m"

fun download :: "'z content_env_scheme \<Rightarrow> content_source \<Rightarrow> message \<Rightarrow> bytes job" where
  "download E (GraphContentSource g) m = graph_download E g (ms_drive_id m) (ms_drive_item_id m)"
| "download E (FilesystemContentSource r) m = fs_download E r m"
| "download E (BlobContentSource prefix) m = blob_download E prefix m"

section \<open>The retrieval interface\<close>

text \<open>
  What the processor relies on: retrieval touches no store and sends nothing, and where the services
  fail as documented every failure is a \<^verbatim>\<open>GraphError\<close> or a \<^verbatim>\<open>SourceError\<close>, which the processor records
  as a failed attempt.
\<close>

fun is_retrieval_error :: "exn \<Rightarrow> bool" where
  "is_retrieval_error (GraphError _) = True"
| "is_retrieval_error (SourceError _) = True"
| "is_retrieval_error _ = False"

definition content_ok :: "'z content_env_scheme \<Rightarrow> bool" where
  "content_ok E \<longleftrightarrow> graph_ok E
     \<and> (\<forall>t u h f r b. g_get E t u h f = Inr r \<longrightarrow> hr_json r = Inr b \<longrightarrow> is_JObj b)
     \<and> (\<forall>t p e. fs_read_bytes (c_fs E t) p = Inl e \<longrightarrow> is_os_error e)
     \<and> (\<forall>t n e. b_read E t n = Inl e \<longrightarrow> is_azure_error e)
     \<and> (\<forall>t n e. b_metadata E t n = Inl e \<longrightarrow> is_azure_error e)"

locale content_retrieval =
  fixes fetch :: "'env \<Rightarrow> 'src \<Rightarrow> message \<Rightarrow> string option job"
    and load :: "'env \<Rightarrow> 'src \<Rightarrow> message \<Rightarrow> bytes job"
    and env_ok :: "'env \<Rightarrow> bool"
  assumes fetch_reads: "evolves only_reads (fetch E src m)"
    and load_reads: "evolves only_reads (load E src m)"
    and fetch_failures: "env_ok E \<Longrightarrow> raises_only is_retrieval_error (fetch E src m)"
    and load_failures: "env_ok E \<Longrightarrow> raises_only is_retrieval_error (load E src m)"
begin

lemma retrieval_failure_is_app_error:
  "env_ok E \<Longrightarrow> fetch E src m w = (Inl e, w') \<Longrightarrow> is_app_error e"
  "env_ok E \<Longrightarrow> load E src m w = (Inl e, w') \<Longrightarrow> is_app_error e"
  using raises_onlyD [OF fetch_failures] raises_onlyD [OF load_failures]
  by (metis is_app_error.simps(2,8) is_retrieval_error.elims(2))+

lemma fetch_then_load_reads: "evolves only_reads (bind_op (fetch E src m) (\<lambda>h. if P h then ret None else bind_op (load E src m) (\<lambda>d. ret (Some d))))"
  by (intro evolve_intros preorder_only_reads fetch_reads load_reads)

end

lemma reads_fs_download: "evolves only_reads (fs_download E r m)"
  unfolding fs_download_def by (intro evolve_intros preorder_only_reads)

lemma reads_read_blob: "evolves only_reads (read_blob E n)"
  unfolding read_blob_def by (intro evolve_intros preorder_only_reads)

lemma reads_blob_metadata: "evolves only_reads (read_blob_metadata E n)"
  unfolding read_blob_metadata_def by (intro evolve_intros preorder_only_reads)

lemma reads_fetch: "evolves only_reads (fetch_content_hash E src m)"
  by (cases src) (auto simp: fs_fetch_content_hash_def blob_fetch_content_hash_def blob_download_def Let_def
      intro!: evolve_intros preorder_only_reads reads_fs_download reads_read_blob reads_blob_metadata)

lemma reads_retrieval: "evolves only_reads (download E src m)"
  by (cases src) (auto simp: blob_download_def intro!: evolve_intros reads_fs_download reads_read_blob)

lemma fs_download_failures: "content_ok E \<Longrightarrow> raises_only is_retrieval_error (fs_download E r m)"
  unfolding fs_download_def
  by (intro raise_intros raises_tick)
    (auto simp: content_ok_def resolve_locator_def Let_def to_source_error_def map_sum_def split: sum.splits if_splits)

lemma read_blob_failures: "content_ok E \<Longrightarrow> raises_only is_retrieval_error (read_blob E n)"
  unfolding read_blob_def
  by (intro raise_intros raises_tick) (auto simp: content_ok_def to_source_error_def map_sum_def split: sum.splits)

lemma blob_metadata_failures: "content_ok E \<Longrightarrow> raises_only is_retrieval_error (read_blob_metadata E n)"
  unfolding read_blob_metadata_def
  by (intro raise_intros raises_tick) (auto simp: content_ok_def to_source_error_def map_sum_def split: sum.splits)

lemma graph_error_retrieval: "is_graph_error e \<Longrightarrow> is_retrieval_error e"
  by (cases e) auto

lemma raises_mono: "raises_only P m \<Longrightarrow> (\<And>e. P e \<Longrightarrow> Q e) \<Longrightarrow> raises_only Q m"
  by (fastforce simp: raises_only_def)

lemma content_hash_object: "is_JObj v \<Longrightarrow> content_hash fr v \<noteq> Inl e"
  by (cases v) (auto simp: content_hash_def json_get_def bind_result_def split: json.splits option.splits)

lemma get_json_object:
  assumes "content_ok E" and "get_json E g url w = (Inr b, w')"
  shows "is_JObj b"
proof -
  obtain resp u where "http_get E g url False ''Graph request failed: GET '' w = (Inr resp, u)" "hr_json resp = Inr b"
    using assms(2) [unfolded get_json_def]
    by (rule bind_op_eqE) (auto simp: throw_def ret_def split: sum.splits)
  then obtain t h where "g_get E t url h False = Inr resp"
    by (auto simp: http_get_def auth_header_def next_tick_def op_simps split: sum.splits option.splits prod.splits if_splits)
  with assms(1) \<open>hr_json resp = Inr b\<close> show ?thesis unfolding content_ok_def by blast
qed

lemma graph_fetch_failures:
  assumes "content_ok E"
  shows "raises_only is_retrieval_error (graph_fetch_content_hash E g d i)"
proof -
  have "is_retrieval_error e" if "bind_op (get_json E g url) (\<lambda>body. lift_op (content_hash (float_repr E) body)) w = (Inl e, w')" for url w e w'
    using that
  proof (cases rule: bind_op_eqE)
    case (raised e')
    have "graph_ok E" using assms by (simp add: content_ok_def)
    from raises_onlyD [OF get_json_failures [OF this] raised(1)] raised(2) graph_error_retrieval
    show ?thesis by simp
  next
    case (continued b u)
    then show ?thesis using content_hash_object [OF get_json_object [OF assms]] by (auto simp: lift_op_def)
  qed
  then show ?thesis unfolding raises_only_def graph_fetch_content_hash_def Let_def by blast
qed

lemma fetch_failures: "content_ok E \<Longrightarrow> raises_only is_retrieval_error (fetch_content_hash E src m)"
  by (cases src) (auto simp: fs_fetch_content_hash_def blob_fetch_content_hash_def blob_download_def Let_def
      intro!: raise_intros graph_fetch_failures fs_download_failures read_blob_failures blob_metadata_failures)

lemma retrieval_failures: "content_ok E \<Longrightarrow> raises_only is_retrieval_error (download E src m)"
  by (cases src) (auto simp: blob_download_def content_ok_def
      intro!: fs_download_failures read_blob_failures raises_mono [OF download_failures graph_error_retrieval])

interpretation retrieval: content_retrieval fetch_content_hash download content_ok
  by unfold_locales (rule reads_fetch reads_retrieval fetch_failures retrieval_failures, assumption?)+

section \<open>Retrieval depends on the point of the run only\<close>

text \<open>
  Two runs of an operation at the same tick give the same result and end at the same tick, whatever
  the stores hold.
\<close>

definition tick_local :: "'a job \<Rightarrow> bool" where
  "tick_local m \<longleftrightarrow> (\<forall>w v. w_tick w = w_tick v \<longrightarrow> fst (m w) = fst (m v) \<and> w_tick (snd (m w)) = w_tick (snd (m v)))"

lemma tick_localD:
  "tick_local m \<Longrightarrow> w_tick w = w_tick v \<Longrightarrow> fst (m w) = fst (m v) \<and> w_tick (snd (m w)) = w_tick (snd (m v))"
  unfolding tick_local_def by blast

named_theorems local_intros "operations that depend on the tick only"

lemma local_ret [local_intros]: "tick_local (ret x)"
  and local_throw [local_intros]: "tick_local (throw e)"
  and local_lift [local_intros]: "tick_local (lift_op r)"
  and local_tick [local_intros]: "tick_local next_tick"
  by (simp_all add: tick_local_def ret_def throw_def lift_op_def next_tick_def)

lemma local_bind [local_intros]:
  assumes "tick_local m" and "\<And>x. tick_local (f x)"
  shows "tick_local (bind_op m f)"
proof -
  have "fst (bind_op m f w) = fst (bind_op m f v) \<and> w_tick (snd (bind_op m f w)) = w_tick (snd (bind_op m f v))"
    if "w_tick w = w_tick v" for w v
  proof -
    obtain r t where w: "m w = (r, t)" by fastforce
    obtain r' t' where v: "m v = (r', t')" by fastforce
    have rt: "r = r'" "w_tick t = w_tick t'" using tick_localD [OF assms(1) that] w v by simp_all
    show ?thesis using tick_localD [OF assms(2) rt(2)] rt w v by (cases r) (auto simp: bind_op_def)
  qed
  then show ?thesis unfolding tick_local_def by blast
qed

lemma local_catch [local_intros]:
  assumes "tick_local m" and "\<And>e. tick_local (h e)"
  shows "tick_local (catch_op m h)"
proof -
  have "fst (catch_op m h w) = fst (catch_op m h v) \<and> w_tick (snd (catch_op m h w)) = w_tick (snd (catch_op m h v))"
    if "w_tick w = w_tick v" for w v
  proof -
    obtain r t where w: "m w = (r, t)" by fastforce
    obtain r' t' where v: "m v = (r', t')" by fastforce
    have rt: "r = r'" "w_tick t = w_tick t'" using tick_localD [OF assms(1) that] w v by simp_all
    show ?thesis using tick_localD [OF assms(2) rt(2)] rt w v by (cases r) (auto simp: catch_op_def)
  qed
  then show ?thesis unfolding tick_local_def by blast
qed

lemma local_cases [local_intros]:
  "(\<And>e. tick_local (f e)) \<Longrightarrow> (\<And>x. tick_local (g x)) \<Longrightarrow> tick_local (case r of Inl e \<Rightarrow> f e | Inr x \<Rightarrow> g x)"
  "tick_local m \<Longrightarrow> (\<And>x. tick_local (k x)) \<Longrightarrow> tick_local (case q of None \<Rightarrow> m | Some x \<Rightarrow> k x)"
  by (simp_all split: sum.split option.split)

lemma local_graph: "tick_local (graph_fetch_content_hash E g d i)" "tick_local (graph_download E g d i)"
  unfolding graph_fetch_content_hash_def graph_download_def get_json_def http_get_def auth_header_def Let_def
  by (intro local_intros)+

lemma local_fetch: "tick_local (fetch_content_hash E src m)"
  by (cases src) (auto simp: fs_fetch_content_hash_def fs_download_def blob_fetch_content_hash_def blob_download_def read_blob_def
      read_blob_metadata_def Let_def intro!: local_intros local_graph)

lemma local_download: "tick_local (download E src m)"
  by (cases src) (auto simp: fs_download_def blob_download_def read_blob_def intro!: local_intros local_graph)

section \<open>Properties\<close>

text \<open>
  Claim C21. The mounted directory is not escaped: whatever locator a message carries and however the
  file system resolves symbolic links, a download that returns bytes read them from the resolved root
  or a path below it, through a relative locator; an absolute locator and one that resolves elsewhere
  raise \<^verbatim>\<open>SourceError\<close> without any read, and a failed read raises \<^verbatim>\<open>SourceError\<close> too.
\<close>

theorem download_stays_in_root:
  assumes "content_ok E"
  shows "case download E (FilesystemContentSource r) m w of
      (Inr data, w') \<Rightarrow> only_reads w w' \<and> (\<exists>p. fs_read_bytes (c_fs E (w_tick w)) p = Inr data
         \<and> p = fs_resolve (c_fs E (w_tick w)) (path_join r (parse_path (ms_drive_item_id m)))
         \<and> (\<exists>parts. p = PPath (path_root (fs_resolve (c_fs E (w_tick w)) r)) (path_parts (fs_resolve (c_fs E (w_tick w)) r) @ parts))
         \<and> \<not> startswith (ms_drive_item_id m) ''/'')
    | (Inl e, w') \<Rightarrow> only_reads w w' \<and> (\<exists>msg. e = SourceError msg)"
proof -
  let ?F = "c_fs E (w_tick w)"
  obtain res w' where run: "download E (FilesystemContentSource r) m w = (res, w')" by fastforce
  have reads: "only_reads w w'" by (rule evolvesD [OF retrieval.load_reads run])
  have err: "res = Inl e \<Longrightarrow> \<exists>msg. e = SourceError msg" for e
    using run assms by (auto simp: fs_download_def next_tick_def op_simps resolve_locator_def Let_def to_source_error_def
        content_ok_def map_sum_def split: sum.splits if_splits)
  have abs: "is_absolute (parse_path l) \<longleftrightarrow> startswith l ''/''" for l
    by (auto simp: is_absolute_def parse_path_def root_of_def startswith_iff)
  have ok: "\<exists>p. fs_read_bytes ?F p = Inr data \<and> p = fs_resolve ?F (path_join r (parse_path (ms_drive_item_id m)))
         \<and> (\<exists>parts. p = PPath (path_root (fs_resolve ?F r)) (path_parts (fs_resolve ?F r) @ parts))
         \<and> \<not> startswith (ms_drive_item_id m) ''/''" if "res = Inr data" for data
  proof -
    let ?p = "fs_resolve ?F (path_join r (parse_path (ms_drive_item_id m)))"
    have "fs_read_bytes ?F ?p = Inr data" and "\<not> is_absolute (parse_path (ms_drive_item_id m))"
      and inside: "?p = fs_resolve ?F r \<or> in_parents (fs_resolve ?F r) ?p"
      using run that by (auto simp: fs_download_def next_tick_def op_simps resolve_locator_def Let_def map_sum_def split: sum.splits if_splits)
    moreover have "\<exists>parts. ?p = PPath (path_root (fs_resolve ?F r)) (path_parts (fs_resolve ?F r) @ parts)"
      using inside unfolding in_parents_iff by (metis append_Nil2 ppath.collapse)
    ultimately show ?thesis using abs by blast
  qed
  show ?thesis unfolding run using reads err ok by (auto split: sum.split)
qed

definition sample_content_env :: content_env where
  "sample_content_env = graph_env.extend sample_graph_env \<lparr>
     c_fs = (\<lambda>_. sample_files\<lparr>fs_read_bytes := (\<lambda>p. if p = parse_path ''/data/a.txt'' then Inr [104, 105] else Inl (OSError ''absent''))\<rparr>),
     b_read = (\<lambda>_ n. if n = ''p/a.txt'' then Inr [104, 105] else Inl (AzureError ''404'')),
     b_metadata = (\<lambda>_ _. Inr None), b_list = (\<lambda>_ _. ([\<lparr>bi_name = ''p/a.txt'', bi_metadata = None, bi_content_type = None\<rparr>], None))\<rparr>"

lemmas content_env_eval = sample_content_env_def sample_graph_env_def sample_queue_env_def queue_env.defs graph_env.defs

lemma sample_content_ok: "content_ok sample_content_env"
  by (auto simp: content_ok_def graph_ok_def content_env_eval split: if_splits)

theorem download_stays_in_root_witness:
  "fst (download sample_content_env (FilesystemContentSource (parse_path ''/data'')) sample_message empty_world) = Inr [104, 105]
   \<and> (\<exists>msg. fst (download sample_content_env (FilesystemContentSource (parse_path ''/data''))
        (sample_message\<lparr>ms_drive_item_id := ''/etc/passwd''\<rparr>) empty_world) = Inl (SourceError msg))"
proof -
  have p: "path_join (parse_path ''/data'') (parse_path ''a.txt'') = parse_path ''/data/a.txt''"
    "\<not> is_absolute (parse_path ''a.txt'')" "in_parents (parse_path ''/data'') (parse_path ''/data/a.txt'')"
    "is_absolute (parse_path ''/etc/passwd'')"
    by (simp_all add: path_eval text_eval in_parents_def)
  have one: "fst (download sample_content_env (FilesystemContentSource (parse_path ''/data'')) sample_message empty_world) = Inr [104, 105]"
    by (simp add: fs_download_def next_tick_def op_simps resolve_locator_def Let_def p content_env_eval
        sample_files_def sample_message_def empty_world_def)
  have two: "\<exists>e. fst (download sample_content_env (FilesystemContentSource (parse_path ''/data''))
        (sample_message\<lparr>ms_drive_item_id := ''/etc/passwd''\<rparr>) empty_world) = Inl e"
    by (simp add: fs_download_def next_tick_def op_simps resolve_locator_def Let_def p)
  with download_stays_in_root [OF sample_content_ok, where r = "parse_path ''/data''"
      and m = "sample_message\<lparr>ms_drive_item_id := ''/etc/passwd''\<rparr>" and w = empty_world]
  show ?thesis using one by (auto split: prod.splits sum.splits)
qed

end
