(* ===== verification/Walker.thy ===== *)
theory Walker
  imports ContentSource
begin

text \<open>
  The delta walker, \<^verbatim>\<open>src/walker.py\<close>: the budgeted loop over the pages of a Graph delta, the two-token
  \<^verbatim>\<open>sync_state\<close> and the turning of a driveItem into a candidate. The loop has fuel; running out of
  fuel is the value \<open>None\<close>. Times are in microseconds.
\<close>

section \<open>The walk\<close>

record walk_request =
  wr_drive_id :: string
  wr_root_path :: string
  wr_budget_seconds :: int

definition mime_type_of :: "json \<Rightarrow> exn + string option" where
  "mime_type_of item = bind_result (json_get item ''file'') (\<lambda>file_facet.
     Inr (case file_facet of
       JObj facet \<Rightarrow> (case map_of facet ''mimeType'' of Some (JStr mime) \<Rightarrow> Some mime | _ \<Rightarrow> None)
     | _ \<Rightarrow> None))"

text \<open>
  Graph documents \<^verbatim>\<open>id\<close> and \<^verbatim>\<open>name\<close> as strings. The code passes any other value on and the
  driver refuses it when it is bound; the candidate's fields being strings, it is refused here, before the row is looked up.
\<close>

fun required_string :: "json \<Rightarrow> exn + string" where
  "required_string (JStr s) = Inr s"
| "required_string _ = Inl (OtherError ''unsupported parameter type'')"

fun optional_string :: "json \<Rightarrow> exn + string option" where
  "optional_string JNull = Inr None"
| "optional_string (JStr s) = Inr (Some s)"
| "optional_string _ = Inl (OtherError ''unsupported parameter type'')"

definition json_index :: "json \<Rightarrow> string \<Rightarrow> exn + json" where
  "json_index v k = (case v of JObj d \<Rightarrow> (case map_of d k of Some x \<Rightarrow> Inr x | None \<Rightarrow> Inl (KeyError k))
     | _ \<Rightarrow> Inl (OtherError ''object is not subscriptable''))"

text \<open>The candidate of a driveItem; \<open>None\<close> for a tombstone, a folder or an item without a hash.\<close>

definition item_candidate :: "(pyfloat \<Rightarrow> string) \<Rightarrow> json \<Rightarrow> exn + document_candidate option" where
  "item_candidate fr item =
     bind_result (json_get item ''deleted'') (\<lambda>deleted.
     if deleted \<noteq> JNull then Inr None
     else bind_result (content_hash fr item) (\<lambda>new_hash.
       case new_hash of
         None \<Rightarrow> Inr None
       | Some h \<Rightarrow>
           bind_result (bind_result (json_index item ''id'') required_string) (\<lambda>i.
           bind_result (bind_result (json_get item ''name'') optional_string) (\<lambda>n.
           bind_result (mime_type_of item) (\<lambda>mime.
           bind_result (folder_path item) (\<lambda>fp.
           Inr (Some \<lparr>ca_drive_item_id = i, ca_content_hash = h, ca_file_name = n,
             ca_mime_type = mime, ca_folder_path = fp\<rparr>)))))))"

definition process_item :: "'z content_env_scheme \<Rightarrow> string \<Rightarrow> int \<Rightarrow> json \<Rightarrow> unit job" where
  "process_item E drive_id sync item = bind_op (lift_op (item_candidate (float_repr E) item)) (\<lambda>c.
     case c of None \<Rightarrow> ret () | Some cand \<Rightarrow> enqueue_if_needed E sync drive_id Ms_sharepoint cand)"

definition begin_walk :: "'z content_env_scheme \<Rightarrow> string \<Rightarrow> int job" where
  "begin_walk E drive_id = bind_op (one_or_none E t_sync_state (\<lambda>s. ss_drive_id s = drive_id)) (\<lambda>existing.
     case existing of
       None \<Rightarrow> bind_op (insert_sync E ((new_sync_state drive_id)\<lparr>ss_walk_status := Ws_walking\<rparr>)) (\<lambda>i.
         then_op (commit E) (ret i))
     | Some s \<Rightarrow> then_op (set_sync E (ss_id s) (\<lambda>r. r\<lparr>ss_walk_status := Ws_walking\<rparr>))
         (then_op (commit E) (ret (ss_id s))))"

definition start_url :: "sync_state \<Rightarrow> string option" where
  "start_url s = (if truthy (ss_resume_token s) then ss_resume_token s else ss_delta_token s)"

definition complete_walk :: "'z content_env_scheme \<Rightarrow> int \<Rightarrow> string \<Rightarrow> walk_status job" where
  "complete_walk E sync delta_link = bind_op (utc_now E) (\<lambda>t.
     then_op (set_sync E sync (\<lambda>r. r\<lparr>ss_delta_token := Some delta_link, ss_resume_token := None,
       ss_walk_status := Ws_completed, ss_last_synced_at := Some t\<rparr>))
     (then_op (commit E) (ret Ws_completed)))"

text \<open>
  The link an interrupted walk stores is one Graph gave, a string; any other value, which the driver would refuse at the
  commit, is refused before the row is touched.
\<close>

definition interrupt_walk :: "'z content_env_scheme \<Rightarrow> int \<Rightarrow> string \<Rightarrow> walk_status job" where
  "interrupt_walk E sync resume_link =
     then_op (set_sync E sync (\<lambda>r. r\<lparr>ss_resume_token := Some resume_link, ss_walk_status := Ws_interrupted\<rparr>))
     (then_op (commit E) (ret Ws_interrupted))"

fun walk_loop ::
  "'z content_env_scheme \<Rightarrow> graph_client \<Rightarrow> string \<Rightarrow> int \<Rightarrow> datetime \<Rightarrow> nat \<Rightarrow> delta_gen \<Rightarrow> walk_status option job" where
  "walk_loop E g drive_id sync deadline 0 gen = ret None"
| "walk_loop E g drive_id sync deadline (Suc n) gen =
     bind_op (next_page E g drive_id gen) (\<lambda>r. case r of
       Inr delta_link \<Rightarrow> bind_op (complete_walk E sync delta_link) (\<lambda>st. ret (Some st))
     | Inl (page, gen') \<Rightarrow>
         bind_op (lift_op (json_iter (dp_items page))) (\<lambda>items.
         then_op (for_each (process_item E drive_id sync) items)
         (if dp_next_link page = JNull then walk_loop E g drive_id sync deadline n gen'
          else bind_op (utc_now E) (\<lambda>t.
            if t \<ge> deadline
            then bind_op (lift_op (as_url (dp_next_link page))) (\<lambda>link.
              bind_op (interrupt_walk E sync link) (\<lambda>st. ret (Some st)))
            else walk_loop E g drive_id sync deadline n gen'))))"

definition walk :: "'z content_env_scheme \<Rightarrow> graph_client \<Rightarrow> walk_request \<Rightarrow> nat \<Rightarrow> walk_status option job" where
  "walk E g rq fuel =
     bind_op (begin_walk E (wr_drive_id rq)) (\<lambda>sync.
     bind_op (utc_now E) (\<lambda>t.
     bind_op (load_sync E sync) (\<lambda>s.
     walk_loop E g (wr_drive_id rq) sync (t + wr_budget_seconds rq * 1000000) fuel
       (delta_pages g (wr_drive_id rq) (start_url s) (Some (wr_root_path rq))))))"

section \<open>Termination\<close>

text \<open>Every step of the loop makes calls, so the call counter grows with the pages fetched.\<close>

definition ticks_on :: "world \<Rightarrow> world \<Rightarrow> bool" where
  "ticks_on w w' \<longleftrightarrow> w_tick w \<le> w_tick w'"

lemma preorder_ticks [simp, intro]: "preorder_rel ticks_on"
  by (auto simp: preorder_rel_def ticks_on_def)

lemma tick_tick [evolve_intros]: "evolves ticks_on next_tick"
  by (simp add: evolves_def next_tick_def ticks_on_def)

lemma tick_event [evolve_intros]: "evolves ticks_on (record_event ev)"
  by (simp add: evolves_def record_event_def modify_op_def ticks_on_def)

lemma tick_clock [evolve_intros]: "evolves ticks_on (utc_now E)"
  unfolding utc_now_def by (intro evolve_intros preorder_ticks)

lemma tick_call [evolve_intros]: "evolves ticks_on (db_call E)"
  unfolding db_call_def by (intro evolve_intros preorder_ticks)

lemma tick_flush [evolve_intros]: "evolves ticks_on (flush E)"
  unfolding flush_def by (rule tick_call)

lemma tick_query [evolve_intros]: "evolves ticks_on (one_or_none E table p)"
proof -
  have "evolves ticks_on (case rows of [] \<Rightarrow> ret None | [r] \<Rightarrow> ret (Some r) | _ \<Rightarrow> throw e)" for rows e
    by (cases rows; cases "tl rows") (auto intro: evolve_intros)
  then show ?thesis unfolding one_or_none_def by (intro evolve_intros preorder_ticks)
qed

lemma tick_load_sync [evolve_intros]: "evolves ticks_on (load_sync E i)"
  unfolding load_sync_def load_row_def by (intro evolve_intros preorder_ticks)

lemma tick_set_document [evolve_intros]: "evolves ticks_on (set_document E i f)"
  by (simp add: evolves_def set_document_eq ticks_on_def)

lemma tick_insert_document [evolve_intros]: "evolves ticks_on (insert_document E d)"
  unfolding insert_document_def
  by (intro evolve_intros preorder_ticks evolvesI) (simp add: Let_def ticks_on_def)

lemma tick_commit [evolve_intros]: "evolves ticks_on (commit E)"
  unfolding commit_def by (intro evolve_intros preorder_ticks evolvesI) (simp add: ticks_on_def)

lemma tick_enqueue [evolve_intros]: "evolves ticks_on (enqueue E m)"
  unfolding enqueue_def by (intro evolve_intros preorder_ticks)

lemma tick_enqueue_if_needed [evolve_intros]: "evolves ticks_on (enqueue_if_needed E sync d src c)"
  unfolding enqueue_if_needed_def existing_document_def queue_document_def upsert_queued_row_def Let_def
  by (intro evolve_intros preorder_ticks)

lemma tick_process_item [evolve_intros]: "evolves ticks_on (process_item E d sync item)"
  unfolding process_item_def by (intro evolve_intros preorder_ticks)

lemma next_page_ticks:
  assumes "next_page E g drive_id (Fetching link) w = (Inr r, w')"
  shows "w_tick w < w_tick w'"
proof -
  obtain url p u where "get_json E g url w = (Inr p, u)" and "w' = u"
    using assms by (auto simp: next_page_def lift_op_def then_op_def elim!: bind_op_eqE) (auto simp: op_simps split: sum.splits prod.splits)
  then show ?thesis
    by (auto simp: get_json_def http_get_def auth_header_def next_tick_def op_simps
        split: prod.splits sum.splits option.splits if_splits)
qed

lemma next_page_shape:
  "next_page E g drive_id gen w = (Inr (Inl (page, gen')), w') \<Longrightarrow>
     (\<exists>link. gen = Fetching link) \<and> gen' = (if dp_next_link page = JNull then gen' else Fetching (dp_next_link page))
     \<and> (dp_next_link page = JNull \<longrightarrow> (\<exists>p. gen' = Finishing p))"
  by (cases gen) (auto simp: next_page_def lift_op_def throw_def ret_def elim!: bind_op_eqE split: if_splits)

lemma next_page_finishing: "next_page E g drive_id (Finishing p) w \<noteq> (Inr (Inl x), w')"
  by (auto simp: next_page_def lift_op_def throw_def ret_def elim!: bind_op_eqE split: if_splits)

lemma not_none_status: "bind_op m (\<lambda>st. ret (Some st)) w \<noteq> (Inr None, w')"
  by (auto simp: ret_def elim!: bind_op_eqE)

lemma not_none_interrupt: "bind_op (lift_op x) (\<lambda>link. bind_op (f link) (\<lambda>st. ret (Some st))) w \<noteq> (Inr None, w')"
  using not_none_status by (cases x) (fastforce simp: lift_op_def bind_op_def)+

lemma walk_loop_returns:
  assumes late: "\<And>t. T \<le> t \<Longrightarrow> deadline \<le> py_now E t"
    and "T + 2 \<le> n + w_tick w" and "2 \<le> n \<or> (1 \<le> n \<and> (\<exists>p. gen = Finishing p))"
  shows "fst (walk_loop E g drive_id sync deadline n gen w) \<noteq> Inr None"
  using assms(2,3)
proof (induction n arbitrary: gen w)
  case 0
  then show ?case by simp
next
  case (Suc n)
  show ?case
  proof
    assume none: "fst (walk_loop E g drive_id sync deadline (Suc n) gen w) = Inr None"
    then obtain w' where run: "walk_loop E g drive_id sync deadline (Suc n) gen w = (Inr None, w')"
      by (metis prod.collapse)
    then obtain r u where np: "next_page E g drive_id gen w = (Inr r, u)" and
      k: "(case r of Inr delta_link \<Rightarrow> bind_op (complete_walk E sync delta_link) (\<lambda>st. ret (Some st))
        | Inl (page, gen') \<Rightarrow>
         bind_op (lift_op (json_iter (dp_items page))) (\<lambda>items.
         then_op (for_each (process_item E drive_id sync) items)
         (if dp_next_link page = JNull then walk_loop E g drive_id sync deadline n gen'
          else bind_op (utc_now E) (\<lambda>t.
            if t \<ge> deadline
            then bind_op (lift_op (as_url (dp_next_link page))) (\<lambda>link.
              bind_op (interrupt_walk E sync link) (\<lambda>st. ret (Some st)))
            else walk_loop E g drive_id sync deadline n gen'))))  u = (Inr None, w')"
      unfolding walk_loop.simps by (auto elim!: bind_op_eqE)
    obtain page gen' where r: "r = Inl (page, gen')"
    proof (cases r)
      case (Inr l)
      with k show ?thesis using not_none_status by fastforce
    qed auto
    obtain link where gen: "gen = Fetching link" using next_page_shape np r by blast
    then have n2: "1 \<le> n" using Suc.prems by auto
    have tick: "w_tick w < w_tick u" using next_page_ticks np gen by blast
    from k r obtain items v where items: "for_each (process_item E drive_id sync) items u = (Inr (), v)" and
      k2: "(if dp_next_link page = JNull then walk_loop E g drive_id sync deadline n gen'
          else bind_op (utc_now E) (\<lambda>t.
            if t \<ge> deadline
            then bind_op (lift_op (as_url (dp_next_link page))) (\<lambda>link.
              bind_op (interrupt_walk E sync link) (\<lambda>st. ret (Some st)))
            else walk_loop E g drive_id sync deadline n gen')) v = (Inr None, w')"
      by (auto simp: lift_op_def then_op_def elim!: bind_op_eqE)
    have "evolves ticks_on (for_each (process_item E drive_id sync) items)"
      by (intro evolve_intros preorder_ticks)
    from evolvesD [OF this items] have uv: "w_tick u \<le> w_tick v" by (simp add: ticks_on_def)
    show False
    proof (cases "dp_next_link page = JNull")
      case True
      then obtain p where "gen' = Finishing p" using next_page_shape np r by blast
      then have "fst (walk_loop E g drive_id sync deadline n gen' v) \<noteq> Inr None"
        using Suc.IH [of v gen'] Suc.prems(1) tick uv n2 by simp
      with k2 True show False by simp
    next
      case False
      let ?x = "v\<lparr>w_tick := Suc (w_tick v)\<rparr>"
      have now: "utc_now E v = (Inr (py_now E (w_tick v)), ?x)" by (simp add: utc_now_def next_tick_def op_simps)
      show False
      proof (cases "deadline \<le> py_now E (w_tick v)")
        case True
        with k2 False now show False
          by (simp add: bind_op_def [of "utc_now E"] not_none_interrupt)
      next
        case early: False
        then have "w_tick v < T" using late by (meson not_le_imp_less)
        then have "fst (walk_loop E g drive_id sync deadline n gen' ?x) \<noteq> Inr None"
          using Suc.IH [of ?x gen'] Suc.prems(1) tick uv by simp
        with k2 False now early show False by (simp add: bind_op_def [of "utc_now E"])
      qed
    qed
  qed
qed

section \<open>Constraints\<close>

lemma ok_set_sync_fields:
  "(\<And>r. ss_id (f r) = ss_id r \<and> ss_drive_id (f r) = ss_drive_id r) \<Longrightarrow>
     evolves (keeps world_ok) (then_op (set_sync E i f) (then_op (commit E) (ret st)))"
  by (intro evolve_intros preorder_keeps ok_set_sync)

lemma ok_begin_walk: "evolves (keeps world_ok) (begin_walk E d)"
  unfolding begin_walk_def by (intro evolve_intros preorder_keeps ok_set_sync_fields) simp

section \<open>The position of the walk\<close>

definition syncs_same :: "store \<Rightarrow> store \<Rightarrow> bool" where
  "syncs_same s t \<longleftrightarrow> t_sync_state t = t_sync_state s"

interpretation syncs: store_preorder syncs_same
  by unfold_locales (simp_all add: syncs_same_def)

lemma process_item_syncs: "evolves (store_rel syncs_same) (process_item E drive_id sync item)"
proof -
  have "evolves (store_rel syncs_same) (set_document E i f)" for i f
    by (rule syncs.setting_document) (simp add: syncs_same_def)
  moreover have "evolves (store_rel syncs_same) (insert_document E d)" for d
    by (rule syncs.inserting_document) (simp add: syncs_same_def)
  ultimately show ?thesis unfolding process_item_def
    by (intro evolve_intros syncs.wpre syncs.enqueuing)
qed

lemma process_items_syncs: "evolves (store_rel syncs_same) (for_each (process_item E drive_id sync) items)"
  by (intro evolve_intros syncs.wpre process_item_syncs)

definition sync_clean :: "world \<Rightarrow> bool" where
  "sync_clean w \<longleftrightarrow> t_sync_state (w_work w) = t_sync_state (w_durable w)"

lemma syncs_same_clean:
  "store_rel syncs_same w w' \<Longrightarrow> sync_clean w \<Longrightarrow> sync_clean w' \<and> t_sync_state (w_durable w') = t_sync_state (w_durable w)"
  by (simp add: store_rel_def syncs_same_def sync_clean_def)

lemma only_reads_clean:
  "only_reads w w' \<Longrightarrow> sync_clean w \<Longrightarrow> sync_clean w' \<and> t_sync_state (w_durable w') = t_sync_state (w_durable w)"
  using only_reads_stores [of w w'] by (simp add: sync_clean_def)

lemma set_sync_eq:
  "set_sync E i f w = (Inr (), w\<lparr>w_work := (w_work w)\<lparr>t_sync_state :=
     update_where (\<lambda>r. ss_id r = i) (touch_sync (db_now E (w_txn w)) f) (t_sync_state (w_work w))\<rparr>\<rparr>)"
  by (simp add: set_sync_def modify_store_def op_simps)

definition sync_set :: "int \<Rightarrow> (sync_state \<Rightarrow> sync_state) \<Rightarrow> world \<Rightarrow> world \<Rightarrow> bool" where
  "sync_set sync f w w' \<longleftrightarrow> (\<exists>now. t_sync_state (w_durable w')
     = update_where (\<lambda>r. ss_id r = sync) (touch_sync now f) (t_sync_state (w_durable w)))"

lemma close_walk:
  assumes "then_op (set_sync E sync f) (then_op (commit E) (ret st)) w = (r, w')" and "sync_clean w"
  shows "(r = Inr st \<and> sync_set sync f w w') \<or> (\<exists>e. r = Inl e \<and> t_sync_state (w_durable w') = t_sync_state (w_durable w))"
proof -
  let ?w = "w\<lparr>w_work := (w_work w)\<lparr>t_sync_state :=
     update_where (\<lambda>r. ss_id r = sync) (touch_sync (db_now E (w_txn w)) f) (t_sync_state (w_work w))\<rparr>\<rparr>"
  obtain cr u where cm: "commit E ?w = (cr, u)" by fastforce
  from commit_result [OF cm] cm assms show ?thesis
    by (auto simp: then_op_def bind_op_def set_sync_eq ret_def sync_set_def sync_clean_def)
qed

text \<open>How the loop ends: what it returned, and what became of the rows of \<^verbatim>\<open>sync_state\<close>.\<close>

definition loop_outcome :: "int \<Rightarrow> exn + walk_status option \<Rightarrow> world \<Rightarrow> world \<Rightarrow> bool" where
  "loop_outcome sync r w w' \<longleftrightarrow>
     (\<exists>link t. r = Inr (Some Ws_completed) \<and> sync_set sync (\<lambda>r. r\<lparr>ss_delta_token := Some link, ss_resume_token := None,
        ss_walk_status := Ws_completed, ss_last_synced_at := Some t\<rparr>) w w')
     \<or> (\<exists>link. r = Inr (Some Ws_interrupted) \<and> sync_set sync (\<lambda>r. r\<lparr>ss_resume_token := Some link, ss_walk_status := Ws_interrupted\<rparr>) w w')
     \<or> ((r = Inr None \<or> (\<exists>e. r = Inl e)) \<and> t_sync_state (w_durable w') = t_sync_state (w_durable w))"

lemma loop_outcome_from:
  "loop_outcome sync r v w' \<Longrightarrow> t_sync_state (w_durable v) = t_sync_state (w_durable w) \<Longrightarrow> loop_outcome sync r w w'"
  by (auto simp: loop_outcome_def sync_set_def)

lemma utc_now_eq: "utc_now E w = (Inr (py_now E (w_tick w)), w\<lparr>w_tick := Suc (w_tick w)\<rparr>)"
  by (simp add: utc_now_def next_tick_def op_simps)

lemma raised_outcome:
  "r = Inr None \<or> (\<exists>e. r = Inl e) \<Longrightarrow> t_sync_state (w_durable w') = t_sync_state (w_durable w) \<Longrightarrow> loop_outcome sync r w w'"
  by (simp add: loop_outcome_def)

lemma complete_walk_outcome:
  assumes "bind_op (complete_walk E sync link) (\<lambda>st. ret (Some st)) w = (r, w')" and "sync_clean w"
  shows "loop_outcome sync r w w'"
proof -
  let ?w = "w\<lparr>w_tick := Suc (w_tick w)\<rparr>" and ?t = "py_now E (w_tick w)"
  let ?f = "\<lambda>r. r\<lparr>ss_delta_token := Some link, ss_resume_token := None,
       ss_walk_status := Ws_completed, ss_last_synced_at := Some ?t\<rparr>"
  let ?m = "then_op (set_sync E sync ?f) (then_op (commit E) (ret Ws_completed))"
  obtain cr u where c: "?m ?w = (cr, u)" by fastforce
  have run: "complete_walk E sync link w = (cr, u)"
    unfolding complete_walk_def run_bind_Inr [of "utc_now E", OF utc_now_eq] by (rule c)
  have clean: "sync_clean ?w" using assms(2) by (simp add: sync_clean_def)
  from close_walk [OF c clean] show ?thesis
  proof (elim disjE exE conjE)
    assume "cr = Inr Ws_completed" and set: "sync_set sync ?f ?w u"
    then have "r = Inr (Some Ws_completed)" "w' = u" using assms(1) run by (simp_all add: run_simps ret_def)
    moreover from set have "sync_set sync ?f w u" by (simp add: sync_set_def)
    ultimately show ?thesis unfolding loop_outcome_def by blast
  next
    fix e
    assume "cr = Inl e" "t_sync_state (w_durable u) = t_sync_state (w_durable ?w)"
    then show ?thesis using assms(1) run by (intro raised_outcome) (auto simp: run_simps)
  qed
qed

lemma interrupt_walk_outcome:
  assumes "bind_op (interrupt_walk E sync link) (\<lambda>st. ret (Some st)) w = (r, w')" and "sync_clean w"
  shows "loop_outcome sync r w w'"
proof -
  obtain cr u where c: "interrupt_walk E sync link w = (cr, u)" by fastforce
  from close_walk [OF c [unfolded interrupt_walk_def] assms(2)] show ?thesis
  proof (elim disjE exE conjE)
    assume "cr = Inr Ws_interrupted" and "sync_set sync (\<lambda>r. r\<lparr>ss_resume_token := Some link, ss_walk_status := Ws_interrupted\<rparr>) w u"
    then show ?thesis using assms(1) c unfolding loop_outcome_def by (auto simp: run_simps ret_def)
  next
    fix e
    assume "cr = Inl e" "t_sync_state (w_durable u) = t_sync_state (w_durable w)"
    then show ?thesis using assms(1) c by (intro raised_outcome) (auto simp: run_simps)
  qed
qed

text \<open>The end of an iteration: the budget check of a page that has a successor.\<close>

lemma after_page_outcome:
  assumes IH: "\<forall>gen w r w'. walk_loop E g drive_id sync deadline n gen w = (r, w') \<longrightarrow> sync_clean w \<longrightarrow> loop_outcome sync r w w'"
    and run: "(if dp_next_link page = JNull then walk_loop E g drive_id sync deadline n gen'
      else bind_op (utc_now E) (\<lambda>t.
        if t \<ge> deadline
        then bind_op (lift_op (as_url (dp_next_link page))) (\<lambda>link.
          bind_op (interrupt_walk E sync link) (\<lambda>st. ret (Some st)))
        else walk_loop E g drive_id sync deadline n gen')) v = (r, w')"
    and v: "sync_clean v"
  shows "loop_outcome sync r v w'"
proof -
  let ?x = "v\<lparr>w_tick := Suc (w_tick v)\<rparr>"
  have x: "sync_clean ?x" "t_sync_state (w_durable ?x) = t_sync_state (w_durable v)" using v by (simp_all add: sync_clean_def)
  consider (last) "dp_next_link page = JNull" | (go_on) "dp_next_link page \<noteq> JNull" "\<not> deadline \<le> py_now E (w_tick v)"
    | (bad) e where "dp_next_link page \<noteq> JNull" "deadline \<le> py_now E (w_tick v)" "as_url (dp_next_link page) = Inl e"
    | (stop) link where "dp_next_link page \<noteq> JNull" "deadline \<le> py_now E (w_tick v)" "as_url (dp_next_link page) = Inr link"
    by (cases "as_url (dp_next_link page)") auto
  then show ?thesis
  proof cases
    case last
    with run IH v show ?thesis by simp
  next
    case go_on
    with run have "walk_loop E g drive_id sync deadline n gen' ?x = (r, w')" by (simp add: run_bind_Inr [OF utc_now_eq])
    with IH x(1) have "loop_outcome sync r ?x w'" by blast
    then show ?thesis using x(2) by (rule loop_outcome_from)
  next
    case bad
    with run x show ?thesis by (intro raised_outcome) (auto simp: run_bind_Inr [OF utc_now_eq] throw_def)
  next
    case stop
    with run have "bind_op (interrupt_walk E sync link) (\<lambda>st. ret (Some st)) ?x = (r, w')"
      by (simp add: run_bind_Inr [OF utc_now_eq])
    from interrupt_walk_outcome [OF this x(1)] x(2) show ?thesis by (rule loop_outcome_from)
  qed
qed

lemma walk_loop_outcome:
  "walk_loop E g drive_id sync deadline n gen w = (r, w') \<Longrightarrow> sync_clean w \<Longrightarrow> loop_outcome sync r w w'"
proof (induction n arbitrary: gen w r w')
  case 0
  then show ?case by (intro raised_outcome) (auto simp: ret_def)
next
  case (Suc n)
  obtain p u where np: "next_page E g drive_id gen w = (p, u)" by fastforce
  note u = only_reads_clean [OF evolvesD [OF reads_next_page np] Suc.prems(2)]
  consider (failed) e where "p = Inl e" | (finished) link where "p = Inr (Inr link)"
    | (unreadable) page gen' e where "p = Inr (Inl (page, gen'))" "json_iter (dp_items page) = Inl e"
    | (page) page gen' items where "p = Inr (Inl (page, gen'))" "json_iter (dp_items page) = Inr items"
    by (metis sum.exhaust prod.exhaust)
  then show ?case
  proof cases
    case failed
    with np Suc.prems(1) u show ?thesis by (intro raised_outcome) (auto simp: run_simps)
  next
    case finished
    with np Suc.prems(1) have "bind_op (complete_walk E sync link) (\<lambda>st. ret (Some st)) u = (r, w')" by (simp add: run_simps)
    with complete_walk_outcome u show ?thesis by (blast intro: loop_outcome_from)
  next
    case unreadable
    with np Suc.prems(1) u show ?thesis by (intro raised_outcome) (auto simp: run_simps throw_def)
  next
    case page
    obtain q v where items: "for_each (process_item E drive_id sync) items u = (q, v)" by fastforce
    have "store_rel syncs_same u v" by (rule evolvesD [OF process_items_syncs items])
    with u have v: "sync_clean v" "t_sync_state (w_durable v) = t_sync_state (w_durable w)"
      using syncs_same_clean by metis+
    show ?thesis
    proof (cases q)
      case (Inl e)
      with np Suc.prems(1) page items v show ?thesis by (intro raised_outcome) (auto simp: run_simps)
    next
      case (Inr x)
      with np Suc.prems(1) page items have "(if dp_next_link page = JNull then walk_loop E g drive_id sync deadline n gen'
        else bind_op (utc_now E) (\<lambda>t.
          if t \<ge> deadline
          then bind_op (lift_op (as_url (dp_next_link page))) (\<lambda>link.
            bind_op (interrupt_walk E sync link) (\<lambda>st. ret (Some st)))
          else walk_loop E g drive_id sync deadline n gen')) v = (r, w')"
        by (simp add: run_bind_Inr [of "next_page E g drive_id gen"] run_then_Inr [where x = "()"])
      moreover have "\<forall>gen w r w'. walk_loop E g drive_id sync deadline n gen w = (r, w') \<longrightarrow> sync_clean w \<longrightarrow> loop_outcome sync r w w'"
        using Suc.IH by blast
      ultimately have "loop_outcome sync r v w'" using after_page_outcome v(1) by blast
      then show ?thesis using v(2) by (rule loop_outcome_from)
    qed
  qed
qed

definition sync_of :: "store \<Rightarrow> string \<Rightarrow> sync_state option" where
  "sync_of s drive_id = find (\<lambda>r. ss_drive_id r = drive_id) (t_sync_state s)"

text \<open>The position a row records.\<close>

definition position :: "sync_state option \<Rightarrow> string option \<times> string option \<times> datetime option" where
  "position s = (case s of None \<Rightarrow> (None, None, None) | Some r \<Rightarrow> (ss_delta_token r, ss_resume_token r, ss_last_synced_at r))"

lemma sync_of_cong: "t_sync_state s = t_sync_state t \<Longrightarrow> sync_of s d = sync_of t d"
  by (simp add: sync_of_def)

lemma sync_of_update:
  assumes "distinct (map ss_id (t_sync_state s))" and "sync_of s d = Some r"
    and "\<And>x. ss_id (f x) = ss_id x \<and> ss_drive_id (f x) = ss_drive_id x"
    and "t_sync_state t = update_where (\<lambda>x. ss_id x = ss_id r) (touch_sync now f) (t_sync_state s)"
  shows "\<exists>u. sync_of t d = Some ((f r)\<lparr>ss_updated_at := u\<rparr>)"
proof -
  have "sync_of t d = Some (touch_sync now f r)"
    unfolding sync_of_def assms(4)
    by (rule find_update_where [where key = ss_drive_id, OF assms(1,2) [unfolded sync_of_def]]) (simp add: touch_sync_def assms(3))
  then show ?thesis using sync_state.surjective [of r]
    by (cases "f r = r") (auto simp: touch_sync_def intro: exI [of _ "ss_updated_at r"])
qed

lemma insert_sync_result:
  assumes "insert_sync E r w = (res, u)"
  shows "w_durable u = w_durable w \<and> (case res of Inl e \<Rightarrow> is_sqlalchemy_error e
    | Inr i \<Rightarrow> i = w_next_sync w \<and> ss_drive_id r \<notin> ss_drive_id ` set (t_sync_state (w_work w))
        \<and> w_work u = (w_work w)\<lparr>t_sync_state := t_sync_state (w_work w)
              @ [r\<lparr>ss_id := i, ss_created_at := db_now E (w_txn w), ss_updated_at := db_now E (w_txn w)\<rparr>]\<rparr>)"
  using assms
  by (cases rule: db_call_cases [of E w])
    (auto simp: insert_sync_def then_op_def bind_op_def Let_def integrity_error_def split: if_splits)

lemma begin_walk_outcome:
  assumes ok: "world_ok w" and same: "w_work w = w_durable w" and run: "begin_walk E d w = (r, u)"
  shows "case r of
      Inl e \<Rightarrow> t_sync_state (w_durable u) = t_sync_state (w_durable w)
    | Inr i \<Rightarrow> sync_clean u \<and> (\<exists>s. sync_of (w_durable u) d = Some s \<and> ss_id s = i \<and> ss_walk_status s = Ws_walking
        \<and> position (Some s) = position (sync_of (w_durable w) d))
        \<and> (\<forall>s. sync_of (w_durable w) d = Some s \<longrightarrow> ss_id s = i)"
proof -
  obtain q x where q: "one_or_none E t_sync_state (\<lambda>s. ss_drive_id s = d) w = (q, x)" by fastforce
  note x = only_reads_stores [OF evolvesD [OF reads_query q]]
  show ?thesis
  proof (cases q)
    case (Inl e)
    with q run x show ?thesis by (auto simp: begin_walk_def run_simps)
  next
    case (Inr existing)
    then have ex: "existing = sync_of (w_work w) d"
      using one_or_none_Inr [OF q [unfolded Inr]] by (auto simp: sync_of_def find_filter split: option.splits)
    show ?thesis
    proof (cases existing)
      case None
      let ?r = "(new_sync_state d)\<lparr>ss_walk_status := Ws_walking\<rparr>"
      obtain i y where ins: "insert_sync E ?r x = (i, y)" by fastforce
      note y = insert_sync_result [OF ins]
      show ?thesis
      proof (cases i)
        case (Inl e)
        with q run None \<open>q = Inr existing\<close> ins x y show ?thesis by (auto simp: begin_walk_def run_simps)
      next
        case (Inr n)
        obtain cr z where cm: "commit E y = (cr, z)" by fastforce
        let ?row = "?r\<lparr>ss_id := n, ss_created_at := db_now E (w_txn x), ss_updated_at := db_now E (w_txn x)\<rparr>"
        have "d \<notin> ss_drive_id ` set (t_sync_state (w_work x))" using y Inr by (simp add: new_sync_state_def)
        then have "sync_of (w_work y) d = Some ?row"
          using y Inr unfolding sync_of_def by (simp add: find_append_new [where key = ss_drive_id] new_sync_state_def)
        with commit_result [OF cm] cm q run None \<open>q = Inr existing\<close> ins x y Inr ex [symmetric] same show ?thesis
          by (auto simp: begin_walk_def run_simps ret_def sync_clean_def position_def new_sync_state_def)
      qed
    next
      case (Some s)
      let ?f = "\<lambda>r. r\<lparr>ss_walk_status := Ws_walking\<rparr>"
      let ?x = "x\<lparr>w_work := (w_work x)\<lparr>t_sync_state :=
        update_where (\<lambda>r. ss_id r = ss_id s) (touch_sync (db_now E (w_txn x)) ?f) (t_sync_state (w_work x))\<rparr>\<rparr>"
      obtain cr z where cm: "commit E ?x = (cr, z)" by fastforce
      have "distinct (map ss_id (t_sync_state (w_work w)))" using ok by (simp add: world_ok_def store_ok_def)
      then obtain v where v: "sync_of (w_work ?x) d = Some ((?f s)\<lparr>ss_updated_at := v\<rparr>)"
        using sync_of_update [of "w_work w" d s ?f "w_work ?x"] ex Some x by auto
      have "(r, u) = then_op (commit E) (ret (ss_id s)) ?x"
        using q run Some Inr by (simp add: begin_walk_def run_bind_Inr [of "one_or_none _ _ _"] run_then_Inr [OF set_sync_eq])
      with commit_result [OF cm] cm x v ex [symmetric] Some same show ?thesis
        by (auto simp: run_simps ret_def sync_clean_def position_def)
    qed
  qed
qed

section \<open>Frames of a walk\<close>

text \<open>
  What a walk may change, whichever the source, is a preorder on worlds that its elementary operations
  respect: reading, queuing a candidate, writing the walk's row of \<^verbatim>\<open>sync_state\<close> and committing. What a
  producer keeps is an instance of it.
\<close>

locale walk_frame =
  fixes E :: "'z content_env_scheme"
    and R :: "world \<Rightarrow> world \<Rightarrow> bool"
  assumes pre: "preorder_rel R"
    and reading: "only_reads w w' \<Longrightarrow> R w w'"
    and queuing: "evolves R (enqueue_if_needed E sync d src c)"
    and setting_sync: "(\<And>r. ss_id (f r) = ss_id r \<and> ss_drive_id (f r) = ss_drive_id r) \<Longrightarrow> evolves R (set_sync E i f)"
    and inserting_sync: "evolves R (insert_sync E r)"
    and commits: "evolves R (commit E)"
begin

lemma reads: "evolves only_reads m \<Longrightarrow> evolves R m"
  by (auto simp: evolves_def intro: reading)

lemma begin_walk_frame: "evolves R (begin_walk E d)"
  unfolding begin_walk_def
  by (intro evolve_intros pre reads [OF reads_query] inserting_sync commits setting_sync) auto

lemma walk_end_frame: "evolves R (complete_walk E sync link)" "evolves R (interrupt_walk E sync link)"
  unfolding complete_walk_def interrupt_walk_def
  by (intro evolve_intros pre reads [OF reads_clock] commits setting_sync; simp)+

lemma process_item_frame: "evolves R (process_item E d sync item)"
  unfolding process_item_def by (intro evolve_intros pre queuing)

lemma walk_loop_frame: "evolves R (walk_loop E g d sync deadline n gen)"
proof (induction n arbitrary: gen)
  case 0
  show ?case by (simp add: evolves_ret [OF pre])
next
  case (Suc n)
  have step: "evolves R (case r of Inr delta_link \<Rightarrow> bind_op (complete_walk E sync delta_link) (\<lambda>st. ret (Some st))
     | Inl (page, gen') \<Rightarrow>
         bind_op (lift_op (json_iter (dp_items page))) (\<lambda>items.
         then_op (for_each (process_item E d sync) items)
         (if dp_next_link page = JNull then walk_loop E g d sync deadline n gen'
          else bind_op (utc_now E) (\<lambda>t.
            if t \<ge> deadline
            then bind_op (lift_op (as_url (dp_next_link page))) (\<lambda>link.
              bind_op (interrupt_walk E sync link) (\<lambda>st. ret (Some st)))
            else walk_loop E g d sync deadline n gen'))))" for r
    using Suc.IH
    by (cases r) (auto intro!: evolve_intros pre reads [OF reads_clock] process_item_frame walk_end_frame split: prod.split)
  show ?case unfolding walk_loop.simps by (rule evolves_bind [OF pre reads [OF reads_next_page] step])
qed

lemma walk_frame: "evolves R (walk E g rq n)"
  unfolding walk_def
  by (intro evolve_intros pre begin_walk_frame reads [OF reads_clock] reads [OF reads_load_sync] walk_loop_frame)

end

interpretation walk_inv: walk_frame E "keeps (producer_inv E)" for E
proof unfold_locales
  show "only_reads w w' \<Longrightarrow> keeps (producer_inv E) w w'" for w w'
    by (auto simp: keeps_def producer_inv_def only_reads_def same_stores_def intro: world_ok_same)
qed (auto intro!: enqueuer.keeps_inv inv_set_sync inv_insert_sync inv_commit)

text \<open>A view of the rows of \<^verbatim>\<open>documents\<close> that queuing keeps, a whole walk keeps.\<close>

lemma walk_keeps_view:
  assumes "\<And>c d. view (queued_fields c (rotate_hash c d)) = view d" and "\<And>d now. view (d\<lparr>d_updated_at := now\<rparr>) = view d"
  shows "walk_frame E (store_rel (docs_keep view))"
proof unfold_locales
  show "only_reads w w' \<Longrightarrow> store_rel (docs_keep view) w w'" for w w'
    by (rule keep.same) (auto dest: only_reads_stores)
  have "evolves (store_rel (docs_keep view)) (set_document E i (\<lambda>r. queued_fields c (rotate_hash c r)))" for i c
    using assms by (intro keeps_setting_document) (auto simp: queued_fields_def rotate_hash_def doc_key_def)
  then show "evolves (store_rel (docs_keep view)) (enqueue_if_needed E sync d src c)" for sync d src c
    by (intro keep.enqueuing keeps_inserting_document)
qed (auto intro!: keeps_setting_sync keeps_inserting_sync keep.committing keep.wpre)

interpretation walk_verdicts: walk_frame E "store_rel (docs_keep verdict)" for E
  by (rule walk_keeps_view) (simp_all add: verdict_def queued_fields_def rotate_hash_def)

interpretation delta_walker: producer E "walk E g rq n" for E g rq n
  by unfold_locales (rule walk_inv.walk_frame walk_verdicts.walk_frame)+

section \<open>Properties\<close>

text \<open>
  Claim C20. A walk returns: on a clock that passes every time, whatever the service, the database and
  the queue answer, and even over an endless chain of pages, there is a fuel from which on the walk
  ends, with a status or with an exception; it is never cut off by the fuel.
\<close>

theorem walk_returns:
  assumes "\<forall>d. \<exists>T. \<forall>t \<ge> T. d \<le> py_now E t"
  shows "\<exists>fuel. \<forall>n \<ge> fuel. fst (walk E g rq n w) \<noteq> Inr None"
proof -
  obtain rs u where bw: "begin_walk E (wr_drive_id rq) w = (rs, u)" by fastforce
  show ?thesis
  proof (cases rs)
    case (Inl e)
    with bw show ?thesis by (simp add: walk_def bind_op_def)
  next
    case (Inr sync)
    let ?t = "py_now E (w_tick u)" and ?v = "u\<lparr>w_tick := Suc (w_tick u)\<rparr>"
    have now: "utc_now E u = (Inr ?t, ?v)" by (simp add: utc_now_def next_tick_def op_simps)
    obtain rl x where ls: "load_sync E sync ?v = (rl, x)" by fastforce
    show ?thesis
    proof (cases rl)
      case (Inl e)
      with bw Inr now ls show ?thesis by (simp add: walk_def bind_op_def)
    next
      case (Inr s)
      let ?d = "?t + wr_budget_seconds rq * 1000000"
      obtain T where T: "\<And>t. T \<le> t \<Longrightarrow> ?d \<le> py_now E t" using assms by metis
      have "fst (walk_loop E g (wr_drive_id rq) sync ?d n (delta_pages g (wr_drive_id rq) (start_url s) (Some (wr_root_path rq))) x) \<noteq> Inr None"
        if "T + 2 \<le> n" for n
        using that by (intro walk_loop_returns [OF T]) auto
      then show ?thesis
        using bw \<open>rs = Inr sync\<close> now ls Inr by (intro exI [of _ "T + 2"]) (simp add: walk_def bind_op_def)
    qed
  qed
qed

definition steady_clock_env :: content_env where
  "steady_clock_env = sample_content_env\<lparr>g_get := (\<lambda>_ u _ _. Inr \<lparr>hr_status = None, hr_content = [], hr_json = Inr (JObj
     [(''value'', JArr [JObj [(''id'', JStr ''i1''), (''name'', JStr ''a.pdf''), (''deleted'', JObj [])]]), (''@odata.deltaLink'', JStr ''delta2'')])\<rparr>)\<rparr>"

definition sample_request :: walk_request where
  "sample_request = \<lparr>wr_drive_id = ''d'', wr_root_path = ''/Matters'', wr_budget_seconds = 600\<rparr>"

definition sample_client :: graph_client where
  "sample_client = \<lparr>gc_scope = ''s'', gc_base_url = ''https://graph''\<rparr>"

theorem walk_returns_witness:
  "\<exists>fuel. \<forall>n \<ge> fuel. fst (walk steady_clock_env sample_client sample_request n sample_world) \<noteq> Inr None"
proof (rule walk_returns)
  have "py_now steady_clock_env = int" by (simp add: steady_clock_env_def content_env_eval)
  moreover have "\<exists>T. \<forall>t \<ge> T. d \<le> int t" for d
    by (rule exI [of _ "nat d"]) linarith
  ultimately show "\<forall>d. \<exists>T. \<forall>t \<ge> T. d \<le> py_now steady_clock_env t" by simp
qed

text \<open>
  Claim C19. The two tokens move only at the ends of a walk. A completed walk stores the delta link,
  clears the resume token and stamps \<^verbatim>\<open>last_synced_at\<close>, so the next walk starts from the delta link; an
  interrupted walk stores the resume link and leaves the delta token and the stamp, so the next walk
  starts from the resume link; a walk that raises anywhere, at any call, leaves the durable position
  exactly as it was, so no change is skipped. The first walk of a drive creates its row.
\<close>

theorem walk_position:
  assumes "world_ok w" and "w_work w = w_durable w" and "walk E g rq n w = (r, w')"
  shows "(\<forall>st. r = Inr (Some st) \<longrightarrow> st = Ws_completed \<or> st = Ws_interrupted)
    \<and> (r = Inr (Some Ws_completed) \<longrightarrow> (\<exists>s link t. sync_of (w_durable w') (wr_drive_id rq) = Some s
         \<and> ss_walk_status s = Ws_completed \<and> position (Some s) = (Some link, None, Some t) \<and> start_url s = Some link))
    \<and> (r = Inr (Some Ws_interrupted) \<longrightarrow> (\<exists>s link. sync_of (w_durable w') (wr_drive_id rq) = Some s
         \<and> ss_walk_status s = Ws_interrupted \<and> (link \<noteq> [] \<longrightarrow> start_url s = Some link)
         \<and> position (Some s) = (fst (position (sync_of (w_durable w) (wr_drive_id rq))), Some link,
              snd (snd (position (sync_of (w_durable w) (wr_drive_id rq)))))))
    \<and> ((\<exists>e. r = Inl e) \<longrightarrow> position (sync_of (w_durable w') (wr_drive_id rq)) = position (sync_of (w_durable w) (wr_drive_id rq)))"
proof -
  let ?d = "wr_drive_id rq"
  obtain b u where bw: "begin_walk E ?d w = (b, u)" by fastforce
  note out = begin_walk_outcome [OF assms(1,2) bw]
  show ?thesis
  proof (cases b)
    case (Inl e)
    with bw assms(3) have "r = Inl e" "w' = u" by (auto simp: walk_def run_simps)
    with out Inl show ?thesis using sync_of_cong [of "w_durable u" "w_durable w"] by simp
  next
    case (Inr i)
    then obtain s where u: "sync_clean u" and s: "sync_of (w_durable u) ?d = Some s" "ss_id s = i"
      "position (Some s) = position (sync_of (w_durable w) ?d)" using out by auto
    let ?v = "u\<lparr>w_tick := Suc (w_tick u)\<rparr>"
    obtain l x where ls: "load_sync E i ?v = (l, x)" by fastforce
    have x: "sync_clean x" "t_sync_state (w_durable x) = t_sync_state (w_durable u)"
      using only_reads_clean [OF evolvesD [OF reads_load_sync ls]] u by (simp_all add: sync_clean_def)
    have "loop_outcome i r x w'"
    proof (cases l)
      case (Inl e)
      with bw Inr ls assms(3) show ?thesis
        by (intro raised_outcome) (auto simp: walk_def run_simps run_bind_Inr [OF utc_now_eq])
    next
      case (Inr s')
      with bw \<open>b = Inr i\<close> ls assms(3) show ?thesis
        by (intro walk_loop_outcome [OF _ x(1)]) (simp add: walk_def run_simps run_bind_Inr [OF utc_now_eq])
    qed
    then have lo: "loop_outcome i r u w'" by (rule loop_outcome_from) (simp add: x)
    have "world_ok u" using evolvesD [OF ok_begin_walk bw] assms(1) by (simp add: keeps_def)
    then have dist: "distinct (map ss_id (t_sync_state (w_durable u)))" by (simp add: world_ok_def store_ok_def)
    note upd = sync_of_update [OF dist s(1), of _ "w_durable w'"]
    from lo show ?thesis unfolding loop_outcome_def sync_set_def
    proof (elim disjE exE conjE)
      fix link t now
      let ?f = "\<lambda>r. r\<lparr>ss_delta_token := Some link, ss_resume_token := None,
        ss_walk_status := Ws_completed, ss_last_synced_at := Some t\<rparr>"
      assume "r = Inr (Some Ws_completed)" and
        set: "t_sync_state (w_durable w') = update_where (\<lambda>r. ss_id r = i) (touch_sync now ?f) (t_sync_state (w_durable u))"
      moreover obtain z where "sync_of (w_durable w') ?d = Some ((?f s)\<lparr>ss_updated_at := z\<rparr>)"
        using upd [of ?f now] set s(2) by auto
      ultimately show ?thesis by (simp add: position_def start_url_def truthy_def)
    next
      fix link now
      let ?f = "\<lambda>r. r\<lparr>ss_resume_token := Some link, ss_walk_status := Ws_interrupted\<rparr>"
      assume "r = Inr (Some Ws_interrupted)" and
        set: "t_sync_state (w_durable w') = update_where (\<lambda>r. ss_id r = i) (touch_sync now ?f) (t_sync_state (w_durable u))"
      moreover obtain z where "sync_of (w_durable w') ?d = Some ((?f s)\<lparr>ss_updated_at := z\<rparr>)"
        using upd [of ?f now] set s(2) by auto
      ultimately show ?thesis using s(3) by (simp add: position_def start_url_def truthy_def) (metis fst_conv snd_conv)
    next
      assume "r = Inr None" and "t_sync_state (w_durable w') = t_sync_state (w_durable u)"
      then show ?thesis by simp
    next
      fix e
      assume "r = Inl e" and "t_sync_state (w_durable w') = t_sync_state (w_durable u)"
      then show ?thesis using s sync_of_cong [of "w_durable w'" "w_durable u"] by simp
    qed
  qed
qed

lemmas walk_eval = walk_def begin_walk_def insert_sync_def next_page_def delta_pages_def start_url_def truthy_def
  get_json_def http_get_def auth_header_def json_get_def process_item_def item_candidate_def bind_result_def
  complete_walk_def set_sync_def update_where_def touch_sync_def touch_document_def graph_client_init_def enqueue_eval

lemma sample_walk:
  "\<exists>w'. walk steady_clock_env sample_client sample_request 3 sample_world = (Inr (Some Ws_completed), w')"
  by (simp add: numeral_3_eq_3 walk_eval json_truthy.simps steady_clock_env_def content_env_eval sample_client_def sample_request_def sample_eval)

theorem walk_position_witness:
  "\<exists>w' s link t. walk steady_clock_env sample_client sample_request 3 sample_world = (Inr (Some Ws_completed), w')
     \<and> sync_of (w_durable w') ''d'' = Some s \<and> ss_walk_status s = Ws_completed
     \<and> position (Some s) = (Some link, None, Some t) \<and> start_url s = Some link"
proof -
  obtain w' where run: "walk steady_clock_env sample_client sample_request 3 sample_world = (Inr (Some Ws_completed), w')"
    using sample_walk by blast
  have "w_work sample_world = w_durable sample_world" by (simp add: sample_world_def)
  from walk_position [OF sample_world_ok this run] run show ?thesis by (auto simp: sample_request_def)
qed

end
