(* ===== verification/LocalWalkers.thy ===== *)
theory LocalWalkers
  imports Walker
begin

text \<open>
  The re-enumerating producers, \<^verbatim>\<open>src/filesystem_walker.py\<close> and \<^verbatim>\<open>src/blob_walker.py\<close>. Both begin a
  walk as the delta walker does, feed every supported file to the shared enqueuer and mark the walk
  completed; neither has a token.
\<close>

section \<open>The file-system walker\<close>

definition fs_drive_id :: "filesys \<Rightarrow> ppath \<Rightarrow> string" where
  "fs_drive_id F r = ''filesystem:'' @ path_str (fs_resolve F r)"

definition finish_walk :: "'z content_env_scheme \<Rightarrow> int \<Rightarrow> walk_status job" where
  "finish_walk E sync = bind_op (utc_now E) (\<lambda>t.
     then_op (set_sync E sync (\<lambda>r. r\<lparr>ss_walk_status := Ws_completed, ss_last_synced_at := Some t\<rparr>))
     (then_op (commit E) (ret Ws_completed)))"

definition read_file :: "'z content_env_scheme \<Rightarrow> ppath \<Rightarrow> bytes job" where
  "read_file E path = bind_op next_tick (\<lambda>t. lift_op
     (map_sum (to_source_error is_os_error (''Cannot read document file: '' @ path_str path)) id (fs_read_bytes (c_fs E t) path)))"

definition parent_folder :: "ppath \<Rightarrow> string option" where
  "parent_folder relative = (if path_parent relative = empty_path then None else Some (path_str (path_parent relative)))"

definition fs_candidate :: "'z content_env_scheme \<Rightarrow> ppath \<Rightarrow> ppath \<Rightarrow> document_candidate job" where
  "fs_candidate E r path =
     (case relative_to path r of
        None \<Rightarrow> throw (ValueError (py_repr (path_str path) @ '' is not in the subpath of '' @ py_repr (path_str r)))
      | Some relative \<Rightarrow> bind_op (read_file E path) (\<lambda>data. ret
          \<lparr>ca_drive_item_id = path_str relative, ca_content_hash = hash_bytes data,
           ca_file_name = Some (path_name path), ca_mime_type = mime_type_for_suffix (path_suffix path),
           ca_folder_path = parent_folder relative\<rparr>))"

definition fs_process :: "'z content_env_scheme \<Rightarrow> ppath \<Rightarrow> string \<Rightarrow> int \<Rightarrow> ppath \<Rightarrow> unit job" where
  "fs_process E r drive_id sync path =
     bind_op (fs_candidate E r path) (\<lambda>c. enqueue_if_needed E sync drive_id Ms_filesystem c)"

definition fs_walk :: "'z content_env_scheme \<Rightarrow> ppath \<Rightarrow> walk_status job" where
  "fs_walk E r =
     bind_op next_tick (\<lambda>t0. let drive_id = fs_drive_id (c_fs E t0) r in
     bind_op (begin_walk E drive_id) (\<lambda>sync.
     bind_op next_tick (\<lambda>t.
     bind_op (lift_op (documents (c_fs E t) \<lparr>src_root = r\<rparr>)) (\<lambda>paths.
     then_op (for_each (fs_process E r drive_id sync) paths) (finish_walk E sync)))))"

section \<open>The blob walker\<close>

definition is_supported :: "ppath \<Rightarrow> bool" where
  "is_supported relative \<longleftrightarrow> lower (path_suffix relative) \<in> supported_suffixes"

definition str_or :: "string option \<Rightarrow> string option \<Rightarrow> string option" where
  "str_or a b = (if truthy a then a else b)"

definition blob_candidate :: "'z content_env_scheme \<Rightarrow> blob_location \<Rightarrow> blob_item \<Rightarrow> document_candidate option job" where
  "blob_candidate E loc blob =
     (let relative = parse_path (removeprefix (bi_name blob) (lo_prefix loc)) in
      if endswith (bi_name blob) ''/'' \<or> \<not> is_supported relative then ret None
      else bind_op
        (let stored = stored_sha256 (bi_metadata blob) in
         if truthy stored then ret (the stored)
         else bind_op (read_blob E (bi_name blob)) (\<lambda>data. ret (hash_bytes data)))
        (\<lambda>h. ret (Some \<lparr>ca_drive_item_id = path_str relative, ca_content_hash = h,
           ca_file_name = Some (path_name relative),
           ca_mime_type = str_or (bi_content_type blob) (mime_type_for_suffix (path_suffix relative)),
           ca_folder_path = parent_folder relative\<rparr>)))"

definition blob_process :: "'z content_env_scheme \<Rightarrow> blob_location \<Rightarrow> int \<Rightarrow> blob_item \<Rightarrow> unit job" where
  "blob_process E loc sync blob = bind_op (blob_candidate E loc blob) (\<lambda>c.
     case c of None \<Rightarrow> ret () | Some cand \<Rightarrow> enqueue_if_needed E sync (location_drive_id loc) Ms_blob cand)"

definition blob_walk :: "'z content_env_scheme \<Rightarrow> blob_location \<Rightarrow> walk_status job" where
  "blob_walk E loc =
     bind_op (begin_walk E (location_drive_id loc)) (\<lambda>sync.
     bind_op next_tick (\<lambda>t. case b_list E t (lo_prefix loc) of (blobs, failure) \<Rightarrow>
     then_op (for_each (blob_process E loc sync) blobs)
     (case failure of None \<Rightarrow> finish_walk E sync | Some e \<Rightarrow> throw e)))"

section \<open>Both are producers\<close>

lemma reads_read_file [evolve_intros]: "evolves only_reads (read_file E path)"
  unfolding read_file_def by (intro evolve_intros preorder_only_reads)

lemma reads_fs_candidate [evolve_intros]: "evolves only_reads (fs_candidate E r path)"
  unfolding fs_candidate_def by (intro evolve_intros preorder_only_reads)

lemma reads_blob_candidate [evolve_intros]: "evolves only_reads (blob_candidate E loc blob)"
  unfolding blob_candidate_def Let_def by (intro evolve_intros preorder_only_reads reads_read_blob)

context walk_frame
begin

lemma finish_walk_frame: "evolves R (finish_walk E sync)"
  unfolding finish_walk_def by (intro evolve_intros pre reads [OF reads_clock] commits setting_sync) auto

lemma candidate_frames: "evolves R (fs_process E r d sync path)" "evolves R (blob_process E loc sync blob)"
  unfolding fs_process_def blob_process_def
  by (rule evolves_bind [OF pre reads [OF reads_fs_candidate] queuing])
    (rule evolves_bind [OF pre reads [OF reads_blob_candidate]], intro evolve_intros pre queuing)

lemma fs_walk_frame: "evolves R (fs_walk E r)"
  unfolding fs_walk_def Let_def
  by (intro evolves_bind evolves_then evolves_for_each evolves_lift pre reads [OF reads_tick]
      begin_walk_frame candidate_frames finish_walk_frame)

lemma blob_walk_frame: "evolves R (blob_walk E loc)"
proof -
  have "evolves R (case b_list E t p of (blobs, failure) \<Rightarrow>
     then_op (for_each (blob_process E loc sync) blobs)
     (case failure of None \<Rightarrow> finish_walk E sync | Some e \<Rightarrow> throw e))" for t p sync
    by (cases "b_list E t p") (auto intro!: evolves_then evolves_for_each evolves_option evolves_throw
        pre candidate_frames finish_walk_frame)
  then show ?thesis unfolding blob_walk_def by (intro evolves_bind pre reads [OF reads_tick] begin_walk_frame)
qed

end

interpretation fs_walker: producer E "fs_walk E r" for E r
  by unfold_locales (rule walk_inv.fs_walk_frame walk_verdicts.fs_walk_frame)+

interpretation blob_walker: producer E "blob_walk E loc" for E loc
  by unfold_locales (rule walk_inv.blob_walk_frame walk_verdicts.blob_walk_frame)+

section \<open>Walking an unchanged tree\<close>

text \<open>The store without the row of one walked root, which is all a silent walk may write.\<close>

definition unwalked :: "int \<Rightarrow> store \<Rightarrow> store" where
  "unwalked i st = st\<lparr>t_sync_state := filter (\<lambda>r. ss_id r \<noteq> i) (t_sync_state st)\<rparr>"

lemma rest_tables:
  "unwalked i a = unwalked i b \<Longrightarrow> t_documents a = t_documents b" "unwalked i a = unwalked i b \<Longrightarrow> t_processing_log a = t_processing_log b"
  by (auto simp: unwalked_def dest: arg_cong [of _ _ t_documents] arg_cong [of _ _ t_processing_log])

definition undisturbed :: "int \<Rightarrow> world \<Rightarrow> world \<Rightarrow> bool" where
  "undisturbed i w w' \<longleftrightarrow> unwalked i (w_durable w') = unwalked i (w_durable w) \<and> unwalked i (w_work w') = unwalked i (w_work w)
     \<and> filter is_sent (w_trace w') = filter is_sent (w_trace w)"

lemma undisturbed_refl: "undisturbed i w w"
  by (simp add: undisturbed_def)

lemma undisturbed_trans: "undisturbed i u v \<Longrightarrow> undisturbed i v w \<Longrightarrow> undisturbed i u w"
  by (simp add: undisturbed_def)

lemma undisturbed_reads: "only_reads w w' \<Longrightarrow> undisturbed i w w'"
  by (simp add: undisturbed_def only_reads_def same_stores_def)

definition unwalked_clean :: "int \<Rightarrow> world \<Rightarrow> bool" where
  "unwalked_clean i w \<longleftrightarrow> unwalked i (w_work w) = unwalked i (w_durable w)"

text \<open>Operations on the row of the walked root alone.\<close>

definition sync_only :: "int \<Rightarrow> world \<Rightarrow> world \<Rightarrow> bool" where
  "sync_only i w w' \<longleftrightarrow> (unwalked_clean i w \<longrightarrow> unwalked_clean i w' \<and> undisturbed i w w')"

lemma preorder_sync_only [simp, intro]: "preorder_rel (sync_only i)"
  unfolding preorder_rel_def sync_only_def using undisturbed_refl undisturbed_trans by blast

lemma sync_only_reads: "evolves only_reads m \<Longrightarrow> evolves (sync_only i) m"
  by (erule evolves_mono) (auto simp: sync_only_def undisturbed_def only_reads_def same_stores_def unwalked_clean_def)

lemma rest_update:
  assumes "\<And>r. ss_id (f r) = ss_id r"
  shows "unwalked i (st\<lparr>t_sync_state := update_where (\<lambda>r. ss_id r = i) (touch_sync now f) (t_sync_state st)\<rparr>) = unwalked i st"
  using assms by (simp add: unwalked_def filter_update_other touch_sync_def)

lemma sync_only_set:
  assumes "\<And>r. ss_id (f r) = ss_id r"
  shows "evolves (sync_only i) (set_sync E i f)"
  using rest_update [OF assms] by (simp add: evolves_def set_sync_eq sync_only_def unwalked_clean_def undisturbed_def)

lemma sync_only_commit: "evolves (sync_only i) (commit E)"
  unfolding commit_def
  by (intro evolves_then preorder_sync_only sync_only_reads [OF reads_call] evolvesI)
    (simp add: sync_only_def unwalked_clean_def undisturbed_def)

lemma begin_walk_quiet:
  assumes "sync_of (w_work w) d = Some s" and "begin_walk E d w = (b, u)"
  shows "sync_only (ss_id s) w u"
proof -
  obtain q x where q: "one_or_none E t_sync_state (\<lambda>r. ss_drive_id r = d) w = (q, x)" by fastforce
  have read: "sync_only (ss_id s) w x" by (rule evolvesD [OF sync_only_reads [OF reads_query] q])
  show ?thesis
  proof (cases q)
    case (Inl e)
    with q read assms(2) show ?thesis by (simp add: begin_walk_def run_simps)
  next
    case (Inr existing)
    then have "existing = Some s"
      using one_or_none_Inr [OF q [unfolded Inr]] assms(1) by (auto simp: sync_of_def find_filter split: option.splits)
    then have "then_op (set_sync E (ss_id s) (\<lambda>r. r\<lparr>ss_walk_status := Ws_walking\<rparr>)) (then_op (commit E) (ret (ss_id s))) x = (b, u)"
      using q Inr assms(2) by (simp add: begin_walk_def run_simps)
    moreover have "evolves (sync_only (ss_id s)) (then_op (set_sync E (ss_id s) (\<lambda>r. r\<lparr>ss_walk_status := Ws_walking\<rparr>)) (then_op (commit E) (ret (ss_id s))))"
      by (intro evolves_then evolves_ret preorder_sync_only sync_only_set sync_only_commit) simp
    ultimately show ?thesis using read preorder_trans [OF preorder_sync_only] evolvesD by metis
  qed
qed

lemma sync_only_finish: "evolves (sync_only i) (finish_walk E i)"
  unfolding finish_walk_def
  by (intro evolves_bind evolves_then evolves_ret preorder_sync_only sync_only_reads [OF reads_clock]
      sync_only_set sync_only_commit) simp

text \<open>A file whose row already shows its content.\<close>

definition up_to_date :: "document list \<Rightarrow> int \<Rightarrow> string \<Rightarrow> string \<Rightarrow> bool" where
  "up_to_date docs sync item h \<longleftrightarrow> (\<exists>row. find (\<lambda>d. doc_key d = (sync, item)) docs = Some row
     \<and> (d_status row \<in> {Ds_queued, Ds_processing} \<or> (d_status row \<noteq> Ds_pending \<and> d_content_hash row = Some h)))"

lemma up_to_date_quiet:
  assumes "world_ok w" and "unwalked_clean i w" and "up_to_date (t_documents (w_durable w)) sync (ca_drive_item_id c) (ca_content_hash c)"
    and "enqueue_if_needed E sync d src c w = (r, w')"
  shows "undisturbed i w w'"
proof -
  have "store_ok (w_work w)" using assms(1) by (simp add: world_ok_def)
  moreover have "t_documents (w_work w) = t_documents (w_durable w)" using assms(2) rest_tables(1) unfolding unwalked_clean_def by blast
  then have "\<not> needs_queuing (lookup_document (w_work w) sync (ca_drive_item_id c)) (ca_content_hash c)"
    using assms(3) by (auto simp: up_to_date_def lookup_document_def needs_queuing_def)
  ultimately show ?thesis using enqueue_outcome [OF _ refl assms(4)] by (simp add: undisturbed_def)
qed

lemma fs_process_quiet:
  assumes F: "\<forall>t. c_fs E t = F" and inv: "world_ok w" "unwalked_clean i w"
    and uptodate: "\<And>relative data. relative_to path r = Some relative \<Longrightarrow> fs_read_bytes F path = Inr data \<Longrightarrow>
      up_to_date (t_documents (w_durable w)) sync (path_str relative) (hash_bytes data)"
    and run: "fs_process E r d sync path w = (res, w')"
  shows "world_ok w' \<and> unwalked_clean i w' \<and> undisturbed i w w'"
proof -
  obtain q u where q: "fs_candidate E r path w = (q, u)" by fastforce
  have reads: "only_reads w u" by (rule evolvesD [OF reads_fs_candidate q])
  then have u: "world_ok u" "unwalked_clean i u" "undisturbed i w u" "t_documents (w_durable u) = t_documents (w_durable w)"
    using inv undisturbed_reads [of w u i] by (auto simp: only_reads_def same_stores_def unwalked_clean_def intro: world_ok_same)
  have "undisturbed i u w' \<and> world_ok w'"
  proof (cases q)
    case (Inl e)
    with q run u show ?thesis by (auto simp: fs_process_def run_simps undisturbed_refl)
  next
    case (Inr c)
    obtain relative data where "relative_to path r = Some relative" "fs_read_bytes F path = Inr data"
      "ca_drive_item_id c = path_str relative" "ca_content_hash c = hash_bytes data"
      using q Inr F by (auto simp: fs_candidate_def read_file_def next_tick_def op_simps throw_def split: option.splits sum.splits)
    with uptodate u have utd: "up_to_date (t_documents (w_durable u)) sync (ca_drive_item_id c) (ca_content_hash c)" by simp
    have enq: "enqueue_if_needed E sync d Ms_filesystem c u = (res, w')"
      using q run Inr by (simp add: fs_process_def run_simps)
    show ?thesis using up_to_date_quiet [OF u(1,2) utd enq] evolvesD [OF enqueue_keeps_world_ok enq] u(1)
      by (simp add: keeps_def)
  qed
  with u show ?thesis by (auto simp: unwalked_clean_def undisturbed_def)
qed

lemma fs_batch_quiet:
  assumes F: "\<forall>t. c_fs E t = F"
    and files: "\<forall>path \<in> set paths. \<forall>relative data. relative_to path r = Some relative \<longrightarrow> fs_read_bytes F path = Inr data \<longrightarrow>
      up_to_date docs sync (path_str relative) (hash_bytes data)"
  shows "world_ok w \<Longrightarrow> unwalked_clean i w \<Longrightarrow> t_documents (w_durable w) = docs \<Longrightarrow>
    for_each (fs_process E r d sync) paths w = (res, w') \<Longrightarrow> world_ok w' \<and> unwalked_clean i w' \<and> undisturbed i w w'"
  using files
proof (induction paths arbitrary: w)
  case Nil
  then show ?case by (auto simp: ret_def undisturbed_refl)
next
  case (Cons p ps)
  obtain q u where q: "fs_process E r d sync p w = (q, u)" by fastforce
  have u: "world_ok u" "unwalked_clean i u" "undisturbed i w u"
    using fs_process_quiet [OF F Cons.prems(1,2) _ q] Cons.prems(3,5) by auto
  then have du: "t_documents (w_durable u) = docs" using Cons.prems(3) rest_tables(1) unfolding undisturbed_def by metis
  show ?case
  proof (cases q)
    case (Inl e)
    with q u Cons.prems(4) show ?thesis by (simp add: run_simps)
  next
    case (Inr x)
    then have "for_each (fs_process E r d sync) ps u = (res, w')" using q Cons.prems(4) by (simp add: run_simps)
    with Cons.IH [OF u(1,2) du] Cons.prems(5) u(3) undisturbed_trans show ?thesis by auto
  qed
qed

section \<open>Properties\<close>

text \<open>
  Claim C18. No producer touches a verdict or announces uncommitted work: a whole walk of SharePoint, of
  a mounted directory or of a blob container, whatever the services answer and wherever it fails,
  leaves in place every row of \<^verbatim>\<open>documents\<close> with its human override, category, confidence, model,
  raw response and retry count; every message it sends follows the commit of the row it announces,
  queued under the message's hash; and the schema's constraints hold.
\<close>

theorem producers_safe:
  assumes "world_ok w" and "w_work w = w_durable w" and "sends_committed E (w_trace w)"
    and "w' = snd (with_session (walk E g rq n) w) \<or> w' = snd (with_session (fs_walk E r) w)
      \<or> w' = snd (with_session (blob_walk E loc) w)"
  shows "(\<forall>d \<in> set (t_documents (w_durable w)). \<exists>d' \<in> set (t_documents (w_durable w')).
      d_id d' = d_id d \<and> doc_key d' = doc_key d
      \<and> d_classification_override d' = d_classification_override d \<and> d_category d' = d_category d
      \<and> d_confidence d' = d_confidence d \<and> d_classified_by d' = d_classified_by d
      \<and> d_raw_response d' = d_raw_response d \<and> d_retry_count d' = d_retry_count d)
    \<and> sends_committed E (w_trace w') \<and> world_ok w'"
proof -
  have "docs_keep verdict (w_durable w) (w_durable w') \<and> sends_committed E (w_trace w') \<and> world_ok w'"
    using assms(4) delta_walker.session_keeps [OF assms(1-3)] fs_walker.session_keeps [OF assms(1-3)]
      blob_walker.session_keeps [OF assms(1-3)] by (metis prod.collapse)
  then show ?thesis by (fastforce simp: docs_keep_def verdict_def)
qed

theorem producers_safe_witness:
  "sends_committed steady_clock_env (w_trace (snd (with_session (walk steady_clock_env sample_client sample_request 3) sample_world)))
   \<and> (\<exists>d \<in> set (t_documents (w_durable (snd (with_session (walk steady_clock_env sample_client sample_request 3) sample_world)))).
        d_classification_override d = Some ''Invoice'')"
proof -
  let ?w' = "snd (with_session (walk steady_clock_env sample_client sample_request 3) sample_world)"
  have clean: "w_work sample_world = w_durable sample_world" "sends_committed steady_clock_env (w_trace sample_world)"
    by (simp_all add: sample_world_def empty_world_def sends_committed_Nil)
  have or: "?w' = snd (with_session (walk steady_clock_env sample_client sample_request 3) sample_world)
      \<or> ?w' = snd (with_session (fs_walk steady_clock_env (parse_path ''/data'')) sample_world)
      \<or> ?w' = snd (with_session (blob_walk steady_clock_env \<lparr>lo_account_url = [], lo_container = [], lo_prefix = []\<rparr>) sample_world)"
    by blast
  from producers_safe [OF sample_world_ok clean or]
  show ?thesis by (fastforce simp: sample_world_def sample_store_def)
qed

text \<open>
  Claim C26. Re-walking an unchanged directory is silent: when every file the enumeration yields has a
  row that is in flight, or that is not \<open>pending\<close> and carries the hash of the file's bytes, a walk sends
  nothing, even when it fails on the way, and leaves every table exactly as it was but for one row: that of
  the walked root in \<^verbatim>\<open>sync_state\<close>, whose status and time a walk always writes.
\<close>

theorem fs_rewalk_silent:
  assumes "world_ok w" and "w_work w = w_durable w" and F: "\<forall>t. c_fs E t = F"
    and s: "sync_of (w_durable w) (fs_drive_id F r) = Some s" and paths: "documents F \<lparr>src_root = r\<rparr> = Inr paths"
    and files: "\<forall>path \<in> set paths. \<forall>relative data. relative_to path r = Some relative \<longrightarrow> fs_read_bytes F path = Inr data \<longrightarrow>
      up_to_date (t_documents (w_durable w)) (ss_id s) (path_str relative) (hash_bytes data)"
    and run: "fs_walk E r w = (res, w')"
  shows "filter is_sent (w_trace w') = filter is_sent (w_trace w)
    \<and> t_documents (w_durable w') = t_documents (w_durable w)
    \<and> t_processing_log (w_durable w') = t_processing_log (w_durable w)
    \<and> filter (\<lambda>x. ss_id x \<noteq> ss_id s) (t_sync_state (w_durable w')) = filter (\<lambda>x. ss_id x \<noteq> ss_id s) (t_sync_state (w_durable w))"
proof -
  let ?w = "w\<lparr>w_tick := Suc (w_tick w)\<rparr>" and ?d = "fs_drive_id F r" and ?i = "ss_id s"
  have w: "world_ok ?w" "unwalked_clean ?i ?w" "w_work ?w = w_durable ?w" "undisturbed ?i w ?w"
    using assms(1,2) by (auto simp: unwalked_clean_def undisturbed_def intro: world_ok_same)
  obtain b u where b: "begin_walk E ?d ?w = (b, u)" by fastforce
  have "sync_of (w_work ?w) ?d = Some s" using s assms(2) by simp
  then have u: "unwalked_clean ?i u" "undisturbed ?i ?w u" using begin_walk_quiet [OF _ b] w by (auto simp: sync_only_def)
  have uok: "world_ok u" using evolvesD [OF ok_begin_walk b] w by (simp add: keeps_def)
  have "undisturbed ?i u w'"
  proof (cases b)
    case (Inl e)
    with b run F show ?thesis
      by (auto simp: fs_walk_def next_tick_def Let_def run_simps bind_op_def [of "\<lambda>w. (_ w, _ w)"] undisturbed_refl)
  next
    case (Inr i)
    let ?x = "u\<lparr>w_tick := Suc (w_tick u)\<rparr>"
    have i: "i = ?i" using begin_walk_outcome [OF w(1,3) b] Inr s by auto
    have x: "world_ok ?x" "unwalked_clean ?i ?x" "undisturbed ?i u ?x"
      using u uok by (auto simp: unwalked_clean_def undisturbed_def intro: world_ok_same)
    have "unwalked ?i (w_durable ?x) = unwalked ?i (w_durable w)" using u w by (simp add: undisturbed_def)
    then have docs: "t_documents (w_durable ?x) = t_documents (w_durable w)" by (rule rest_tables)
    have k: "then_op (for_each (fs_process E r ?d i) paths) (finish_walk E i) ?x = (res, w')"
      using run b Inr F paths by (simp add: fs_walk_def next_tick_def Let_def bind_op_def [of "\<lambda>w. (_ w, _ w)"] run_simps)
    obtain q y where q: "for_each (fs_process E r ?d i) paths ?x = (q, y)" by fastforce
    have y: "unwalked_clean ?i y" "undisturbed ?i ?x y"
      using fs_batch_quiet [OF F _ x(1,2) docs q] files i by auto
    have "undisturbed ?i y w'"
    proof (cases q)
      case (Inl e)
      with q k show ?thesis by (simp add: run_simps undisturbed_refl)
    next
      case (Inr z)
      then have "finish_walk E i y = (res, w')" using q k by (simp add: run_simps)
      from evolvesD [OF sync_only_finish this] y i show ?thesis by (simp add: sync_only_def)
    qed
    with x y undisturbed_trans show ?thesis by blast
  qed
  with u w undisturbed_trans have "undisturbed ?i w w'" by blast
  then have r: "unwalked ?i (w_durable w') = unwalked ?i (w_durable w)" "filter is_sent (w_trace w') = filter is_sent (w_trace w)"
    by (simp_all add: undisturbed_def)
  from arg_cong [OF r(1), of t_sync_state] r(2) rest_tables [OF r(1)] show ?thesis by (simp add: unwalked_def)
qed

definition tree_files :: filesys where
  "tree_files = \<lparr>fs_is_file = (\<lambda>p. p = parse_path ''/data/a.txt''), fs_is_dir = (\<lambda>p. p = parse_path ''/data''),
     fs_rglob = (\<lambda>_. [parse_path ''/data/a.txt'']), fs_open = (\<lambda>_. Inl (OSError ''unused'')),
     fs_read_bytes = (\<lambda>p. if p = parse_path ''/data/a.txt'' then Inr [104, 105] else Inl (OSError ''absent'')),
     fs_resolve = (\<lambda>p. p)\<rparr>"

definition tree_env :: content_env where
  "tree_env = sample_content_env\<lparr>c_fs := (\<lambda>_. tree_files)\<rparr>"

definition tree_store :: store where
  "tree_store = \<lparr>t_sync_state = [(new_sync_state ''filesystem:/data'')\<lparr>ss_id := 1\<rparr>],
     t_documents = [(new_document 1 ''a.txt'')\<lparr>d_id := 1, d_content_hash := Some ''h0''\<rparr>], t_processing_log = []\<rparr>"

definition tree_world :: world where
  "tree_world = empty_world\<lparr>w_durable := tree_store, w_work := tree_store, w_next_sync := 2, w_next_doc := 2\<rparr>"

lemma tree_world_ok: "world_ok tree_world"
  by (simp add: tree_world_def tree_store_def empty_world_def world_ok_def store_ok_def below_sequences_def
      new_sync_state_def new_document_def doc_key_def)

lemma tree_paths:
  "parse_path ''/data'' = PPath ''/'' [''data'']" "parse_path ''/data/a.txt'' = PPath ''/'' [''data'', ''a.txt'']"
  by (simp_all add: path_eval text_eval)

lemma tree_documents: "documents tree_files \<lparr>src_root = parse_path ''/data''\<rparr> = Inr [parse_path ''/data/a.txt'']"
  by (simp add: documents_def candidate_files_def tree_files_def tree_paths sorted_paths_def has_extractor_def
      path_eval text_eval supported_suffixes_def EXTRACTORS_def Let_def)

theorem fs_rewalk_silent_witness:
  "t_documents (w_durable (snd (fs_walk tree_env (parse_path ''/data'') tree_world))) = t_documents tree_store
   \<and> filter is_sent (w_trace (snd (fs_walk tree_env (parse_path ''/data'') tree_world))) = []"
proof -
  obtain res w' where run: "fs_walk tree_env (parse_path ''/data'') tree_world = (res, w')" by fastforce
  have same: "w_work tree_world = w_durable tree_world" by (simp add: tree_world_def)
  have F: "\<forall>t. c_fs tree_env t = tree_files" by (simp add: tree_env_def)
  have d: "fs_drive_id tree_files (parse_path ''/data'') = ''filesystem:/data''"
    by (simp add: fs_drive_id_def tree_files_def tree_paths path_str_def)
  have s: "sync_of (w_durable tree_world) (fs_drive_id tree_files (parse_path ''/data''))
      = Some ((new_sync_state ''filesystem:/data'')\<lparr>ss_id := 1\<rparr>)"
    unfolding d by (simp add: sync_of_def tree_world_def tree_store_def new_sync_state_def)
  have "relative_to (parse_path ''/data/a.txt'') (parse_path ''/data'') = Some (PPath [] [''a.txt''])"
    by (simp add: tree_paths relative_to_def)
  then have files: "\<forall>path \<in> set [parse_path ''/data/a.txt'']. \<forall>relative data. relative_to path (parse_path ''/data'') = Some relative \<longrightarrow>
      fs_read_bytes tree_files path = Inr data \<longrightarrow>
      up_to_date (t_documents (w_durable tree_world)) (ss_id ((new_sync_state ''filesystem:/data'')\<lparr>ss_id := 1\<rparr>)) (path_str relative) (hash_bytes data)"
    by (auto simp: up_to_date_def tree_world_def tree_store_def new_document_def doc_key_def path_str_def)
  from fs_rewalk_silent [OF tree_world_ok same F s tree_documents files run] run
  show ?thesis by (simp add: tree_world_def empty_world_def)
qed

text \<open>A file below the root, as the walker and the processor see it.\<close>

lemma fs_file_seen:
  assumes F: "\<forall>t. c_fs E t = F" and path: "path = path_join r relative" "\<not> is_absolute relative"
    and prts: "\<forall>x \<in> set (path_parts relative). proper_part x"
    and resolved: "fs_resolve F path = fs_resolve F r \<or> in_parents (fs_resolve F r) (fs_resolve F path)"
      "fs_read_bytes F (fs_resolve F path) = fs_read_bytes F path"
    and data: "fs_read_bytes F path = Inr data"
  shows "fs_candidate E r path w = (Inr \<lparr>ca_drive_item_id = path_str relative, ca_content_hash = hash_bytes data,
        ca_file_name = Some (path_name path), ca_mime_type = mime_type_for_suffix (path_suffix path),
        ca_folder_path = parent_folder relative\<rparr>, w\<lparr>w_tick := Suc (w_tick w)\<rparr>)"
    and "ms_drive_item_id m = path_str relative \<Longrightarrow> fs_download E r m w = (Inr data, w\<lparr>w_tick := Suc (w_tick w)\<rparr>)"
proof -
  have rel: "relative_to path r = Some relative" unfolding path(1) by (rule relative_to_join [OF path(2)])
  have back_eq: "parse_path (path_str relative) = relative"
    using path(2) prts by (intro parse_path_str) (simp_all add: is_absolute_def)
  show "fs_candidate E r path w = (Inr \<lparr>ca_drive_item_id = path_str relative, ca_content_hash = hash_bytes data,
        ca_file_name = Some (path_name path), ca_mime_type = mime_type_for_suffix (path_suffix path),
        ca_folder_path = parent_folder relative\<rparr>, w\<lparr>w_tick := Suc (w_tick w)\<rparr>)"
    using rel F data by (simp add: fs_candidate_def read_file_def next_tick_def op_simps)
  have "resolve_locator F r (path_str relative) = Inr (fs_resolve F path)"
    using path resolved(1) by (auto simp: resolve_locator_def back_eq Let_def)
  then show "fs_download E r m w = (Inr data, w\<lparr>w_tick := Suc (w_tick w)\<rparr>)" if "ms_drive_item_id m = path_str relative"
    using F data resolved(2) that by (simp add: fs_download_def next_tick_def op_simps)
qed

text \<open>
  Claim C27. The producer and the processor see the same file under the same hash: for a file below the
  root whose resolved path stays inside the resolved root and reads as the file itself, the locator
  the walker stores leads the processor back to the file, its re-check gives the hash the walker
  stored, and the download gives the bytes that hash is of, as long as the file has not changed.
\<close>

theorem fs_hash_agreement:
  assumes F: "\<forall>t. c_fs E t = F" and path: "path = path_join r relative" "\<not> is_absolute relative"
    and prts: "\<forall>x \<in> set (path_parts relative). proper_part x"
    and resolved: "fs_resolve F path = fs_resolve F r \<or> in_parents (fs_resolve F r) (fs_resolve F path)"
      "fs_read_bytes F (fs_resolve F path) = fs_read_bytes F path"
    and data: "fs_read_bytes F path = Inr data"
  shows "\<exists>c. fst (fs_candidate E r path w) = Inr c \<and> ca_content_hash c = hash_bytes data
    \<and> (\<forall>m v. ms_drive_item_id m = ca_drive_item_id c \<longrightarrow>
         fst (fetch_content_hash E (FilesystemContentSource r) m v) = Inr (Some (ca_content_hash c))
         \<and> fst (download E (FilesystemContentSource r) m v) = Inr data)"
proof -
  note seen = fs_file_seen [OF assms]
  have "fst (fetch_content_hash E (FilesystemContentSource r) m v) = Inr (Some (hash_bytes data))"
    if "ms_drive_item_id m = path_str relative" for m v
    using seen(2) [OF that] by (simp add: fs_fetch_content_hash_def bind_op_def ret_def)
  with seen show ?thesis by simp
qed

theorem fs_hash_agreement_witness:
  "\<exists>c. fst (fs_candidate tree_env (parse_path ''/data'') (parse_path ''/data/a.txt'') tree_world) = Inr c
    \<and> ca_drive_item_id c = ''a.txt''
    \<and> fst (fetch_content_hash tree_env (FilesystemContentSource (parse_path ''/data''))
          (sample_message\<lparr>ms_drive_item_id := ca_drive_item_id c\<rparr>) tree_world) = Inr (Some (hash_bytes [104, 105]))"
proof -
  have F: "\<forall>t. c_fs tree_env t = tree_files" by (simp add: tree_env_def)
  have path: "parse_path ''/data/a.txt'' = path_join (parse_path ''/data'') (PPath [] [''a.txt''])" "\<not> is_absolute (PPath [] [''a.txt''])"
    by (simp_all add: tree_paths path_join_def is_absolute_def)
  have parts: "\<forall>x \<in> set (path_parts (PPath [] [''a.txt''])). proper_part x" by (simp add: proper_part_def)
  have res: "fs_resolve tree_files (parse_path ''/data/a.txt'') = fs_resolve tree_files (parse_path ''/data'')
      \<or> in_parents (fs_resolve tree_files (parse_path ''/data'')) (fs_resolve tree_files (parse_path ''/data/a.txt''))"
    "fs_read_bytes tree_files (fs_resolve tree_files (parse_path ''/data/a.txt'')) = fs_read_bytes tree_files (parse_path ''/data/a.txt'')"
    by (simp_all add: tree_files_def tree_paths in_parents_def)
  have data: "fs_read_bytes tree_files (parse_path ''/data/a.txt'') = Inr [104, 105]" by (simp add: tree_files_def)
  from fs_hash_agreement [OF F path parts res data, of tree_world] obtain c where
    c: "fst (fs_candidate tree_env (parse_path ''/data'') (parse_path ''/data/a.txt'') tree_world) = Inr c"
    "ca_content_hash c = hash_bytes [104, 105]" and
    m: "\<forall>m v. ms_drive_item_id m = ca_drive_item_id c \<longrightarrow>
         fst (fetch_content_hash tree_env (FilesystemContentSource (parse_path ''/data'')) m v) = Inr (Some (ca_content_hash c))" by blast
  have "ca_drive_item_id c = ''a.txt''"
    using c(1) data by (simp add: fs_candidate_def relative_to_def tree_paths read_file_def next_tick_def op_simps F path_str_def)
      (auto split: sum.splits)
  with c m show ?thesis by auto
qed

text \<open>
  Claim C28. The blob walker and the processor agree on a blob whose name below the prefix has no empty
  or dot segment: the stored locator names the blob again, and the processor's re-check gives the hash
  the walker stored, whether the container records one or both sides hash the bytes, as long as the
  blob has not changed.
\<close>

theorem blob_hash_agreement:
  assumes name: "bi_name blob = lo_prefix loc @ s" "canonical_relative s"
    and meta: "\<forall>t. b_metadata E t (bi_name blob) = Inr (bi_metadata blob)"
    and bytes: "\<forall>t. b_read E t (bi_name blob) = Inr data"
    and c: "fst (blob_candidate E loc blob w) = Inr (Some c)" and m: "ms_drive_item_id m = ca_drive_item_id c"
  shows "blob_name (lo_prefix loc) m = bi_name blob
    \<and> fst (fetch_content_hash E (BlobContentSource (lo_prefix loc)) m v) = Inr (Some (ca_content_hash c))
    \<and> fst (download E (BlobContentSource (lo_prefix loc)) m v) = Inr data"
proof -
  have id: "ca_drive_item_id c = s" and
    h: "ca_content_hash c = (if truthy (stored_sha256 (bi_metadata blob)) then the (stored_sha256 (bi_metadata blob)) else hash_bytes data)"
    using c bytes canonical_path_str [OF name(2)]
    by (auto simp: blob_candidate_def name(1) Let_def read_blob_def next_tick_def op_simps split: if_splits)
  have n: "blob_name (lo_prefix loc) m = bi_name blob" using m id name(1) by (simp add: blob_name_def)
  have "fst (fetch_content_hash E (BlobContentSource (lo_prefix loc)) m v) = Inr (Some (ca_content_hash c))"
    using meta bytes h by (auto simp: blob_fetch_content_hash_def n read_blob_metadata_def blob_download_def read_blob_def
        next_tick_def op_simps Let_def truthy_def)
  moreover have "fst (download E (BlobContentSource (lo_prefix loc)) m v) = Inr data"
    using bytes by (simp add: blob_download_def n read_blob_def next_tick_def op_simps)
  ultimately show ?thesis using n by blast
qed

definition sample_location :: blob_location where
  "sample_location = \<lparr>lo_account_url = ''https://acc'', lo_container = ''docs'', lo_prefix = ''in/''\<rparr>"

definition sample_blob :: blob_item where
  "sample_blob = \<lparr>bi_name = ''in/a.txt'', bi_metadata = None, bi_content_type = Some ''text/plain''\<rparr>"

definition blob_env :: content_env where
  "blob_env = sample_content_env\<lparr>b_read := (\<lambda>_ _. Inr [104, 105]), b_metadata := (\<lambda>_ _. Inr None)\<rparr>"

lemma sample_blob_candidate:
  "blob_candidate blob_env sample_location sample_blob empty_world =
     (Inr (Some \<lparr>ca_drive_item_id = ''a.txt'', ca_content_hash = hash_bytes [104, 105], ca_file_name = Some ''a.txt'',
        ca_mime_type = Some ''text/plain'', ca_folder_path = None\<rparr>), empty_world\<lparr>w_tick := 1\<rparr>)"
  by (simp add: blob_candidate_def sample_location_def sample_blob_def blob_env_def content_env_eval empty_world_def
      is_supported_def supported_suffixes_def EXTRACTORS_def removeprefix_def endswith_def startswith_iff stored_sha256_def
      truthy_def read_blob_def next_tick_def op_simps str_or_def parent_folder_def empty_path_def path_eval text_eval Let_def)

theorem blob_hash_agreement_witness:
  "fst (fetch_content_hash blob_env (BlobContentSource ''in/'') (sample_message\<lparr>ms_drive_item_id := ''a.txt''\<rparr>) empty_world)
     = Inr (Some (hash_bytes [104, 105]))"
proof -
  have name: "bi_name sample_blob = lo_prefix sample_location @ ''a.txt''" "canonical_relative ''a.txt''"
    by (simp_all add: sample_blob_def sample_location_def canonical_relative_def path_eval text_eval)
  have meta: "\<forall>t. b_metadata blob_env t (bi_name sample_blob) = Inr (bi_metadata sample_blob)"
    and bytes: "\<forall>t. b_read blob_env t (bi_name sample_blob) = Inr [104, 105]"
    by (simp_all add: blob_env_def sample_blob_def)
  have "ms_drive_item_id (sample_message\<lparr>ms_drive_item_id := ''a.txt''\<rparr>) = ca_drive_item_id \<lparr>ca_drive_item_id = ''a.txt'',
      ca_content_hash = hash_bytes [104, 105], ca_file_name = Some ''a.txt'', ca_mime_type = Some ''text/plain'', ca_folder_path = None\<rparr>"
    by simp
  from blob_hash_agreement [OF name meta bytes _ this, of empty_world empty_world] show ?thesis
    unfolding sample_blob_candidate by (simp add: sample_location_def)
qed

section \<open>Where the blob walker and the processor part\<close>

text \<open>
  The walker normalises the name below the prefix as a path; the processor concatenates. Two blobs
  whose names differ only in an empty segment get one identity, and the locator names the other blob.
\<close>

lemma blob_names_collide:
  "path_str (parse_path ''a//b.txt'') = path_str (parse_path ''a/b.txt'')
   \<and> blob_name ''in/'' (sample_message\<lparr>ms_drive_item_id := path_str (parse_path ''a//b.txt'')\<rparr>) = ''in/a/b.txt''"
  by (simp add: blob_name_def path_eval text_eval)

text \<open>
  A blob is selected by its suffix and labelled by its content type: with the service's default type
  the work item carries a MIME type for which extraction has no extractor.
\<close>

lemma default_content_type_unsupported:
  "str_or (Some ''application/octet-stream'') (mime_type_for_suffix ''.txt'') = Some ''application/octet-stream''
   \<and> extract_text_from_bytes L data ''application/octet-stream'' = Inl (UnsupportedFormatError (unsupported_mime_message ''application/octet-stream''))"
  by (simp add: str_or_def truthy_def extract_text_from_bytes_def suffix_for_mime_def normalized_mime_def MIME_TO_SUFFIX_def
      SUFFIX_TO_MIME_def TEXT_MIME_PREFIX_def startswith_iff text_eval Let_def)

end
