(* ===== verification/PyRegex.thy ===== *)
theory PyRegex
  imports PyText
begin

text \<open>
  A backtracking matcher for the regular expressions of the program, as \<^verbatim>\<open>re.match\<close> runs them: a
  pattern is a sequence of single-character tests and repetitions of one, greedy or lazy, one of
  which may be the captured group. Alternatives are tried in the order Python tries them, so the
  captured text is the one \<^verbatim>\<open>match.group(1)\<close> returns, and every search ends because it follows the
  pattern's structure.
\<close>

section \<open>Patterns and matching\<close>

datatype greed = Greedy | Lazy

datatype item =
    One "char \<Rightarrow> bool"
  | Many greed nat "nat option" "char \<Rightarrow> bool"
  | Group greed nat "nat option" "char \<Rightarrow> bool"
  | AtEnd

definition rep_counts :: "greed \<Rightarrow> nat \<Rightarrow> nat option \<Rightarrow> (char \<Rightarrow> bool) \<Rightarrow> string \<Rightarrow> nat list" where
  "rep_counts g lo hi P s =
     (let n = length (takeWhile P s);
          m = (case hi of None \<Rightarrow> n | Some h \<Rightarrow> min n h);
          ks = [lo..<Suc m]
      in case g of Greedy \<Rightarrow> rev ks | Lazy \<Rightarrow> ks)"

fun first_some :: "('a \<Rightarrow> 'b option) \<Rightarrow> 'a list \<Rightarrow> 'b option" where
  "first_some f [] = None"
| "first_some f (x # xs) = (case f x of Some y \<Rightarrow> Some y | None \<Rightarrow> first_some f xs)"

text \<open>
  \<open>rmatch items s g\<close> is \<open>None\<close> when the pattern does not match at the start of \<open>s\<close>, otherwise
  the group captured last (\<open>g\<close> so far). \<open>AtEnd\<close> is \<^verbatim>\<open>$\<close>: the end, or before a final newline.
\<close>

fun rmatch :: "item list \<Rightarrow> string \<Rightarrow> string option \<Rightarrow> string option option" where
  "rmatch [] s g = Some g"
| "rmatch (One P # r) s g = (case s of [] \<Rightarrow> None | c # s' \<Rightarrow> if P c then rmatch r s' g else None)"
| "rmatch (Many gr lo hi P # r) s g =
     first_some (\<lambda>k. rmatch r (drop k s) g) (rep_counts gr lo hi P s)"
| "rmatch (Group gr lo hi P # r) s g =
     first_some (\<lambda>k. rmatch r (drop k s) (Some (take k s))) (rep_counts gr lo hi P s)"
| "rmatch (AtEnd # r) s g = (if s = [] \<or> s = [CHR 0x0A] then rmatch r s g else None)"

definition not_newline :: "char \<Rightarrow> bool" where
  "not_newline c \<longleftrightarrow> c \<noteq> CHR 0x0A"

text \<open>The group of \<^verbatim>\<open>pattern.match(line)\<close>, for a pattern with one group that is always entered.\<close>

definition group1 :: "item list \<Rightarrow> string \<Rightarrow> string option" where
  "group1 items s = (case rmatch items s None of None \<Rightarrow> None | Some g \<Rightarrow> g)"

definition matches :: "item list \<Rightarrow> string \<Rightarrow> bool" where
  "matches items s \<longleftrightarrow> rmatch items s None \<noteq> None"

section \<open>Searching the alternatives\<close>

lemma first_some_None_iff: "first_some f xs = None \<longleftrightarrow> (\<forall>x \<in> set xs. f x = None)"
  by (induction xs) (auto split: option.splits)

lemma first_some_skip:
  "\<forall>x \<in> set xs. f x = None \<Longrightarrow> first_some f (xs @ ys) = first_some f ys"
  by (induction xs) auto

lemma first_some_eqI:
  assumes "xs = us @ x # vs" and "\<forall>u \<in> set us. f u = None" and "f x = Some y"
  shows "first_some f xs = Some y"
  using assms by (simp add: first_some_skip)

lemma takeWhile_all: "\<forall>c \<in> set s. P c \<Longrightarrow> takeWhile P s = s"
  by (induction s) auto

lemma drop_has_break:
  assumes "\<exists>c \<in> set (dropWhile P s). \<not> P c" and "k \<le> length (takeWhile P s)"
  shows "\<exists>c \<in> set (drop k s). \<not> P c"
proof -
  have "drop k s = drop k (takeWhile P s) @ dropWhile P s"
    using assms(2) by (metis diff_is_0_eq' drop0 drop_append takeWhile_dropWhile_id)
  with assms(1) show ?thesis by auto
qed

section \<open>The tail shared by headings and bullets\<close>

text \<open>The patterns \<^verbatim>\<open>\s*$\<close>, \<^verbatim>\<open>(.+?)\s*$\<close> and \<^verbatim>\<open>\s+(.+?)\s*$\<close>.\<close>

definition blank_tail :: "item list" where
  "blank_tail = [Many Greedy 0 None is_space, AtEnd]"

definition lazy_tail :: "item list" where
  "lazy_tail = Group Lazy 1 None not_newline # blank_tail"

definition spaced_tail :: "item list" where
  "spaced_tail = Many Greedy 1 None is_space # lazy_tail"

text \<open>\<^verbatim>\<open>\s*$\<close> on a line: it matches exactly when only white space is left.\<close>

definition plain_line :: "string \<Rightarrow> bool" where
  "plain_line s \<longleftrightarrow> (\<forall>c \<in> set s. not_newline c)"

lemma is_space_newline: "is_space CHR 0x0A"
  by (simp add: is_space_def is_space_cp_def)

lemma match_blank_tail:
  "rmatch blank_tail s g = (if \<forall>c \<in> set s. is_space c then Some g else None)"
proof (cases "\<forall>c \<in> set s. is_space c")
  case True
  then have "rep_counts Greedy 0 None is_space s = length s # rev [0..<length s]"
    by (simp add: rep_counts_def Let_def takeWhile_all)
  with True show ?thesis by (simp add: blank_tail_def)
next
  case False
  then have dw: "\<exists>c \<in> set (dropWhile is_space s). \<not> is_space c"
    by (metis hd_dropWhile hd_in_set dropWhile_eq_Nil_conv)
  have "\<forall>k \<in> set (rep_counts Greedy 0 None is_space s). rmatch [AtEnd] (drop k s) g = None"
  proof
    fix k
    assume "k \<in> set (rep_counts Greedy 0 None is_space s)"
    then have "k \<le> length (takeWhile is_space s)" by (auto simp: rep_counts_def Let_def)
    with dw have "\<exists>c \<in> set (drop k s). \<not> is_space c" by (rule drop_has_break)
    then show "rmatch [AtEnd] (drop k s) g = None"
      using is_space_newline by auto
  qed
  then have "first_some (\<lambda>k. rmatch [AtEnd] (drop k s) g) (rep_counts Greedy 0 None is_space s) = None"
    by (simp only: first_some_None_iff)
  with False show ?thesis by (simp add: blank_tail_def)
qed

definition rstrip :: "string \<Rightarrow> string" where
  "rstrip s = rev (dropWhile is_space (rev s))"

lemma rstrip_prefix: "take (length (rstrip s)) s = rstrip s"
  unfolding rstrip_def
  by (metis append_eq_conv_conj rev_append rev_rev_ident takeWhile_dropWhile_id)

lemma rstrip_rest: "\<forall>c \<in> set (drop (length (rstrip s)) s). is_space c"
proof -
  have "drop (length (rstrip s)) s = rev (takeWhile is_space (rev s))"
    unfolding rstrip_def
    by (metis append_eq_conv_conj rev_append rev_rev_ident takeWhile_dropWhile_id)
  then show ?thesis by (auto dest: set_takeWhileD)
qed

lemma drop_before_rstrip:
  assumes "k < length (rstrip s)"
  shows "\<exists>c \<in> set (drop k s). \<not> is_space c"
proof -
  let ?r = "rstrip s"
  have ne: "?r \<noteq> []" using assms by auto
  then have "\<not> is_space (last ?r)"
    unfolding rstrip_def by (metis hd_dropWhile last_rev rev_is_Nil_conv)
  moreover have "last ?r \<in> set (drop k ?r)"
    using assms by (metis drop_eq_Nil last_drop last_in_set not_le)
  moreover have "set (drop k ?r) \<subseteq> set (drop k s)"
    by (metis rstrip_prefix drop_take set_take_subset)
  ultimately show ?thesis by blast
qed

text \<open>\<^verbatim>\<open>(.+?)\s*$\<close>: the shortest capture that leaves only white space.\<close>

definition lazy_capture :: "string \<Rightarrow> string option" where
  "lazy_capture s = (if s = [] then None else if rstrip s = [] then Some (take 1 s) else Some (rstrip s))"

lemma match_lazy_tail:
  assumes "plain_line s"
  shows "rmatch lazy_tail s g = map_option Some (lazy_capture s)"
proof (cases "s = []")
  case True
  then show ?thesis by (simp add: rep_counts_def lazy_capture_def lazy_tail_def)
next
  case False
  let ?L = "max 1 (length (rstrip s))"
  let ?f = "\<lambda>k. rmatch blank_tail (drop k s) (Some (take k s))"
  have counts: "rep_counts Lazy 1 None not_newline s = [1..<Suc (length s)]"
    using assms by (simp add: rep_counts_def Let_def plain_line_def takeWhile_all)
  have "length (rstrip s) \<le> length s" by (metis rstrip_prefix length_take min.cobounded1)
  then have L: "1 \<le> ?L" "?L < Suc (length s)" using False by (auto simp: Suc_le_eq)
  then have split: "[1..<Suc (length s)] = [1..<?L] @ ?L # [Suc ?L..<Suc (length s)]"
    by (metis upt_add_eq_append le_add_diff_inverse less_imp_le upt_conv_Cons)
  have before: "\<forall>k \<in> set [1..<?L]. ?f k = None"
  proof
    fix k
    assume "k \<in> set [1..<?L]"
    then have "k < length (rstrip s)" by auto
    then show "?f k = None" using drop_before_rstrip by (auto simp: match_blank_tail)
  qed
  have "\<forall>c \<in> set (drop ?L s). is_space c"
    using rstrip_rest [of s] by (metis max.cobounded2 set_drop_subset_set_drop subset_code(1))
  then have at: "?f ?L = Some (Some (take ?L s))" by (simp add: match_blank_tail)
  have "rmatch lazy_tail s g = first_some ?f [1..<Suc (length s)]"
    by (simp only: lazy_tail_def rmatch.simps counts)
  also have "\<dots> = Some (Some (take ?L s))" by (rule first_some_eqI [OF split before at])
  finally show ?thesis
    using False by (cases "rstrip s = []") (simp_all add: lazy_capture_def rstrip_prefix max_def Suc_le_eq)
qed

text \<open>
  \<^verbatim>\<open>\s+(.+?)\s*$\<close>. After at least one white space character: the rest without its surrounding white
  space; when there is nothing but white space, the greedy repetition gives one character back and
  that character is captured.
\<close>

definition spaced_capture :: "string \<Rightarrow> string option" where
  "spaced_capture s =
     (if s = [] \<or> \<not> is_space (hd s) then None
      else if dropWhile is_space s \<noteq> [] then Some (strip s)
      else if 2 \<le> length s then Some [last s] else None)"

lemma spaced_capture_nonempty:
  assumes "spaced_capture s = Some n"
  shows "n \<noteq> []"
proof (cases "dropWhile is_space s = []")
  case True
  with assms show ?thesis by (auto simp: spaced_capture_def split: if_splits)
next
  case False
  then have "\<not> is_space (hd (dropWhile is_space s))" by (rule hd_dropWhile)
  then have "dropWhile is_space (rev (dropWhile is_space s)) \<noteq> []"
    using hd_in_set [OF False] by (auto simp del: dropWhile_eq_Nil_conv simp add: dropWhile_eq_Nil_conv [of is_space "rev _"])
  then have "strip s \<noteq> []" by (simp add: strip_def strip_by_def)
  with assms False show ?thesis by (auto simp: spaced_capture_def split: if_splits)
qed

lemma strip_rstrip: "strip s = rstrip (dropWhile is_space s)"
  by (simp add: strip_def strip_by_def rstrip_def)

lemma plain_line_drop: "plain_line s \<Longrightarrow> plain_line (drop k s)"
  by (auto simp: plain_line_def dest: in_set_dropD)

lemma rstrip_Nil_iff: "rstrip s = [] \<longleftrightarrow> (\<forall>c \<in> set s. is_space c)"
  by (simp add: rstrip_def)

lemma match_spaced_tail:
  assumes "plain_line s"
  shows "rmatch spaced_tail s g = map_option Some (spaced_capture s)"
proof -
  let ?n = "length (takeWhile is_space s)"
  let ?f = "\<lambda>k. rmatch lazy_tail (drop k s) g"
  have f: "?f k = map_option Some (lazy_capture (drop k s))" for k
    using match_lazy_tail [OF plain_line_drop [OF assms]] .
  have counts: "rep_counts Greedy 1 None is_space s = rev [1..<Suc ?n]"
    by (simp add: rep_counts_def Let_def)
  have m: "rmatch spaced_tail s g = first_some ?f (rev [1..<Suc ?n])"
    by (simp only: spaced_tail_def rmatch.simps counts)
  have dropn: "drop ?n s = dropWhile is_space s"
    by (metis append_eq_conv_conj takeWhile_dropWhile_id)
  show ?thesis
  proof (cases "?n = 0")
    case True
    then have "s = [] \<or> \<not> is_space (hd s)" by (cases s) (auto split: if_splits)
    with True m show ?thesis by (simp add: spaced_capture_def)
  next
    case False
    then have hd: "s \<noteq> []" "is_space (hd s)" by (cases s; auto split: if_splits)+
    have rev1: "rev [1..<Suc ?n] = ?n # rev [1..<?n]" using False by (cases ?n) auto
    show ?thesis
    proof (cases "dropWhile is_space s = []")
      case body: False
      then have "\<not> is_space (hd (dropWhile is_space s))" by (rule hd_dropWhile)
      with body have "rstrip (dropWhile is_space s) \<noteq> []"
        by (metis rstrip_Nil_iff hd_in_set)
      with body have "?f ?n = Some (Some (strip s))"
        by (simp only: f) (simp add: dropn lazy_capture_def strip_rstrip)
      with m rev1 hd body show ?thesis by (simp add: spaced_capture_def)
    next
      case True
      then have n: "?n = length s" by (metis append_Nil2 takeWhile_dropWhile_id)
      have fn: "?f ?n = None" by (simp only: f) (simp add: n lazy_capture_def)
      show ?thesis
      proof (cases "2 \<le> length s")
        case True
        then have rev2: "rev [1..<?n] = (?n - 1) # rev [1..<?n - 1]"
          unfolding n by (cases "length s") auto
        have "drop (?n - 1) s = [last s]"
          unfolding n using hd(1) by (metis append_butlast_last_id append_eq_conv_conj length_butlast)
        moreover have "is_space (last s)"
          using \<open>dropWhile is_space s = []\<close> hd(1) by simp
        ultimately have "?f (?n - 1) = Some (Some [last s])"
          unfolding f by (simp add: lazy_capture_def rstrip_def)
        with m rev1 rev2 fn hd True \<open>dropWhile is_space s = []\<close> show ?thesis
          by (simp add: spaced_capture_def)
      next
        case short: False
        then have "length s = 1" using hd(1) by (cases s) (auto simp: not_le)
        with n have nil: "rev [1..<?n] = []" by simp
        have "first_some ?f (rev [1..<Suc ?n]) = None"
          by (simp only: rev1 nil first_some.simps fn option.case)
        with m hd short \<open>dropWhile is_space s = []\<close> show ?thesis
          by (simp add: spaced_capture_def)
      qed
    qed
  qed
qed

text \<open>Evaluation of a match on literals.\<close>

lemmas regex_eval = group1_def matches_def spaced_tail_def lazy_tail_def blank_tail_def
  rep_counts_def not_newline_def

end
