(* ===== verification/Categories.thy ===== *)
theory Categories
  imports PyRegex Errors
begin

text \<open>
  The category-file parser of \<^verbatim>\<open>src/categories.py\<close>: its three regular expressions, the split of the
  Markdown into blocks, the parse of a block, and the taxonomy with its reserved \<^verbatim>\<open>unknown\<close>.
\<close>

section \<open>The data model\<close>

definition UNKNOWN_CATEGORY :: string where
  "UNKNOWN_CATEGORY = ''unknown''"

record category =
  cat_name :: string
  cat_description :: string
  cat_examples :: "string list"

record category_set =
  cs_categories :: "category list"

definition names :: "category_set \<Rightarrow> string list" where
  "names cs = map cat_name (cs_categories cs)"

definition enum_values :: "category_set \<Rightarrow> string list" where
  "enum_values cs = names cs @ [UNKNOWN_CATEGORY]"

section \<open>The regular expressions\<close>

text \<open>
  \<^verbatim>\<open>^##\s+(.+?)\s*$\<close>, \<^verbatim>\<open>^#{2,6}\S\<close> and \<^verbatim>\<open>^\s*[-*+]\s+(.+?)\s*$\<close>; \<open>spaced_tail\<close> is the common
  \<^verbatim>\<open>\s+(.+?)\s*$\<close>, and \<^verbatim>\<open>^\<close> says nothing under \<^verbatim>\<open>re.match\<close>.
\<close>

definition H2_HEADING :: "item list" where
  "H2_HEADING = [One (\<lambda>c. c = CHR ''#''), One (\<lambda>c. c = CHR ''#'')] @ spaced_tail"

definition MALFORMED_HEADING :: "item list" where
  "MALFORMED_HEADING = [Many Greedy 2 (Some 6) (\<lambda>c. c = CHR ''#''), One (\<lambda>c. \<not> is_space c)]"

definition BULLET :: "item list" where
  "BULLET = [Many Greedy 0 None is_space, One (\<lambda>c. c \<in> {CHR ''-'', CHR ''*'', CHR ''+''})]
     @ spaced_tail"

section \<open>The parser\<close>

definition append_line :: "(string \<times> string list) list \<Rightarrow> string \<Rightarrow> (string \<times> string list) list" where
  "append_line blocks l = butlast blocks @ [(fst (last blocks), snd (last blocks) @ [l])]"

definition malformed_message :: "string \<Rightarrow> string" where
  "malformed_message l = ''Malformed heading (missing space after '' @ [CHR 0x27, CHR ''#'', CHR 0x27]
     @ ''): '' @ py_repr l"

fun split_lines :: "(string \<times> string list) list \<Rightarrow> string list \<Rightarrow> exn + (string \<times> string list) list" where
  "split_lines blocks [] = Inr blocks"
| "split_lines blocks (l # ls) =
     (case group1 H2_HEADING l of
        Some name \<Rightarrow> split_lines (blocks @ [(name, [])]) ls
      | None \<Rightarrow>
          if matches MALFORMED_HEADING l then Inl (CategoryFileError (malformed_message l))
          else if blocks \<noteq> [] then split_lines (append_line blocks l) ls
          else split_lines blocks ls)"

definition split_into_blocks :: "string \<Rightarrow> exn + (string \<times> string list) list" where
  "split_into_blocks markdown = split_lines [] (splitlines markdown)"

fun scan_body :: "string list \<Rightarrow> string list \<Rightarrow> string list \<Rightarrow> string list \<times> string list" where
  "scan_body description_parts examples [] = (description_parts, examples)"
| "scan_body description_parts examples (l # ls) =
     (case group1 BULLET l of
        Some e \<Rightarrow> scan_body description_parts (examples @ [e]) ls
      | None \<Rightarrow>
          if examples = [] \<and> strip l \<noteq> [] then scan_body (description_parts @ [strip l]) examples ls
          else scan_body description_parts examples ls)"

definition build_category :: "string \<Rightarrow> string list \<Rightarrow> exn + category" where
  "build_category name body =
     (case scan_body [] [] body of (description_parts, examples) \<Rightarrow>
        if examples = [] then Inl (CategoryFileError (''Category '' @ py_repr name @ '' has no few-shot examples.''))
        else Inr \<lparr>cat_name = name, cat_description = join_with '' '' description_parts, cat_examples = examples\<rparr>)"

fun collect_categories ::
  "category list \<Rightarrow> string set \<Rightarrow> (string \<times> string list) list \<Rightarrow> exn + category list" where
  "collect_categories categories seen [] = Inr categories"
| "collect_categories categories seen ((name, body) # blocks) =
     (let lowered = lower name in
      if lowered = UNKNOWN_CATEGORY then collect_categories categories seen blocks
      else if lowered \<in> seen then Inl (CategoryFileError (''Duplicate category: '' @ py_repr name))
      else case build_category name body of
        Inl e \<Rightarrow> Inl e
      | Inr c \<Rightarrow> collect_categories (categories @ [c]) (insert lowered seen) blocks)"

definition no_categories_message :: string where
  "no_categories_message = ''Category file defines no categories (expected ''
     @ [CHR 0x27] @ ''## Name'' @ [CHR 0x27] @ '' headings).''"

definition parse_categories :: "string \<Rightarrow> exn + category_set" where
  "parse_categories markdown =
     (case split_into_blocks markdown of
        Inl e \<Rightarrow> Inl e
      | Inr blocks \<Rightarrow>
          (case collect_categories [] {} blocks of
             Inl e \<Rightarrow> Inl e
           | Inr categories \<Rightarrow>
               if categories = [] then Inl (CategoryFileError no_categories_message)
               else Inr \<lparr>cs_categories = categories\<rparr>))"

text \<open>
  Reading the file is the operating system's: \<open>read_text\<close> gives the decoded text, or \<open>None\<close> where
  it raises \<^verbatim>\<open>OSError\<close> or \<^verbatim>\<open>UnicodeDecodeError\<close>.
\<close>

definition parse_category_file :: "(string \<Rightarrow> string option) \<Rightarrow> string \<Rightarrow> exn + category_set" where
  "parse_category_file read_text path =
     (case read_text path of
        None \<Rightarrow> Inl (CategoryFileError (''Cannot read category file: '' @ path))
      | Some t \<Rightarrow> parse_categories t)"

section \<open>What the regular expressions accept\<close>

definition heading_name :: "string \<Rightarrow> string option" where
  "heading_name l = (if take 2 l = ''##'' then spaced_capture (drop 2 l) else None)"

definition bullet_text :: "string \<Rightarrow> string option" where
  "bullet_text l = (case dropWhile is_space l of
       [] \<Rightarrow> None
     | c # r \<Rightarrow> if c \<in> {CHR ''-'', CHR ''*'', CHR ''+''} then spaced_capture r else None)"

lemma plain_line_tail: "plain_line (c # s) \<Longrightarrow> plain_line s"
  by (simp add: plain_line_def)

lemma group1_H2_HEADING:
  assumes "plain_line l"
  shows "group1 H2_HEADING l = heading_name l"
proof (cases "take 2 l = ''##''")
  case True
  then obtain r where l: "l = CHR ''#'' # CHR ''#'' # r"
    by (cases l; cases "tl l") auto
  then have "plain_line r" using assms by (simp add: plain_line_def)
  from match_spaced_tail [OF this, of None]
  show ?thesis
    by (cases "spaced_capture r") (simp_all add: l group1_def H2_HEADING_def heading_name_def)
next
  case False
  then have "rmatch H2_HEADING l None = None"
    by (cases l; cases "tl l") (auto simp: H2_HEADING_def)
  with False show ?thesis by (simp add: group1_def heading_name_def)
qed

lemma matches_MALFORMED_HEADING:
  "matches MALFORMED_HEADING l \<longleftrightarrow> (\<exists>c r. l = CHR ''#'' # CHR ''#'' # c # r \<and> \<not> is_space c)"
    (is "_ \<longleftrightarrow> ?R")
proof
  let ?h = "\<lambda>c. c = CHR ''#''"
  assume "matches MALFORMED_HEADING l"
  then obtain k where k: "k \<in> set (rep_counts Greedy 2 (Some 6) ?h l)"
    and m: "rmatch [One (\<lambda>c. \<not> is_space c)] (drop k l) None \<noteq> None"
    by (auto simp: matches_def MALFORMED_HEADING_def first_some_None_iff)
  then have k2: "2 \<le> k" "k \<le> length (takeWhile ?h l)" by (auto simp: rep_counts_def Let_def)
  then have "take k (takeWhile ?h l) = take k l"
    by (metis append_take_drop_id diff_is_0_eq take0 take_append append_Nil2 takeWhile_dropWhile_id)
  then have hs: "\<forall>c \<in> set (take k l). c = CHR ''#''" by (metis in_set_takeD set_takeWhileD)
  have nsp: "drop k l \<noteq> [] \<and> \<not> is_space (hd (drop k l))" using m by (cases "drop k l") (auto split: if_splits)
  have sp: "\<not> is_space CHR ''#''" by (simp add: is_space_def is_space_cp_def)
  have len: "2 < length l" using nsp k2(1) by (metis drop_eq_Nil le_less_trans not_le)
  then obtain a b c r where l: "l = a # b # c # r"
    by (cases l; cases "tl l"; cases "tl (tl l)") auto
  have "a = CHR ''#''" "b = CHR ''#''"
    using hs k2(1) l by (cases k; cases "k - 1"; auto)+
  moreover have "\<not> is_space c"
  proof (cases "k = 2")
    case True
    with nsp l show ?thesis by simp
  next
    case False
    then have "c \<in> set (take k l)" using k2(1) l by (cases k; cases "k - 1"; cases "k - 2") auto
    with hs sp show ?thesis by metis
  qed
  ultimately show ?R using l by blast
next
  assume ?R
  then obtain c r where l: "l = CHR ''#'' # CHR ''#'' # c # r" and c: "\<not> is_space c" by blast
  have "2 \<in> set (rep_counts Greedy 2 (Some 6) (\<lambda>c. c = CHR ''#'') l)"
    by (simp add: l rep_counts_def Let_def del: upt_Suc)
  moreover have "rmatch [One (\<lambda>c. \<not> is_space c)] (drop 2 l) None \<noteq> None" using c by (simp add: l)
  ultimately show "matches MALFORMED_HEADING l"
    by (auto simp: matches_def MALFORMED_HEADING_def first_some_None_iff)
qed

lemma group1_BULLET:
  assumes "plain_line l"
  shows "group1 BULLET l = bullet_text l"
proof -
  let ?Q = "\<lambda>c. c \<in> {CHR ''-'', CHR ''*'', CHR ''+''}"
  let ?n = "length (takeWhile is_space l)"
  let ?f = "\<lambda>k. rmatch (One ?Q # spaced_tail) (drop k l) None"
  have m: "rmatch BULLET l None = first_some ?f (?n # rev [0..<?n])"
    by (simp add: BULLET_def rep_counts_def Let_def del: rmatch.simps(2))
  have dropn: "drop ?n l = dropWhile is_space l"
    by (metis append_eq_conv_conj takeWhile_dropWhile_id)
  have marks: "\<not> is_space CHR ''-''" "\<not> is_space CHR ''*''" "\<not> is_space CHR ''+''"
    by (simp_all add: is_space_def is_space_cp_def)
  have earlier: "\<forall>k \<in> set (rev [0..<?n]). ?f k = None"
  proof
    fix k
    assume "k \<in> set (rev [0..<?n])"
    then have k: "k < ?n" by simp
    then have "is_space (l ! k)" by (metis nth_mem set_takeWhileD takeWhile_nth)
    moreover have "drop k l = l ! k # drop (Suc k) l"
      using k by (metis Cons_nth_drop_Suc length_takeWhile_le less_le_trans)
    ultimately show "?f k = None" using marks by auto
  qed
  then have "first_some ?f (rev [0..<?n]) = None" by (simp only: first_some_None_iff)
  then have eq: "rmatch BULLET l None = ?f ?n" using m by (simp split: option.splits)
  show ?thesis
  proof (cases "dropWhile is_space l")
    case Nil
    have "?f ?n = None" by (simp only: dropn Nil rmatch.simps list.case)
    with eq have "rmatch BULLET l None = None" by simp
    then show ?thesis unfolding group1_def bullet_text_def Nil by simp
  next
    case (Cons c r)
    have "plain_line (c # r)" using assms plain_line_drop [of l ?n] dropn Cons by simp
    then have "rmatch spaced_tail r None = map_option Some (spaced_capture r)"
      by (intro match_spaced_tail) (simp add: plain_line_def)
    then have "rmatch BULLET l None = (if ?Q c then map_option Some (spaced_capture r) else None)"
      using eq Cons by (simp add: dropn)
    then show ?thesis using Cons
      by (cases "spaced_capture r") (auto simp: group1_def bullet_text_def)
  qed
qed

lemma plain_line_splitlines: "l \<in> set (splitlines s) \<Longrightarrow> plain_line l"
  using splitlines_no_breaks [of l s "CHR 0x0A"]
  by (auto simp: plain_line_def not_newline_def is_line_break_def Let_def)

lemma heading_not_malformed: "plain_line l \<Longrightarrow> matches MALFORMED_HEADING l \<Longrightarrow> group1 H2_HEADING l = None"
  by (auto simp: group1_H2_HEADING matches_MALFORMED_HEADING heading_name_def spaced_capture_def)

section \<open>Blocks\<close>

lemma split_lines_malformed:
  "l \<in> set ls \<Longrightarrow> (\<forall>x \<in> set ls. plain_line x) \<Longrightarrow> matches MALFORMED_HEADING l \<Longrightarrow>
    \<exists>m. split_lines blocks ls = Inl (CategoryFileError m)"
proof (induction blocks ls rule: split_lines.induct)
  case (1 blocks)
  then show ?case by simp
next
  case (2 blocks x ls)
  then show ?case using heading_not_malformed
    by (auto split: option.splits)
qed

lemma split_lines_error: "split_lines blocks ls = Inl e \<Longrightarrow> \<exists>m. e = CategoryFileError m"
  by (induction blocks ls rule: split_lines.induct) (auto split: option.splits if_splits)

lemma split_lines_ok:
  "\<forall>l \<in> set ls. \<not> matches MALFORMED_HEADING l \<Longrightarrow> \<exists>bs. split_lines blocks ls = Inr bs"
  by (induction blocks ls rule: split_lines.induct) (auto split: option.splits)

lemma split_lines_body:
  assumes "\<forall>l \<in> set body. group1 H2_HEADING l = None \<and> \<not> matches MALFORMED_HEADING l"
  shows "split_lines (bs @ [(n, ls)]) (body @ rest) = split_lines (bs @ [(n, ls @ body)]) rest"
  using assms by (induction body arbitrary: ls) (simp_all add: append_line_def)

lemma split_lines_block:
  assumes "group1 H2_HEADING h = Some n"
    and "\<forall>l \<in> set body. group1 H2_HEADING l = None \<and> \<not> matches MALFORMED_HEADING l"
  shows "split_lines bs (h # body @ rest) = split_lines (bs @ [(n, body)]) rest"
  using assms split_lines_body [OF assms(2), of bs n "[]" rest] by simp

section \<open>Categories of a block list\<close>

definition is_real :: "string \<times> string list \<Rightarrow> bool" where
  "is_real b \<longleftrightarrow> lower (fst b) \<noteq> UNKNOWN_CATEGORY"

lemma scan_body_examples:
  "snd (scan_body ds es ls) = es @ List.map_filter (group1 BULLET) ls"
  by (induction ds es ls rule: scan_body.induct) (auto simp: List.map_filter_simps split: option.splits)

lemma build_category_ok:
  "(\<exists>c. build_category n body = Inr c) \<longleftrightarrow> (\<exists>l \<in> set body. group1 BULLET l \<noteq> None)"
proof -
  have "snd (scan_body [] [] body) = [] \<longleftrightarrow> (\<forall>l \<in> set body. group1 BULLET l = None)"
    unfolding scan_body_examples by (auto simp: List.map_filter_def filter_empty_conv)
  then show ?thesis by (auto simp: build_category_def split: prod.splits)
qed

lemma build_category_props:
  "build_category n body = Inr c \<Longrightarrow> cat_name c = n \<and> cat_examples c \<noteq> []"
  by (auto simp: build_category_def split: prod.splits if_splits)

lemma build_category_error: "build_category n body = Inl e \<Longrightarrow> \<exists>m. e = CategoryFileError m"
  by (auto simp: build_category_def split: prod.splits if_splits)

lemma collect_error: "collect_categories cs seen bs = Inl e \<Longrightarrow> \<exists>m. e = CategoryFileError m"
  by (induction cs seen bs rule: collect_categories.induct)
    (auto simp: Let_def dest: build_category_error split: if_splits sum.splits)

lemma collect_names:
  "collect_categories cs seen bs = Inr out \<Longrightarrow>
    map cat_name out = map cat_name cs @ map fst (filter is_real bs)"
proof (induction cs seen bs rule: collect_categories.induct)
  case (1 cs seen)
  then show ?case by simp
next
  case (2 cs seen n body bs)
  then show ?case
    by (auto simp: Let_def is_real_def dest: build_category_props split: if_splits sum.splits)
qed

lemma collect_examples:
  "collect_categories cs seen bs = Inr out \<Longrightarrow> \<forall>c \<in> set cs. cat_examples c \<noteq> [] \<Longrightarrow>
    \<forall>c \<in> set out. cat_examples c \<noteq> []"
proof (induction cs seen bs rule: collect_categories.induct)
  case (1 cs seen)
  then show ?case by simp
next
  case (2 cs seen n body bs)
  then show ?case
    by (auto simp: Let_def dest: build_category_props split: if_splits sum.splits)
qed

lemma collect_ok_iff:
  "(\<exists>out. collect_categories cs seen bs = Inr out) \<longleftrightarrow>
     distinct (map (lower \<circ> fst) (filter is_real bs))
     \<and> set (map (lower \<circ> fst) (filter is_real bs)) \<inter> seen = {}
     \<and> (\<forall>b \<in> set (filter is_real bs). \<exists>l \<in> set (snd b). group1 BULLET l \<noteq> None)"
proof (induction cs seen bs rule: collect_categories.induct)
  case (1 cs seen)
  then show ?case by simp
next
  case (2 cs seen n body bs)
  show ?case
  proof (cases "lower n = UNKNOWN_CATEGORY \<or> lower n \<in> seen")
    case True
    then show ?thesis using "2.IH"(1) by (auto simp: is_real_def Let_def)
  next
    case False
    show ?thesis
    proof (cases "build_category n body")
      case (Inl e)
      then have "\<not> (\<exists>l \<in> set body. group1 BULLET l \<noteq> None)" using build_category_ok [of n body] by auto
      with Inl False show ?thesis by (auto simp: is_real_def Let_def)
    next
      case (Inr c)
      then have "\<exists>l \<in> set body. group1 BULLET l \<noteq> None" using build_category_ok [of n body] by auto
      with Inr False "2.IH"(2) show ?thesis by (auto simp: is_real_def Let_def)
    qed
  qed
qed

section \<open>Successful parses\<close>

lemma parse_categories_eq_Inr:
  "parse_categories md = Inr cs \<longleftrightarrow>
     (\<exists>bs. split_into_blocks md = Inr bs \<and> collect_categories [] {} bs = Inr (cs_categories cs)
        \<and> cs_categories cs \<noteq> [])"
  by (cases cs) (auto simp: parse_categories_def split: sum.splits)

lemma lower_UNKNOWN: "lower UNKNOWN_CATEGORY = UNKNOWN_CATEGORY"
  by (simp add: UNKNOWN_CATEGORY_def lower_def lower_char_def is_upper_cp_def)

lemma parsed_names:
  assumes "parse_categories md = Inr cs"
  shows "distinct (map lower (names cs))" and "UNKNOWN_CATEGORY \<notin> set (map lower (names cs))"
    and "names cs \<noteq> []"
proof -
  obtain bs where c: "collect_categories [] {} bs = Inr (cs_categories cs)" and ne: "cs_categories cs \<noteq> []"
    using assms by (auto simp: parse_categories_eq_Inr)
  have n: "names cs = map fst (filter is_real bs)"
    using collect_names [OF c] by (simp add: names_def)
  then have "map lower (names cs) = map (lower \<circ> fst) (filter is_real bs)" by simp
  moreover have "distinct (map (lower \<circ> fst) (filter is_real bs))"
    using c collect_ok_iff [of "[]" "{}" bs] by blast
  ultimately show "distinct (map lower (names cs))" by simp
  show "UNKNOWN_CATEGORY \<notin> set (map lower (names cs))" by (auto simp: n is_real_def)
  show "names cs \<noteq> []" using ne by (simp add: names_def)
qed

lemma split_lines_names:
  "split_lines blocks ls = Inr bs \<Longrightarrow> \<forall>b \<in> set blocks. fst b \<noteq> [] \<Longrightarrow> \<forall>l \<in> set ls. plain_line l \<Longrightarrow> \<forall>b \<in> set bs. fst b \<noteq> []"
proof (induction blocks ls rule: split_lines.induct)
  case (1 blocks)
  then show ?case by simp
next
  case (2 blocks l ls)
  have app: "\<forall>b \<in> set (append_line blocks l). fst b \<noteq> []" if "blocks \<noteq> []"
    using that "2.prems"(2) by (cases blocks rule: rev_cases) (auto simp: append_line_def split: prod.splits)
  have name: "n \<noteq> []" if "group1 H2_HEADING l = Some n" for n
    using that "2.prems"(3) by (auto simp: group1_H2_HEADING heading_name_def dest: spaced_capture_nonempty split: if_splits)
  show ?case using 2 app name by (auto split: option.splits if_splits)
qed

lemma parsed_names_nonempty:
  assumes "parse_categories md = Inr cs" and "n \<in> set (names cs)"
  shows "n \<noteq> []"
proof -
  obtain bs where b: "split_into_blocks md = Inr bs" and c: "collect_categories [] {} bs = Inr (cs_categories cs)"
    using assms(1) by (auto simp: parse_categories_eq_Inr)
  have "\<forall>b \<in> set bs. fst b \<noteq> []"
    using split_lines_names [of "[]" "splitlines md" bs] b plain_line_splitlines by (auto simp: split_into_blocks_def)
  moreover have "n \<in> fst ` set bs" using collect_names [OF c] assms(2) by (auto simp: names_def)
  ultimately show ?thesis by auto
qed

lemma parsed_enum_distinct: "parse_categories md = Inr cs \<Longrightarrow> distinct (enum_values cs)"
proof -
  assume p: "parse_categories md = Inr cs"
  have "UNKNOWN_CATEGORY \<notin> set (names cs)"
    using parsed_names(2) [OF p] lower_UNKNOWN by (metis image_eqI list.set_map)
  moreover have "distinct (names cs)" using parsed_names(1) [OF p] by (simp add: distinct_map)
  ultimately show ?thesis by (simp add: enum_values_def)
qed

section \<open>Rendering and parsing back\<close>

definition clean_line :: "string \<Rightarrow> bool" where
  "clean_line s \<longleftrightarrow> s \<noteq> [] \<and> strip s = s \<and> (\<forall>c \<in> set s. \<not> is_line_break c)"

definition body_line :: "string \<Rightarrow> bool" where
  "body_line s \<longleftrightarrow> clean_line s \<and> take 2 s \<noteq> ''##'' \<and> bullet_text s = None"

definition renderable :: "category \<Rightarrow> bool" where
  "renderable c \<longleftrightarrow> clean_line (cat_name c) \<and> lower (cat_name c) \<noteq> UNKNOWN_CATEGORY
     \<and> (cat_description c = [] \<or> body_line (cat_description c))
     \<and> cat_examples c \<noteq> [] \<and> (\<forall>e \<in> set (cat_examples c). clean_line e)"

definition heading_line :: "string \<Rightarrow> string" where
  "heading_line n = ''## '' @ n"

definition bullet_line :: "string \<Rightarrow> string" where
  "bullet_line e = ''- '' @ e"

definition render_body :: "category \<Rightarrow> string list" where
  "render_body c = (if cat_description c = [] then [] else [cat_description c])
     @ map bullet_line (cat_examples c)"

definition render_category :: "category \<Rightarrow> string list" where
  "render_category c = heading_line (cat_name c) # render_body c"

definition render_categories :: "category list \<Rightarrow> string" where
  "render_categories cs = concat (map (\<lambda>l. l @ [CHR 0x0A]) (concat (map render_category cs)))"

lemma splitlines_aux_line:
  "\<forall>c \<in> set l. \<not> is_line_break c \<Longrightarrow>
    splitlines_aux acc (l @ CHR 0x0A # s) = (rev acc @ l) # splitlines_aux [] s"
  by (induction l arbitrary: acc) (simp_all add: is_line_break_def Let_def)

lemma splitlines_concat:
  "\<forall>l \<in> set ls. \<forall>c \<in> set l. \<not> is_line_break c \<Longrightarrow>
    splitlines (concat (map (\<lambda>l. l @ [CHR 0x0A]) ls)) = ls"
  unfolding splitlines_def by (induction ls) (simp_all add: splitlines_aux_line)

lemma clean_line_plain: "clean_line s \<Longrightarrow> plain_line s"
  by (force simp: clean_line_def plain_line_def not_newline_def is_line_break_def Let_def)

lemma clean_line_hd: "clean_line s \<Longrightarrow> \<not> is_space (hd s)"
  unfolding clean_line_def strip_def using strip_by_ends [of is_space s] by auto

lemma spaced_capture_clean:
  assumes "clean_line s"
  shows "spaced_capture (CHR '' '' # s) = Some s"
proof -
  have sp: "is_space CHR '' ''" by (simp add: is_space_def is_space_cp_def)
  have "dropWhile is_space s = s" using clean_line_hd [OF assms] by (intro dropWhile_id) simp
  moreover have "strip (CHR '' '' # s) = strip s"
    using sp by (simp add: strip_def strip_by_def)
  ultimately show ?thesis using assms sp by (simp add: spaced_capture_def clean_line_def)
qed

lemma rendered_heading:
  assumes "clean_line n"
  shows "group1 H2_HEADING (heading_line n) = Some n"
proof -
  have "plain_line (heading_line n)" using clean_line_plain [OF assms] by (simp add: plain_line_def not_newline_def heading_line_def bullet_line_def)
  then show ?thesis using spaced_capture_clean [OF assms]
    by (simp add: group1_H2_HEADING heading_name_def heading_line_def bullet_line_def)
qed

lemma rendered_bullet:
  assumes "clean_line e"
  shows "group1 BULLET (bullet_line e) = Some e"
    and "group1 H2_HEADING (bullet_line e) = None" and "\<not> matches MALFORMED_HEADING (bullet_line e)"
proof -
  have pl: "plain_line (bullet_line e)" using clean_line_plain [OF assms] by (simp add: plain_line_def not_newline_def heading_line_def bullet_line_def)
  show "group1 BULLET (bullet_line e) = Some e"
    using spaced_capture_clean [OF assms] pl
    by (simp add: group1_BULLET bullet_text_def is_space_def is_space_cp_def bullet_line_def)
  show "group1 H2_HEADING (bullet_line e) = None" using pl by (simp add: group1_H2_HEADING heading_name_def heading_line_def bullet_line_def)
  show "\<not> matches MALFORMED_HEADING (bullet_line e)" by (simp add: matches_MALFORMED_HEADING bullet_line_def)
qed

lemma body_line_inert:
  assumes "body_line s"
  shows "group1 BULLET s = None" and "group1 H2_HEADING s = None" and "\<not> matches MALFORMED_HEADING s"
  using assms clean_line_plain [of s]
  by (auto simp: body_line_def group1_BULLET group1_H2_HEADING heading_name_def matches_MALFORMED_HEADING)

lemma render_body_inert:
  assumes "renderable c"
  shows "\<forall>l \<in> set (render_body c). group1 H2_HEADING l = None \<and> \<not> matches MALFORMED_HEADING l"
  using assms rendered_bullet body_line_inert
  by (fastforce simp: renderable_def render_body_def split: if_splits)

lemma scan_examples:
  "\<forall>e \<in> set es. clean_line e \<Longrightarrow> scan_body ds xs (map bullet_line es) = (ds, xs @ es)"
proof (induction es arbitrary: xs)
  case Nil
  then show ?case by simp
next
  case (Cons e es)
  then have "group1 BULLET (bullet_line e) = Some e" using rendered_bullet(1) by simp
  with Cons show ?case by simp
qed

lemma build_rendered:
  assumes "renderable c"
  shows "build_category (cat_name c) (render_body c) = Inr c"
proof (cases "cat_description c = []")
  case True
  with assms show ?thesis
    by (cases c) (simp add: build_category_def render_body_def renderable_def scan_examples)
next
  case False
  with assms have d: "body_line (cat_description c)" by (simp add: renderable_def)
  then have "strip (cat_description c) = cat_description c" by (simp add: body_line_def clean_line_def)
  with assms False body_line_inert(1) [OF d] show ?thesis
    by (cases c) (simp add: build_category_def render_body_def renderable_def scan_examples)
qed

lemma split_rendered:
  "\<forall>c \<in> set cs. renderable c \<Longrightarrow>
    split_lines bs (concat (map render_category cs)) = Inr (bs @ map (\<lambda>c. (cat_name c, render_body c)) cs)"
proof (induction cs arbitrary: bs)
  case Nil
  then show ?case by simp
next
  case (Cons c cs)
  then have h: "group1 H2_HEADING (heading_line (cat_name c)) = Some (cat_name c)"
    using rendered_heading by (simp add: renderable_def)
  have "split_lines bs (concat (map render_category (c # cs)))
      = split_lines bs (heading_line (cat_name c) # render_body c @ concat (map render_category cs))"
    by (simp add: render_category_def)
  also have "\<dots> = split_lines (bs @ [(cat_name c, render_body c)]) (concat (map render_category cs))"
    using h render_body_inert Cons.prems by (intro split_lines_block) auto
  also have "\<dots> = Inr ((bs @ [(cat_name c, render_body c)]) @ map (\<lambda>c. (cat_name c, render_body c)) cs)"
    using Cons.prems by (intro Cons.IH) simp
  finally show ?case by simp
qed

lemma collect_rendered:
  assumes "\<forall>c \<in> set cs. renderable c" and "distinct (map (lower \<circ> cat_name) cs)"
    and "set (map (lower \<circ> cat_name) cs) \<inter> seen = {}"
  shows "collect_categories acc seen (map (\<lambda>c. (cat_name c, render_body c)) cs) = Inr (acc @ cs)"
  using assms
  by (induction cs arbitrary: acc seen) (auto simp: build_rendered Let_def renderable_def)

lemma rendered_no_breaks:
  assumes "\<forall>c \<in> set cs. renderable c" and "l \<in> set (concat (map render_category cs))"
  shows "\<forall>x \<in> set l. \<not> is_line_break x"
proof -
  have lits: "\<not> is_line_break CHR ''#''" "\<not> is_line_break CHR '' ''" "\<not> is_line_break CHR ''-''"
    by (simp_all add: is_line_break_def)
  obtain c where "c \<in> set cs" and "l \<in> set (render_category c)" using assms(2) by auto
  with assms(1) lits show ?thesis
    by (auto simp: render_category_def render_body_def renderable_def clean_line_def body_line_def
          heading_line_def bullet_line_def
        split: if_splits)
qed

definition invoice_markdown :: string where
  "invoice_markdown = ''## Invoice'' @ [CHR 0x0A] @ ''- due'' @ [CHR 0x0A] @ ''## Unknown''"

definition invoice_taxonomy :: category_set where
  "invoice_taxonomy = \<lparr>cs_categories = [\<lparr>cat_name = ''Invoice'', cat_description = [], cat_examples = [''due'']\<rparr>]\<rparr>"

lemma invoice_markdown_parses: "parse_categories invoice_markdown = Inr invoice_taxonomy"
  by (simp add: invoice_markdown_def invoice_taxonomy_def parse_categories_def split_into_blocks_def
      splitlines_def build_category_def UNKNOWN_CATEGORY_def H2_HEADING_def MALFORMED_HEADING_def
      BULLET_def append_line_def regex_eval text_eval)

section \<open>Properties of the parser\<close>

text \<open>
  Claim C22. Round trip: a taxonomy written out in the documented format (a level-two heading per
  category, its description, one bullet per example) parses back to exactly that taxonomy, for any
  non-empty list of categories whose names, description and examples are single trimmed lines, whose
  names differ without regard to case and are not the reserved one.
\<close>

theorem parse_render_roundtrip:
  assumes "cs \<noteq> []" and "\<forall>c \<in> set cs. renderable c" and "distinct (map (lower \<circ> cat_name) cs)"
  shows "parse_categories (render_categories cs) = Inr \<lparr>cs_categories = cs\<rparr>"
proof -
  have "splitlines (render_categories cs) = concat (map render_category cs)"
    unfolding render_categories_def using rendered_no_breaks [OF assms(2)]
    by (intro splitlines_concat) blast
  then have "split_into_blocks (render_categories cs) = Inr (map (\<lambda>c. (cat_name c, render_body c)) cs)"
    using split_rendered [OF assms(2), of "[]"] by (simp add: split_into_blocks_def)
  moreover have "collect_categories [] {} (map (\<lambda>c. (cat_name c, render_body c)) cs) = Inr cs"
    using collect_rendered [OF assms(2,3), of "{}" "[]"] by simp
  ultimately show ?thesis using assms(1) by (simp add: parse_categories_def)
qed

definition sample_taxonomy :: "category list" where
  "sample_taxonomy =
     [\<lparr>cat_name = ''Invoice'', cat_description = ''Billing documents.'', cat_examples = [''Invoice #4521'', ''net 30'']\<rparr>,
      \<lparr>cat_name = ''Contract'', cat_description = [], cat_examples = [''Master Services Agreement'']\<rparr>]"

theorem parse_render_roundtrip_witness:
  "parse_categories (render_categories sample_taxonomy) = Inr \<lparr>cs_categories = sample_taxonomy\<rparr>"
proof (rule parse_render_roundtrip)
  show "sample_taxonomy \<noteq> []" by (simp add: sample_taxonomy_def)
  show "\<forall>c \<in> set sample_taxonomy. renderable c"
    by (simp add: sample_taxonomy_def renderable_def body_line_def clean_line_def bullet_text_def
        UNKNOWN_CATEGORY_def text_eval)
  show "distinct (map (lower \<circ> cat_name) sample_taxonomy)"
    by (simp add: sample_taxonomy_def text_eval)
qed

text \<open>
  Claim C23. The parser succeeds exactly on the files the format allows: no line has two hashes
  followed by something other than white space, and the blocks other than the reserved \<^verbatim>\<open>unknown\<close> are
  not empty, have names distinct without regard to case, and each has a bullet. Every other file is
  rejected, and the only exception is \<^verbatim>\<open>CategoryFileError\<close>.
\<close>

theorem parse_categories_outcome:
  "case parse_categories md of
     Inr cs \<Rightarrow> (\<forall>l \<in> set (splitlines md). \<not> matches MALFORMED_HEADING l)
        \<and> (\<exists>bs. split_into_blocks md = Inr bs \<and> filter is_real bs \<noteq> []
             \<and> distinct (map (lower \<circ> fst) (filter is_real bs))
             \<and> (\<forall>b \<in> set (filter is_real bs). \<exists>l \<in> set (snd b). group1 BULLET l \<noteq> None)
             \<and> names cs = map fst (filter is_real bs))
   | Inl e \<Rightarrow> (\<exists>m. e = CategoryFileError m)
        \<and> ((\<exists>l \<in> set (splitlines md). matches MALFORMED_HEADING l)
           \<or> (\<exists>bs. split_into_blocks md = Inr bs
                \<and> (filter is_real bs = [] \<or> \<not> distinct (map (lower \<circ> fst) (filter is_real bs))
                   \<or> (\<exists>b \<in> set (filter is_real bs). \<forall>l \<in> set (snd b). group1 BULLET l = None))))"
proof (cases "split_into_blocks md")
  case (Inl e)
  then have "\<exists>l \<in> set (splitlines md). matches MALFORMED_HEADING l"
    using split_lines_ok [of "splitlines md" "[]"] by (auto simp: split_into_blocks_def)
  moreover have "\<exists>m. e = CategoryFileError m"
    using Inl split_lines_error by (auto simp: split_into_blocks_def)
  ultimately show ?thesis using Inl by (simp add: parse_categories_def)
next
  case (Inr bs)
  have wf: "\<forall>l \<in> set (splitlines md). \<not> matches MALFORMED_HEADING l"
    using split_lines_malformed [of _ "splitlines md" "[]"] plain_line_splitlines [of _ md] Inr
    by (force simp: split_into_blocks_def)
  note iff = collect_ok_iff [of "[]" "{}" bs]
  show ?thesis
  proof (cases "collect_categories [] {} bs")
    case (Inl e)
    then have "\<exists>m. e = CategoryFileError m" by (rule collect_error)
    moreover have "\<not> distinct (map (lower \<circ> fst) (filter is_real bs))
        \<or> (\<exists>b \<in> set (filter is_real bs). \<forall>l \<in> set (snd b). group1 BULLET l = None)"
      using iff Inl by auto
    ultimately show ?thesis using Inl Inr by (auto simp: parse_categories_def)
  next
    case ok: (Inr out)
    have n: "map cat_name out = map fst (filter is_real bs)" using collect_names [OF ok] by simp
    show ?thesis
    proof (cases "out = []")
      case True
      then have "filter is_real bs = []" using n by simp
      with True ok Inr show ?thesis by (simp add: parse_categories_def)
    next
      case False
      then have "filter is_real bs \<noteq> []" using n by auto
      with False ok Inr wf iff n show ?thesis by (auto simp: parse_categories_def names_def)
    qed
  qed
qed

theorem parse_categories_outcome_witness:
  "\<exists>bs. split_into_blocks invoice_markdown = Inr bs \<and> names invoice_taxonomy = map fst (filter is_real bs)"
  using parse_categories_outcome [of invoice_markdown] invoice_markdown_parses by auto

text \<open>
  Claim C40. The taxonomy a successful parse returns is well formed: at least one category; every name is
  non-empty and, in any letter case, different from the reserved one and from every other name; the reserved
  name occurs once and last among the enum values, which are distinct; and every category has an example.
\<close>

theorem parsed_taxonomy_well_formed:
  assumes "parse_categories md = Inr cs"
  shows "names cs \<noteq> [] \<and> (\<forall>n \<in> set (names cs). n \<noteq> [] \<and> lower n \<noteq> UNKNOWN_CATEGORY) \<and> distinct (map lower (names cs))
    \<and> distinct (enum_values cs) \<and> last (enum_values cs) = UNKNOWN_CATEGORY \<and> count_list (enum_values cs) UNKNOWN_CATEGORY = 1
    \<and> (\<forall>c \<in> set (cs_categories cs). cat_examples c \<noteq> [])"
proof -
  have d: "distinct (enum_values cs)" by (rule parsed_enum_distinct [OF assms])
  then have "UNKNOWN_CATEGORY \<notin> set (names cs)" by (simp add: enum_values_def)
  then have "count_list (enum_values cs) UNKNOWN_CATEGORY = 1"
    by (simp add: enum_values_def count_list_0_iff)
  moreover have "\<forall>c \<in> set (cs_categories cs). cat_examples c \<noteq> []"
    using assms collect_examples by (fastforce simp: parse_categories_eq_Inr)
  moreover have "\<forall>n \<in> set (names cs). n \<noteq> [] \<and> lower n \<noteq> UNKNOWN_CATEGORY"
    using parsed_names_nonempty [OF assms] parsed_names(2) [OF assms] by force
  ultimately show ?thesis using d parsed_names [OF assms] by (simp add: enum_values_def)
qed

theorem parsed_taxonomy_well_formed_witness:
  "parse_categories invoice_markdown = Inr invoice_taxonomy \<and> distinct (enum_values invoice_taxonomy)"
  using invoice_markdown_parses parsed_taxonomy_well_formed [OF invoice_markdown_parses] by blast

text \<open>
  The backtracking regular expressions compute simple line functions: on a line without a
  newline, the heading expression returns the trimmed text after two hashes and at least one white
  space character, the bullet expression the trimmed text after a mark and at least one white space
  character; where nothing but white space follows, and at least two characters of it, both return
  its last character, so a blank heading or bullet is not rejected but named by a white space.
\<close>

lemma regex_line_functions:
  assumes "plain_line l"
  shows "group1 H2_HEADING l = heading_name l \<and> group1 BULLET l = bullet_text l"
  using assms by (simp add: group1_H2_HEADING group1_BULLET)

lemma regex_line_functions_example:
  "group1 H2_HEADING ''##  Tax Return '' = Some ''Tax Return'' \<and> group1 BULLET '' *  1040 '' = Some ''1040''
   \<and> group1 H2_HEADING ''##  '' = Some '' ''"
proof -
  have "plain_line ''##  Tax Return ''" and "plain_line '' *  1040 ''" and "plain_line ''##  ''"
    by (simp_all add: plain_line_def not_newline_def)
  moreover have "heading_name ''##  Tax Return '' = Some ''Tax Return''" and "bullet_text '' *  1040 '' = Some ''1040''"
    and "heading_name ''##  '' = Some '' ''"
    by (simp_all add: heading_name_def bullet_text_def spaced_capture_def text_eval)
  ultimately show ?thesis using regex_line_functions by metis
qed

text \<open>
  A heading of level three or deeper, well formed in Markdown, always aborts the parse
  with the error that reports a missing space: the expression for malformed headings also accepts
  three hashes, because the third one is not white space.
\<close>

lemma deep_heading_aborts:
  assumes "l \<in> set (splitlines md)" and "take 3 l = ''###''"
  shows "\<exists>m. parse_categories md = Inl (CategoryFileError m)"
proof -
  have "matches MALFORMED_HEADING l"
    using assms(2) by (cases l; cases "tl l"; cases "tl (tl l)")
      (auto simp: matches_MALFORMED_HEADING is_space_def is_space_cp_def)
  then have "\<exists>m. split_into_blocks md = Inl (CategoryFileError m)"
    unfolding split_into_blocks_def using assms(1) plain_line_splitlines
    by (intro split_lines_malformed) auto
  then show ?thesis by (auto simp: parse_categories_def)
qed

lemma deep_heading_aborts_example:
  "\<exists>m. parse_categories (''## Invoice'' @ [CHR 0x0A] @ ''- due'' @ [CHR 0x0A] @ ''### Notes'') = Inl (CategoryFileError m)"
  by (rule deep_heading_aborts [of "''### Notes''"]) (simp_all add: splitlines_def is_line_break_def)

end
