(* ===== verification/Classifier.thy ===== *)
theory Classifier
  imports Categories PyValues AppConfig
begin

text \<open>
  Classification: \<^verbatim>\<open>src/classification.py\<close>, the Jev adapter \<^verbatim>\<open>src/jev.py\<close> and the factory
  \<^verbatim>\<open>src/classifier.py\<close>. The TypeSafe SDK is the parameter record \<open>typesafe\<close>: whether its client can be
  built, and what its \<^verbatim>\<open>system_one\<close> call returns or raises. \<^verbatim>\<open>repr\<close> of a float, which only an error message uses, is
  the parameter \<open>float_repr\<close>.
\<close>

section \<open>Results and the decision client\<close>

record classification =
  cl_category :: string
  cl_confidence :: pyfloat
  cl_raw :: "(string \<times> json) list"

type_synonym criteria = "(string \<times> string option) list"

record jev_response =
  jr_choice :: string
  jr_probabilities :: "(string \<times> pyfloat) list"
  jr_raw :: "(string \<times> json) list"

definition MODEL :: string where "MODEL = ''typesafe-jev''"
definition MAX_INPUT_CHARS :: nat where "MAX_INPUT_CHARS = 128000"
definition QUESTION_NAME :: string where "QUESTION_NAME = ''category''"
definition STATE_KEY :: string where "STATE_KEY = ''document''"
definition UNKNOWN_DESCRIPTION :: string where
  "UNKNOWN_DESCRIPTION = ''None of the categories above fit the document.''"

section \<open>The classifier\<close>

record jev_classifier =
  jc_client :: "utext \<Rightarrow> criteria \<Rightarrow> exn + jev_response"
  jc_options :: "string list"
  jc_criteria :: criteria
  jc_max_input_chars :: nat

definition category_criterion :: "category \<Rightarrow> string \<times> string option" where
  "category_criterion c = (cat_name c, if cat_description c = [] then None else Some (cat_description c))"

definition jev_criteria :: "category_set \<Rightarrow> criteria" where
  "jev_criteria cs = dict_put UNKNOWN_CATEGORY (Some UNKNOWN_DESCRIPTION)
     (dict_of (map category_criterion (cs_categories cs)))"

definition jev_classifier_init ::
  "category_set \<Rightarrow> (utext \<Rightarrow> criteria \<Rightarrow> exn + jev_response) \<Rightarrow> nat \<Rightarrow> jev_classifier" where
  "jev_classifier_init cs client max_input_chars =
     \<lparr>jc_client = client, jc_options = enum_values cs, jc_criteria = jev_criteria cs,
      jc_max_input_chars = max_input_chars\<rparr>"

fun is_jev_client_error :: "exn \<Rightarrow> bool" where
  "is_jev_client_error (JevClientError _) = True"
| "is_jev_client_error _ = False"

definition too_long_message :: "nat \<Rightarrow> nat \<Rightarrow> string" where
  "too_long_message n m = ''Document is '' @ show_nat n @ '' characters; Jev accepts at most '' @ show_nat m @ ''.''"

definition out_of_set_message :: "string \<Rightarrow> string" where
  "out_of_set_message choice = ''Jev returned an out-of-set label: '' @ py_repr choice"

definition no_probability_message :: "(pyfloat \<Rightarrow> string) \<Rightarrow> string \<Rightarrow> pyfloat option \<Rightarrow> string" where
  "no_probability_message float_repr choice p = ''Jev returned no valid probability for '' @ py_repr choice @ '': ''
     @ (case p of None \<Rightarrow> ''None'' | Some q \<Rightarrow> float_repr q)"

definition jev_classify :: "(pyfloat \<Rightarrow> string) \<Rightarrow> jev_classifier \<Rightarrow> utext \<Rightarrow> exn + classification" where
  "jev_classify float_repr jc document_text =
     (if length document_text > jc_max_input_chars jc
      then Inl (ClassificationError (too_long_message (length document_text) (jc_max_input_chars jc)))
      else case jc_client jc document_text (jc_criteria jc) of
        Inl e \<Rightarrow> if is_jev_client_error e
           then Inl (ClassificationError (''Jev classification failed: '' @ exn_str e)) else Inl e
      | Inr response \<Rightarrow>
          if jr_choice response \<notin> set (jc_options jc)
          then Inl (ClassificationError (out_of_set_message (jr_choice response)))
          else case map_of (jr_probabilities response) (jr_choice response) of
            None \<Rightarrow> Inl (ClassificationError (no_probability_message float_repr (jr_choice response) None))
          | Some probability \<Rightarrow>
              if \<not> (Fin 0 \<le> probability \<and> probability \<le> Fin 1)
              then Inl (ClassificationError (no_probability_message float_repr (jr_choice response) (Some probability)))
              else Inr \<lparr>cl_category = jr_choice response, cl_confidence = probability, cl_raw = jr_raw response\<rparr>)"

section \<open>The HTTP client\<close>

record choice_question =
  cq_instructions :: string
  cq_criteria :: criteria

record choice_answer =
  ca_choice :: string
  ca_probabilities :: "(string \<times> pyfloat) list"

record ts_response =
  ts_choices :: "(string \<times> choice_answer) list"
  ts_json :: "exn + json"

record typesafe =
  ts_connect :: "string \<Rightarrow> string \<Rightarrow> exn + unit"
  ts_system_one :: "string \<Rightarrow> string \<Rightarrow> (string \<times> utext) list \<Rightarrow> (string \<times> choice_question) list \<Rightarrow> exn + ts_response"

record jev_http_client =
  jh_api_key :: string
  jh_base_url :: string

text \<open>The constructor of the SDK's client may refuse the key or the URL.\<close>

definition jev_http_client_init :: "typesafe \<Rightarrow> string \<Rightarrow> string \<Rightarrow> exn + jev_http_client" where
  "jev_http_client_init T api_key base_url =
     bind_result (ts_connect T api_key base_url) (\<lambda>_. Inr \<lparr>jh_api_key = api_key, jh_base_url = base_url\<rparr>)"

fun is_typesafe_error :: "exn \<Rightarrow> bool" where
  "is_typesafe_error (TypeSafeError _) = True"
| "is_typesafe_error _ = False"

definition jev_question :: "criteria \<Rightarrow> choice_question" where
  "jev_question cr = \<lparr>cq_instructions = ''Which category does `'' @ STATE_KEY @ ''` belong to?'', cq_criteria = cr\<rparr>"

definition jev_decide :: "typesafe \<Rightarrow> jev_http_client \<Rightarrow> utext \<Rightarrow> criteria \<Rightarrow> exn + jev_response" where
  "jev_decide T client document_text cr =
     (case ts_system_one T (jh_api_key client) (jh_base_url client)
             [(STATE_KEY, document_text)] [(QUESTION_NAME, jev_question cr)] of
        Inl e \<Rightarrow> if is_typesafe_error e
           then Inl (JevClientError (''TypeSafe API call failed: '' @ exn_str e)) else Inl e
      | Inr response \<Rightarrow>
          (case map_of (ts_choices response) QUESTION_NAME of
             None \<Rightarrow> Inl (JevClientError (''TypeSafe response has no choice answer for '' @ py_repr QUESTION_NAME @ ''.''))
           | Some answer \<Rightarrow>
               (case ts_json response of
                  Inl e \<Rightarrow> Inl e
                | Inr (JObj body) \<Rightarrow>
                    Inr \<lparr>jr_choice = ca_choice answer, jr_probabilities = ca_probabilities answer, jr_raw = body\<rparr>
                | Inr _ \<Rightarrow> Inl (JevClientError ''TypeSafe response body is not a JSON object.''))))"

section \<open>The factory\<close>

definition jev_unconfigured_message :: string where
  "jev_unconfigured_message = ''Jev is not configured; set CLASSIFIER__JEV_API_KEY and CLASSIFIER__JEV_BASE_URL.''"

definition build_jev_classifier :: "typesafe \<Rightarrow> category_set \<Rightarrow> settings \<Rightarrow> exn + jev_classifier" where
  "build_jev_classifier T categories s =
     (case st_jev s of
        None \<Rightarrow> Inl (ValueError jev_unconfigured_message)
      | Some j \<Rightarrow>
          if \<not> jev_is_configured j then Inl (ValueError jev_unconfigured_message)
          else bind_result (jev_http_client_init T (the (jev_api_key j)) (the (jev_base_url j))) (\<lambda>client.
            Inr (jev_classifier_init categories (jev_decide T client) MAX_INPUT_CHARS)))"

definition create_classifier :: "typesafe \<Rightarrow> category_set \<Rightarrow> settings \<Rightarrow> exn + jev_classifier" where
  "create_classifier T categories s = build_jev_classifier T categories s"

section \<open>The classifier interface\<close>

text \<open>
  The \<^verbatim>\<open>LabelClassifier\<close> contract the command line and the processor rely on: an answer is one of
  the classifier's labels, with a probability in the unit interval; and a classifier whose client
  fails as documented raises only \<^verbatim>\<open>ClassificationError\<close>.
\<close>

locale label_classifier =
  fixes classify :: "'c \<Rightarrow> utext \<Rightarrow> exn + classification"
    and labels :: "'c \<Rightarrow> string list"
    and client_ok :: "'c \<Rightarrow> bool"
  assumes answer_in_labels: "classify c t = Inr r \<Longrightarrow> cl_category r \<in> set (labels c)"
    and answer_in_unit: "classify c t = Inr r \<Longrightarrow> in_unit (cl_confidence r)"
    and failure: "client_ok c \<Longrightarrow> classify c t = Inl e \<Longrightarrow> is_classification_error e"
begin

lemma failure_caught: "client_ok c \<Longrightarrow> classify c t = Inl e \<Longrightarrow> is_app_error e"
  by (rule classification_error_is_app_error [OF failure])

lemma answer_is_probability:
  assumes "classify c t = Inr r"
  shows "cl_confidence r = NegZero \<or> (\<exists>q. cl_confidence r = Fin q \<and> 0 \<le> q \<and> q \<le> 1)"
  using answer_in_unit [OF assms] by (simp add: in_unit_iff)

end

definition jev_client_ok :: "jev_classifier \<Rightarrow> bool" where
  "jev_client_ok jc \<longleftrightarrow> (\<forall>t cr e. jc_client jc t cr = Inl e \<longrightarrow> is_jev_client_error e)"

lemma jev_classify_Inr:
  "jev_classify fr jc t = Inr r \<longleftrightarrow>
     length t \<le> jc_max_input_chars jc
     \<and> (\<exists>resp p. jc_client jc t (jc_criteria jc) = Inr resp \<and> jr_choice resp \<in> set (jc_options jc)
          \<and> map_of (jr_probabilities resp) (jr_choice resp) = Some p \<and> in_unit p
          \<and> r = \<lparr>cl_category = jr_choice resp, cl_confidence = p, cl_raw = jr_raw resp\<rparr>)"
  by (auto simp: jev_classify_def in_unit_def split: sum.splits option.splits)

lemma jev_classify_Inl:
  "jev_client_ok jc \<Longrightarrow> jev_classify fr jc t = Inl e \<Longrightarrow> is_classification_error e"
  by (auto simp: jev_classify_def jev_client_ok_def split: sum.splits option.splits if_splits)

interpretation jev: label_classifier "jev_classify fr" jc_options jev_client_ok for fr
  by unfold_locales (auto simp: jev_classify_Inr dest: jev_classify_Inl)

definition typesafe_ok :: "typesafe \<Rightarrow> bool" where
  "typesafe_ok T \<longleftrightarrow> (\<forall>k u st qs e. ts_system_one T k u st qs = Inl e \<longrightarrow> is_typesafe_error e)
     \<and> (\<forall>k u st qs r. ts_system_one T k u st qs = Inr r \<longrightarrow> (\<exists>j. ts_json r = Inr j))"

lemma jev_decide_failure:
  assumes "typesafe_ok T" and "jev_decide T c t cr = Inl e"
  shows "is_jev_client_error e"
  using assms by (fastforce simp: jev_decide_def typesafe_ok_def split: sum.splits option.splits json.splits if_splits)

lemma build_jev_classifier_client_ok:
  assumes "typesafe_ok T" and "build_jev_classifier T cs s = Inr jc"
  shows "jev_client_ok jc"
  using assms jev_decide_failure [OF assms(1)]
  by (auto simp: build_jev_classifier_def bind_result_Inr_iff jev_client_ok_def jev_classifier_init_def split: option.splits if_splits)

lemma jev_criteria_distinct:
  assumes "distinct (enum_values cs)"
  shows "jev_criteria cs = map category_criterion (cs_categories cs) @ [(UNKNOWN_CATEGORY, Some UNKNOWN_DESCRIPTION)]"
proof -
  have keys: "map fst (map category_criterion (cs_categories cs)) = names cs"
    by (simp add: names_def category_criterion_def comp_def)
  have d: "distinct (names cs)" "UNKNOWN_CATEGORY \<notin> set (names cs)" using assms by (auto simp: enum_values_def)
  then have "dict_of (map category_criterion (cs_categories cs)) = map category_criterion (cs_categories cs)"
    by (intro dict_of_distinct) (simp only: keys)
  moreover have "UNKNOWN_CATEGORY \<notin> fst ` set (map category_criterion (cs_categories cs))"
    using d(2) keys by (metis list.set_map)
  ultimately show ?thesis unfolding jev_criteria_def by (metis dict_put_new)
qed

section \<open>Properties\<close>

text \<open>
  Claim C25. What the classifier accepts: it returns a classification exactly when the document fits
  the input limit, the client answered, the answer is one of the labels and the client gave that
  label a probability between 0 and 1; the classification is that label, that probability and the
  provider's body unmodified. A probability that is missing, not-a-number or out of range never
  becomes a confidence.
\<close>

theorem jev_classify_accepts:
  "jev_classify fr jc t = Inr r \<longleftrightarrow>
     length t \<le> jc_max_input_chars jc
     \<and> (\<exists>resp p. jc_client jc t (jc_criteria jc) = Inr resp
          \<and> cl_category r = jr_choice resp \<and> jr_choice resp \<in> set (jc_options jc)
          \<and> map_of (jr_probabilities resp) (jr_choice resp) = Some p \<and> cl_confidence r = p
          \<and> (p = NegZero \<or> (\<exists>q. p = Fin q \<and> 0 \<le> q \<and> q \<le> 1))
          \<and> cl_raw r = jr_raw resp)"
  unfolding jev_classify_Inr in_unit_iff [symmetric] by auto

text \<open>
  Claim C38. A classifier built from the settings raises nothing but \<^verbatim>\<open>ClassificationError\<close>, on any
  document, and a document over the limit is rejected whatever the service would answer. The SDK is
  assumed to raise only \<^verbatim>\<open>TypeSafeError\<close> and to return a body that parses as JSON.
\<close>

theorem created_classifier_failures:
  assumes "typesafe_ok T" and "create_classifier T cs s = Inr jc"
  shows "case jev_classify fr jc t of
      Inr r \<Rightarrow> cl_category r \<in> set (enum_values cs) \<and> in_unit (cl_confidence r) \<and> length t \<le> MAX_INPUT_CHARS
    | Inl e \<Rightarrow> is_classification_error e"
proof -
  from assms(2) have b: "build_jev_classifier T cs s = Inr jc" by (simp add: create_classifier_def)
  then have opts: "jc_options jc = enum_values cs" "jc_max_input_chars jc = MAX_INPUT_CHARS"
    by (auto simp: build_jev_classifier_def bind_result_Inr_iff jev_classifier_init_def split: option.splits if_splits)
  show ?thesis
  proof (cases "jev_classify fr jc t")
    case (Inl e)
    then show ?thesis using jev.failure [OF build_jev_classifier_client_ok [OF assms(1) b]] by simp
  next
    case (Inr r)
    then have "length t \<le> MAX_INPUT_CHARS" by (simp add: jev_classify_Inr opts)
    then show ?thesis using Inr jev.answer_in_labels [OF Inr] jev.answer_in_unit [OF Inr] opts by simp
  qed
qed

definition sample_categories :: category_set where
  "sample_categories = \<lparr>cs_categories = [\<lparr>cat_name = ''Invoice'', cat_description = [], cat_examples = [''a bill'']\<rparr>]\<rparr>"

definition sample_typesafe :: typesafe where
  "sample_typesafe = \<lparr>ts_connect = (\<lambda>_ _. Inr ()), ts_system_one = (\<lambda>_ _ _ _. Inr
     \<lparr>ts_choices = [(''category'', \<lparr>ca_choice = ''Invoice'', ca_probabilities = [(''Invoice'', Fin (3/4))]\<rparr>)],
      ts_json = Inr (JObj [(''id'', JInt 1)])\<rparr>)\<rparr>"

definition sample_jev_settings :: settings where
  "sample_jev_settings = \<lparr>st_source = Filesystem, st_jev = Some \<lparr>jev_api_key = Some ''k'', jev_base_url = Some ''https://jev''\<rparr>,
     st_database = None, st_graph = None, st_queue = None, st_walker = None, st_processor = None,
     st_filesystem = None, st_blob = None\<rparr>"

lemma sample_jev_classify:
  "create_classifier sample_typesafe sample_categories sample_jev_settings = Inr jc \<Longrightarrow>
     jev_classify fr jc [72, 105] = Inr \<lparr>cl_category = ''Invoice'', cl_confidence = Fin (3/4), cl_raw = [(''id'', JInt 1)]\<rparr>"
  by (auto simp: create_classifier_def build_jev_classifier_def jev_http_client_init_def bind_result_def sample_jev_settings_def jev_is_configured_def
      jev_classifier_init_def jev_classify_def jev_decide_def sample_typesafe_def MAX_INPUT_CHARS_def
      QUESTION_NAME_def sample_categories_def enum_values_def names_def less_eq_pyfloat_def)

theorem created_classifier_failures_witness:
  "\<exists>jc. create_classifier sample_typesafe sample_categories sample_jev_settings = Inr jc
     \<and> jev_classify (\<lambda>_. []) jc [72, 105] = Inr \<lparr>cl_category = ''Invoice'', cl_confidence = Fin (3/4), cl_raw = [(''id'', JInt 1)]\<rparr>
     \<and> (case jev_classify (\<lambda>_. []) jc [84] of
          Inr r \<Rightarrow> cl_category r \<in> set (enum_values sample_categories) \<and> in_unit (cl_confidence r) \<and> length [84::nat] \<le> MAX_INPUT_CHARS
        | Inl e \<Rightarrow> is_classification_error e)"
proof -
  have ok: "typesafe_ok sample_typesafe" by (auto simp: typesafe_ok_def sample_typesafe_def)
  obtain jc where jc: "create_classifier sample_typesafe sample_categories sample_jev_settings = Inr jc"
    by (simp add: create_classifier_def build_jev_classifier_def jev_http_client_init_def bind_result_def sample_jev_settings_def sample_typesafe_def jev_is_configured_def)
  from created_classifier_failures [OF ok jc] sample_jev_classify [OF jc] jc show ?thesis by blast
qed

text \<open>
  The question offers exactly the answers the classifier accepts: for a taxonomy the parser
  produced, the criteria are the categories in file order, each with its description or none, then
  \<^verbatim>\<open>unknown\<close>, no key twice, and their keys are the labels an answer is tested against.
\<close>

lemma criteria_match_options:
  assumes "parse_categories md = Inr cs"
  shows "map fst (jev_criteria cs) = enum_values cs \<and> distinct (map fst (jev_criteria cs))
    \<and> jc_options (jev_classifier_init cs client n) = map fst (jc_criteria (jev_classifier_init cs client n))
    \<and> (\<forall>c \<in> set (cs_categories cs). map_of (jev_criteria cs) (cat_name c)
          = Some (if cat_description c = [] then None else Some (cat_description c)))
    \<and> map_of (jev_criteria cs) UNKNOWN_CATEGORY = Some (Some UNKNOWN_DESCRIPTION)"
proof -
  have d: "distinct (enum_values cs)" by (rule parsed_enum_distinct [OF assms])
  have cr: "map fst (jev_criteria cs) = enum_values cs"
    by (simp add: jev_criteria_distinct [OF d] enum_values_def names_def category_criterion_def comp_def)
  then have dc: "distinct (map fst (jev_criteria cs))" using d by simp
  have "map_of (jev_criteria cs) (cat_name c) = Some (if cat_description c = [] then None else Some (cat_description c))"
    if "c \<in> set (cs_categories cs)" for c
  proof -
    have "category_criterion c \<in> set (jev_criteria cs)" using that by (simp add: jev_criteria_distinct [OF d])
    then show ?thesis using dc by (simp add: category_criterion_def)
  qed
  moreover have "map_of (jev_criteria cs) UNKNOWN_CATEGORY = Some (Some UNKNOWN_DESCRIPTION)"
    by (simp add: jev_criteria_def)
  ultimately show ?thesis using cr dc by (simp add: jev_classifier_init_def)
qed

lemma criteria_match_options_example:
  "\<exists>cs. parse_categories invoice_markdown = Inr cs \<and> map fst (jev_criteria cs) = [''Invoice'', UNKNOWN_CATEGORY]"
  using criteria_match_options [OF invoice_markdown_parses] invoice_markdown_parses
  by (auto simp: enum_values_def names_def invoice_taxonomy_def)

end
