(* ===== verification/ResultWriter.thy ===== *)
theory ResultWriter
  imports Enqueuer Classifier
begin

text \<open>
  The database writer of \<^verbatim>\<open>src/writer.py\<close>: the UPSERT of a classification into \<^verbatim>\<open>documents\<close>, with
  PostgreSQL's \<^verbatim>\<open>ON CONFLICT DO UPDATE ... WHERE\<close>, and its commit.
\<close>

section \<open>The statement\<close>

text \<open>The inserted row: the columns of the statement, the defaults elsewhere.\<close>

definition inserted_row :: "document_classification \<Rightarrow> datetime \<Rightarrow> document" where
  "inserted_row r now = (new_document (dc_sync_state_id r) (dc_drive_item_id r))
     \<lparr>d_category := Some (dc_category r), d_confidence := Some (dc_confidence r), d_status := dc_status r,
      d_classified_by := Some MODEL, d_raw_response := Some (dc_raw r), d_classified_at := Some now,
      d_processed_at := Some now\<rparr>"

text \<open>The \<^verbatim>\<open>DO UPDATE SET\<close> list: the inserted columns without the conflict keys, and \<^verbatim>\<open>updated_at\<close>.\<close>

definition excluded_onto :: "document_classification \<Rightarrow> datetime \<Rightarrow> document \<Rightarrow> document" where
  "excluded_onto r now d = d
     \<lparr>d_category := Some (dc_category r), d_confidence := Some (dc_confidence r), d_status := dc_status r,
      d_classified_by := Some MODEL, d_raw_response := Some (dc_raw r), d_classified_at := Some now,
      d_processed_at := Some now, d_updated_at := now\<rparr>"

definition conflict_key :: "document_classification \<Rightarrow> int \<times> string" where
  "conflict_key r = (dc_sync_state_id r, dc_drive_item_id r)"

definition upsert_updates :: "document_classification \<Rightarrow> document \<Rightarrow> bool" where
  "upsert_updates r d \<longleftrightarrow> doc_key d = conflict_key r \<and> d_classification_override d = None"

text \<open>
  Executing the statement. The identity column takes a sequence value even when the row conflicts.
\<close>

definition execute_upsert :: "'z db_env_scheme \<Rightarrow> document_classification \<Rightarrow> unit job" where
  "execute_upsert E r = then_op (db_call E) (\<lambda>w.
     (let i = w_next_doc w; now = db_now E (w_txn w);
          w' = w\<lparr>w_next_doc := i + 1\<rparr> in
      if conflict_key r \<in> doc_key ` set (t_documents (w_work w))
      then (Inr (), w'\<lparr>w_work := (w_work w)\<lparr>t_documents :=
              update_where (upsert_updates r) (excluded_onto r now) (t_documents (w_work w))\<rparr>\<rparr>)
      else if dc_sync_state_id r \<notin> ss_id ` set (t_sync_state (w_work w)) then (Inl integrity_error, w')
      else (Inr (), w'\<lparr>w_work := (w_work w)\<lparr>t_documents := t_documents (w_work w)
              @ [(inserted_row r now)\<lparr>d_id := i, d_created_at := now, d_updated_at := now\<rparr>]\<rparr>\<rparr>)))"

text \<open>\<^verbatim>\<open>except SQLAlchemyError as err: self._session.rollback(); raise PersistenceError(m) from err\<close>.\<close>

definition rollback_to_persistence :: "string \<Rightarrow> exn \<Rightarrow> 'a job" where
  "rollback_to_persistence m e = (if is_sqlalchemy_error e then then_op rollback (throw (PersistenceError m)) else throw e)"

definition db_write :: "'z db_env_scheme \<Rightarrow> document_classification \<Rightarrow> unit job" where
  "db_write E r = catch_op (then_op (execute_upsert E r) (commit E))
     (rollback_to_persistence (''Failed to persist classification for drive item '' @ dc_drive_item_id r))"

section \<open>The writer interface\<close>

text \<open>
  What a human decided, as the processor must keep it: the override, and with an override the whole
  result and its stamps.
\<close>

definition human_view :: "document \<Rightarrow> string option \<times> (string option \<times> pyfloat option \<times> string option
    \<times> (string \<times> json) list option \<times> datetime option \<times> datetime option) option" where
  "human_view d = (d_classification_override d, if d_classification_override d = None then None
     else Some (d_category d, d_confidence d, d_classified_by d, d_raw_response d, d_classified_at d, d_processed_at d))"

fun is_persistence_error :: "exn \<Rightarrow> bool" where
  "is_persistence_error (PersistenceError _) = True"
| "is_persistence_error _ = False"

text \<open>
  What the processor relies on in a writer: it keeps the schema's constraints and every human
  decision, fails only with \<^verbatim>\<open>PersistenceError\<close>, and then leaves the durable store as it was.
\<close>

locale result_writer =
  fixes E :: "'z db_env_scheme"
    and put :: "document_classification \<Rightarrow> unit job"
  assumes put_ok: "evolves (keeps world_ok) (put r)"
    and put_keeps_human: "evolves (store_rel (docs_keep human_view)) (put r)"
    and put_failure: "put r w = (Inl e, w') \<Longrightarrow> is_persistence_error e \<and> w_durable w' = w_durable w \<and> w_work w' = w_durable w"
    and put_commits: "put r w = (Inr (), w') \<Longrightarrow> w_work w' = w_durable w' \<and> w_trace w' = w_trace w @ [Committed (w_durable w')]"
begin

lemma put_failure_is_app_error: "put r w = (Inl e, w') \<Longrightarrow> is_app_error e"
  using put_failure by (cases e) fastforce+

lemma put_is_clean: "put r w = (res, w') \<Longrightarrow> w_work w' = w_durable w'"
  using put_failure put_commits by (cases res) fastforce+

lemma puts_keep_human:
  "w_work w = w_durable w \<Longrightarrow> docs_keep human_view (w_durable w) (w_durable (snd (for_each put rs w)))"
  by (rule keep.session_outcome) (intro evolve_intros keep.wpre put_keeps_human)

end

section \<open>What the statement does\<close>

lemma excluded_onto_key [simp]:
  "doc_key (excluded_onto r now d) = doc_key d" "d_id (excluded_onto r now d) = d_id d"
  "d_classification_override (excluded_onto r now d) = d_classification_override d"
  by (simp_all add: excluded_onto_def doc_key_def)

text \<open>The rows after the statement.\<close>

definition upserted_row :: "document_classification \<Rightarrow> datetime \<Rightarrow> document option \<Rightarrow> document \<Rightarrow> bool" where
  "upserted_row r now prior d \<longleftrightarrow>
     (case prior of
        None \<Rightarrow> \<exists>i. d = (inserted_row r now)\<lparr>d_id := i, d_created_at := now, d_updated_at := now\<rparr>
      | Some p \<Rightarrow> d = (if d_classification_override p = None then excluded_onto r now p else p))"

lemma execute_upsert_result:
  assumes "execute_upsert E r w = (res, w')"
  shows "w_durable w' = w_durable w \<and> w_trace w' = w_trace w \<and> w_txn w' = w_txn w
    \<and> (case res of Inl e \<Rightarrow> is_sqlalchemy_error e
       | Inr _ \<Rightarrow> t_sync_state (w_work w') = t_sync_state (w_work w) \<and> t_processing_log (w_work w') = t_processing_log (w_work w)
           \<and> filter (\<lambda>d. doc_key d \<noteq> conflict_key r) (t_documents (w_work w')) = filter (\<lambda>d. doc_key d \<noteq> conflict_key r) (t_documents (w_work w))
           \<and> (\<exists>d. lookup_document (w_work w') (dc_sync_state_id r) (dc_drive_item_id r) = Some d
               \<and> upserted_row r (db_now E (w_txn w)) (lookup_document (w_work w) (dc_sync_state_id r) (dc_drive_item_id r)) d))"
proof (cases rule: db_call_cases [of E w])
  case (fails m)
  with assms show ?thesis by (auto simp: execute_upsert_def then_op_def bind_op_def)
next
  case answers
  let ?rows = "t_documents (w_work w)" and ?now = "db_now E (w_txn w)" and ?k = "conflict_key r"
  let ?new = "(inserted_row r ?now)\<lparr>d_id := w_next_doc w, d_created_at := ?now, d_updated_at := ?now\<rparr>"
  show ?thesis
  proof (cases "?k \<in> doc_key ` set ?rows")
    case True
    then obtain p where p: "find (\<lambda>d. doc_key d = ?k) ?rows = Some p" unfolding find_key_image by blast
    then have pk: "doc_key p = ?k" using find_key_Some [where key = doc_key] by blast
    have "filter (\<lambda>d. doc_key d \<noteq> ?k) (update_where (upsert_updates r) (excluded_onto r ?now) ?rows) = filter (\<lambda>d. doc_key d \<noteq> ?k) ?rows"
      by (rule filter_update_other) (simp add: upsert_updates_def)
    with assms answers True p pk show ?thesis
      by (auto simp: execute_upsert_def then_op_def bind_op_def Let_def lookup_document_def upserted_row_def upsert_updates_def
          conflict_key_def find_update_key [where key = doc_key])
  next
    case False
    have "doc_key ?new = ?k" by (simp add: inserted_row_def new_document_def doc_key_def conflict_key_def)
    moreover have "find (\<lambda>d. doc_key d = ?k) ?rows = None" using False unfolding find_key_image by auto
    ultimately show ?thesis using assms answers False find_append_new [where key = doc_key and k = ?k and rows = ?rows and d = ?new]
      by (auto simp: execute_upsert_def then_op_def bind_op_def Let_def lookup_document_def upserted_row_def conflict_key_def
          integrity_error_def split: if_splits)
  qed
qed

lemma upsert_keeps_human: "evolves (store_rel (docs_keep human_view)) (execute_upsert E r)"
  unfolding execute_upsert_def
proof (intro evolve_intros keep.wpre keep.call evolvesI)
  fix w :: world
  let ?now = "db_now E (w_txn w)" and ?s = "w_work w"
  let ?rows = "update_where (upsert_updates r) (excluded_onto r ?now) (t_documents ?s)"
  have "docs_keep human_view ?s (?s\<lparr>t_documents := ?rows\<rparr>)"
    by (rule docs_keep_update) (auto simp: upsert_updates_def human_view_def)
  moreover have "docs_keep human_view ?s (?s\<lparr>t_documents := t_documents ?s @ [d]\<rparr>)" for d
    by (rule docs_keep_superset) auto
  ultimately show "store_rel (docs_keep human_view) w (snd (let i = w_next_doc w; now = ?now; w' = w\<lparr>w_next_doc := i + 1\<rparr> in
      if conflict_key r \<in> doc_key ` set (t_documents ?s) then (Inr (), w'\<lparr>w_work := ?s\<lparr>t_documents := update_where (upsert_updates r) (excluded_onto r now) (t_documents ?s)\<rparr>\<rparr>)
      else if dc_sync_state_id r \<notin> ss_id ` set (t_sync_state ?s) then (Inl integrity_error, w')
      else (Inr (), w'\<lparr>w_work := ?s\<lparr>t_documents := t_documents ?s @ [(inserted_row r now)\<lparr>d_id := i, d_created_at := now, d_updated_at := now\<rparr>]\<rparr>\<rparr>)))"
    by (auto simp: Let_def intro: keep.same store_rel_work [OF keep.pre])
qed

lemma ok_execute_upsert: "evolves (keeps world_ok) (execute_upsert E r)"
  unfolding execute_upsert_def
proof (intro evolve_intros preorder_keeps evolvesI)
  fix w :: world
  let ?i = "w_next_doc w" and ?now = "db_now E (w_txn w)" and ?s = "w_work w"
  let ?rows = "update_where (upsert_updates r) (excluded_onto r ?now) (t_documents ?s)"
  let ?d = "(inserted_row r ?now)\<lparr>d_id := ?i, d_created_at := ?now, d_updated_at := ?now\<rparr>"
  let ?w = "w\<lparr>w_next_doc := ?i + 1\<rparr>"
  let ?w1 = "?w\<lparr>w_work := ?s\<lparr>t_documents := ?rows\<rparr>\<rparr>"
  let ?w2 = "?w\<lparr>w_work := ?s\<lparr>t_documents := t_documents ?s @ [?d]\<rparr>\<rparr>"
  have key: "doc_key ?d = conflict_key r" "d_sync_state_id ?d = dc_sync_state_id r" "d_id ?d = ?i"
    by (simp_all add: inserted_row_def new_document_def doc_key_def conflict_key_def)
  have "world_ok w \<Longrightarrow> world_ok ?w"
    by (rule world_ok_grown) (auto simp: world_ok_def intro: below_sequences_mono)
  moreover have "world_ok ?w1" if "world_ok w"
    using that store_ok_set_document [of "excluded_onto r ?now" ?s] below_sequences_mono [of w ?s ?w]
    by (intro world_ok_grown [OF that]) (auto simp: world_ok_def below_sequences_def set_update_where)
  moreover have "world_ok ?w2" if "world_ok w" "conflict_key r \<notin> doc_key ` set (t_documents ?s)"
      "dc_sync_state_id r \<in> ss_id ` set (t_sync_state ?s)"
    using that key store_ok_new_document [of ?s w ?d] below_sequences_mono [of w ?s ?w]
    by (intro world_ok_grown [OF that(1)]) (simp_all add: world_ok_def below_sequences_def)
  ultimately show "keeps world_ok w (snd (let i = ?i; now = ?now; w' = w\<lparr>w_next_doc := i + 1\<rparr> in
      if conflict_key r \<in> doc_key ` set (t_documents ?s) then (Inr (), w'\<lparr>w_work := ?s\<lparr>t_documents := update_where (upsert_updates r) (excluded_onto r now) (t_documents ?s)\<rparr>\<rparr>)
      else if dc_sync_state_id r \<notin> ss_id ` set (t_sync_state ?s) then (Inl integrity_error, w')
      else (Inr (), w'\<lparr>w_work := ?s\<lparr>t_documents := t_documents ?s @ [(inserted_row r now)\<lparr>d_id := i, d_created_at := now, d_updated_at := now\<rparr>]\<rparr>\<rparr>)))"
    unfolding keeps_def Let_def by (simp only: if_distrib [of snd] snd_conv split: if_split) blast
qed

lemma reads_throwing [evolve_intros]: "evolves (store_rel (docs_keep view)) (rollback_to_persistence m e)"
  unfolding rollback_to_persistence_def by (intro evolve_intros keep.wpre keep.rolling_back)

lemma ok_throwing [evolve_intros]: "evolves (keeps world_ok) (rollback_to_persistence m e)"
  unfolding rollback_to_persistence_def by (intro evolve_intros preorder_keeps)

text \<open>The ways a write ends: rolled back with \<^verbatim>\<open>PersistenceError\<close>, or the upserted store committed.\<close>

lemma db_write_cases:
  assumes "db_write E r w = (res, w')"
  obtains (fails) m where "res = Inl (PersistenceError m)" and "w_durable w' = w_durable w" and "w_work w' = w_durable w"
      and "w_trace w' = w_trace w @ [RolledBack]"
    | (writes) u where "res = Inr ()" and "execute_upsert E r w = (Inr (), u)" and "w_durable w' = w_work u" and "w_work w' = w_work u"
      and "w_trace w' = w_trace w @ [Committed (w_work u)]"
proof -
  obtain r1 u where up: "execute_upsert E r w = (r1, u)" by fastforce
  note eu = execute_upsert_result [OF up]
  show ?thesis
  proof (cases r1)
    case (Inl e)
    with eu have "is_sqlalchemy_error e" by simp
    with assms up Inl eu show ?thesis
      by (intro fails) (auto simp: db_write_def catch_op_def then_op_def bind_op_def rollback_to_persistence_def rollback_def modify_op_def throw_def)
  next
    case (Inr x)
    obtain r2 v where cm: "commit E u = (r2, v)" by fastforce
    from commit_result [OF cm] show ?thesis
    proof (elim disjE exE conjE)
      fix m assume "r2 = Inl (SQLAlchemyError m)" "w_durable v = w_durable u" "w_trace v = w_trace u"
      with assms up Inr cm eu show ?thesis
        by (intro fails) (auto simp: db_write_def catch_op_def then_op_def bind_op_def rollback_to_persistence_def rollback_def modify_op_def throw_def)
    next
      assume "r2 = Inr ()" "w_durable v = w_work u" "w_work v = w_work u" "w_trace v = w_trace u @ [Committed (w_work u)]"
      with assms up Inr cm eu show ?thesis
        by (intro writes [of u]) (auto simp: db_write_def catch_op_def then_op_def bind_op_def)
    qed
  qed
qed

interpretation db_writer: result_writer E "db_write E" for E
proof unfold_locales
  fix r :: document_classification and w w' :: world and e
  show "evolves (keeps world_ok) (db_write E r)"
    unfolding db_write_def by (intro evolve_intros preorder_keeps ok_execute_upsert)
  show "evolves (store_rel (docs_keep human_view)) (db_write E r)"
    unfolding db_write_def by (intro evolve_intros keep.wpre upsert_keeps_human keep.committing)
  show "db_write E r w = (Inl e, w') \<Longrightarrow> is_persistence_error e \<and> w_durable w' = w_durable w \<and> w_work w' = w_durable w"
    by (erule db_write_cases) auto
  show "db_write E r w = (Inr (), w') \<Longrightarrow> w_work w' = w_durable w' \<and> w_trace w' = w_trace w @ [Committed (w_durable w')]"
    by (erule db_write_cases) auto
qed

section \<open>Properties\<close>

text \<open>
  Claim C9. The UPSERT of a classification. When the write returns, the row of its file carries the
  category, the confidence, the status, the model identifier, the raw response and the time of the
  statement, everything else of an earlier row is as it was, and a new row has the defaults; a row with
  a human override is left exactly as it was. No other row, log entry or walk position changes. When it
  raises, it raises \<^verbatim>\<open>PersistenceError\<close> and nothing became durable.
\<close>

theorem upsert_spec:
  assumes "w_work w = w_durable w"
  shows "case db_write E r w of
      (Inl e, w') \<Rightarrow> (\<exists>m. e = PersistenceError m) \<and> w_durable w' = w_durable w
    | (Inr _, w') \<Rightarrow>
        t_sync_state (w_durable w') = t_sync_state (w_durable w) \<and> t_processing_log (w_durable w') = t_processing_log (w_durable w)
        \<and> filter (\<lambda>d. doc_key d \<noteq> (dc_sync_state_id r, dc_drive_item_id r)) (t_documents (w_durable w'))
           = filter (\<lambda>d. doc_key d \<noteq> (dc_sync_state_id r, dc_drive_item_id r)) (t_documents (w_durable w))
        \<and> (\<exists>d. lookup_document (w_durable w') (dc_sync_state_id r) (dc_drive_item_id r) = Some d
            \<and> (case lookup_document (w_durable w) (dc_sync_state_id r) (dc_drive_item_id r) of
                 None \<Rightarrow> \<exists>i. d = (new_document (dc_sync_state_id r) (dc_drive_item_id r))\<lparr>d_id := i, d_status := dc_status r,
                     d_category := Some (dc_category r), d_confidence := Some (dc_confidence r), d_classified_by := Some ''typesafe-jev'',
                     d_raw_response := Some (dc_raw r), d_classified_at := Some (db_now E (w_txn w)), d_processed_at := Some (db_now E (w_txn w)),
                     d_created_at := db_now E (w_txn w), d_updated_at := db_now E (w_txn w)\<rparr>
               | Some p \<Rightarrow> d = (if d_classification_override p \<noteq> None then p
                   else p\<lparr>d_status := dc_status r, d_category := Some (dc_category r), d_confidence := Some (dc_confidence r),
                     d_classified_by := Some ''typesafe-jev'', d_raw_response := Some (dc_raw r), d_classified_at := Some (db_now E (w_txn w)),
                     d_processed_at := Some (db_now E (w_txn w)), d_updated_at := db_now E (w_txn w)\<rparr>)))"
proof -
  obtain res w' where run: "db_write E r w = (res, w')" by fastforce
  from run show ?thesis
  proof (cases rule: db_write_cases)
    case (fails m)
    with run show ?thesis by simp
  next
    case (writes u)
    note up = execute_upsert_result [OF writes(2)]
    show ?thesis
    proof (cases "lookup_document (w_durable w) (dc_sync_state_id r) (dc_drive_item_id r)")
      case None
      with run writes up assms show ?thesis by (auto simp: conflict_key_def upserted_row_def inserted_row_def new_document_def MODEL_def)
    next
      case (Some p)
      with run writes up assms show ?thesis by (simp add: conflict_key_def upserted_row_def excluded_onto_def MODEL_def)
    qed
  qed
qed

definition sample_record :: document_classification where
  "sample_record = \<lparr>dc_sync_state_id = 1, dc_drive_item_id = ''old'', dc_category = ''Contract'', dc_confidence = Fin 1,
     dc_raw = [], dc_status = Ds_completed\<rparr>"

theorem upsert_spec_witness:
  "\<exists>w'. db_write sample_queue_env sample_record sample_world = (Inr (), w')
     \<and> lookup_document (w_durable w') 1 ''old'' = lookup_document (w_durable sample_world) 1 ''old''
     \<and> map_option d_classification_override (lookup_document (w_durable sample_world) 1 ''old'') = Some (Some ''Invoice'')"
proof -
  have same: "w_work sample_world = w_durable sample_world" by (simp add: sample_world_def)
  obtain w' where run: "db_write sample_queue_env sample_record sample_world = (Inr (), w')"
    by (simp add: db_write_def execute_upsert_def commit_def db_call_def next_tick_def op_simps Let_def conflict_key_def sample_record_def
        sample_eval doc_key_def new_document_def)
  have old: "\<exists>d. lookup_document (w_durable sample_world) 1 ''old'' = Some d \<and> d_classification_override d = Some ''Invoice''"
    by (simp add: sample_eval lookup_document_def doc_key_def new_document_def)
  from upsert_spec [OF same, where E = sample_queue_env and r = sample_record] run old show ?thesis
    by (auto simp: sample_record_def)
qed

end
