(* ===== verification/Processor.thy ===== *)
theory Processor
  imports ContentSource ResultWriter
begin

text \<open>
  The consumer, \<^verbatim>\<open>src/processor.py\<close>: one work item is received, its row marked \<^verbatim>\<open>processing\<close>, its hash
  re-checked, its bytes downloaded, extracted and classified, and the outcome recorded; the message is
  deleted after every outcome but a failure. An ORM object expires at a commit, so a later read of
  one of its attributes is a query of its own, also where only the log line reads it.
\<close>

section \<open>Operations\<close>

record process_env = content_env +
  pe_libs :: libs

definition LOG_COMPLETED :: string where "LOG_COMPLETED = ''completed''"
definition LOG_SKIPPED :: string where "LOG_SKIPPED = ''skipped''"
definition LOG_FAILED :: string where "LOG_FAILED = ''failed''"

text \<open>The tuple of the \<^verbatim>\<open>except\<close> clause; a subclass of \<^verbatim>\<open>ExtractionError\<close> is one too.\<close>

fun is_attempt_failure :: "exn \<Rightarrow> bool" where
  "is_attempt_failure (GraphError _) = True"
| "is_attempt_failure (SourceError _) = True"
| "is_attempt_failure (ExtractionError _) = True"
| "is_attempt_failure (UnsupportedFormatError _) = True"
| "is_attempt_failure (ClassificationError _) = True"
| "is_attempt_failure (PersistenceError _) = True"
| "is_attempt_failure _ = False"

text \<open>\<^verbatim>\<open>_commit\<close>: the flush inserts the rows added to the session, then the transaction commits.\<close>

definition commit_state :: "'z db_env_scheme \<Rightarrow> processing_log list \<Rightarrow> unit job" where
  "commit_state E added = catch_op
     (then_op (for_each (\<lambda>l. bind_op (insert_log E l) (\<lambda>_. ret ())) added) (commit E))
     (rollback_to_persistence ''Failed to commit processor state change'')"

definition missing_row_message :: "int \<Rightarrow> string" where
  "missing_row_message i = ''No documents row for id '' @ show_int i"

definition document_of_message :: "'z db_env_scheme \<Rightarrow> message \<Rightarrow> document job" where
  "document_of_message E m = bind_op (one_or_none E t_documents (\<lambda>d. d_id d = ms_document_id m)) (\<lambda>r.
     case r of None \<Rightarrow> throw (PersistenceError (missing_row_message (ms_document_id m))) | Some d \<Rightarrow> ret d)"

text \<open>A log line that names the document reads its identifier again.\<close>

definition log_document :: "'z db_env_scheme \<Rightarrow> int \<Rightarrow> unit job" where
  "log_document E i = bind_op (load_document E i) (\<lambda>_. ret ())"

definition attempt_log :: "int \<Rightarrow> received_message \<Rightarrow> string \<Rightarrow> string \<Rightarrow> processing_log" where
  "attempt_log i r status err = (new_processing_log i (rc_dequeue_count r) status)\<lparr>pl_error := Some err\<rparr>"

definition completed_log :: "int \<Rightarrow> received_message \<Rightarrow> classification \<Rightarrow> processing_log" where
  "completed_log i r c = (new_processing_log i (rc_dequeue_count r) LOG_COMPLETED)
     \<lparr>pl_category := Some (cl_category c), pl_confidence := Some (cl_confidence c)\<rparr>"

definition classification_record :: "message \<Rightarrow> classification \<Rightarrow> document_classification" where
  "classification_record m c = \<lparr>dc_sync_state_id = ms_sync_state_id m, dc_drive_item_id = ms_drive_item_id m,
     dc_category = cl_category c, dc_confidence = cl_confidence c, dc_raw = cl_raw c, dc_status = Ds_completed\<rparr>"

definition record_success ::
  "'z db_env_scheme \<Rightarrow> int \<Rightarrow> message \<Rightarrow> received_message \<Rightarrow> classification \<Rightarrow> unit job" where
  "record_success E i m r c =
     then_op (db_write E (classification_record m c))
     (bind_op (load_document E i) (\<lambda>d.
      then_op (commit_state E [completed_log (d_id d) r c]) (log_document E i)))"

definition OVERRIDE_REASON :: string where "OVERRIDE_REASON = ''classification_override present''"

definition record_override :: "'z db_env_scheme \<Rightarrow> document \<Rightarrow> received_message \<Rightarrow> unit job" where
  "record_override E d r =
     then_op (set_document E (d_id d) (\<lambda>x. x\<lparr>d_status := Ds_completed\<rparr>))
     (then_op (commit_state E [attempt_log (d_id d) r LOG_SKIPPED OVERRIDE_REASON]) (log_document E (d_id d)))"

definition record_skipped :: "'z db_env_scheme \<Rightarrow> int \<Rightarrow> received_message \<Rightarrow> string \<Rightarrow> unit job" where
  "record_skipped E i r reason =
     then_op (set_document E i (\<lambda>x. x\<lparr>d_status := Ds_skipped\<rparr>))
     (bind_op (load_document E i) (\<lambda>d.
      then_op (commit_state E [attempt_log (d_id d) r LOG_SKIPPED reason]) (log_document E i)))"

definition record_failure :: "'z db_env_scheme \<Rightarrow> int \<Rightarrow> received_message \<Rightarrow> exn \<Rightarrow> unit job" where
  "record_failure E i r err =
     then_op (set_document E i (\<lambda>x. x\<lparr>d_status := Ds_failed, d_error_message := Some (exn_str err)\<rparr>))
     (bind_op (load_document E i) (\<lambda>d.
      then_op (set_document E i (\<lambda>x. x\<lparr>d_retry_count := d_retry_count d + 1\<rparr>))
      (then_op (commit_state E [attempt_log (d_id d) r LOG_FAILED (exn_str err)]) (log_document E i))))"

definition MISMATCH_REASON :: string where "MISMATCH_REASON = ''content_hash mismatch; walker will re-enqueue''"

definition unsupported_reason :: "message \<Rightarrow> exn \<Rightarrow> string" where
  "unsupported_reason m err = ''unsupported mime type '' @ py_repr (ms_mime_type m) @ '': '' @ exn_str err"

text \<open>The body of the \<^verbatim>\<open>try\<close>: \<open>None\<close> when it returned early, having recorded the skip itself.\<close>

definition attempt ::
  "'z process_env_scheme \<Rightarrow> content_source \<Rightarrow> jev_classifier \<Rightarrow> int \<Rightarrow> message \<Rightarrow> received_message \<Rightarrow> classification option job" where
  "attempt E src jc i m r =
     bind_op (fetch_content_hash E src m) (\<lambda>current_hash.
     if current_hash \<noteq> Some (ms_content_hash m) then then_op (record_skipped E i r MISMATCH_REASON) (ret None)
     else bind_op (download E src m) (\<lambda>data.
       bind_op (lift_op (extract_text_from_bytes (pe_libs E) data (ms_mime_type m))) (\<lambda>t.
       bind_op (lift_op (jev_classify (float_repr E) jc t)) (\<lambda>c. ret (Some c)))))"

definition run_pipeline ::
  "'z process_env_scheme \<Rightarrow> content_source \<Rightarrow> jev_classifier \<Rightarrow> int \<Rightarrow> message \<Rightarrow> received_message \<Rightarrow> unit job" where
  "run_pipeline E src jc i m r =
     bind_op (catch_op (attempt E src jc i m r) (\<lambda>err.
       if is_unsupported err then then_op (record_skipped E i r (unsupported_reason m err)) (ret None)
       else if is_attempt_failure err then then_op (record_failure E i r err) (throw err)
       else throw err)) (\<lambda>c.
     case c of None \<Rightarrow> ret () | Some x \<Rightarrow> record_success E i m r x)"

definition process :: "'z process_env_scheme \<Rightarrow> content_source \<Rightarrow> jev_classifier \<Rightarrow> received_message \<Rightarrow> unit job" where
  "process E src jc r =
     (let m = rc_message r in
      bind_op (document_of_message E m) (\<lambda>d.
      if d_classification_override d \<noteq> None then record_override E d r
      else then_op (set_document E (d_id d) (\<lambda>x. x\<lparr>d_status := Ds_processing\<rparr>))
        (then_op (commit_state E []) (run_pipeline E src jc (d_id d) m r))))"

definition run_once :: "'z process_env_scheme \<Rightarrow> content_source \<Rightarrow> jev_classifier \<Rightarrow> unit job" where
  "run_once E src jc = bind_op (receive E None) (\<lambda>received.
     case received of None \<Rightarrow> ret ()
     | Some r \<Rightarrow> then_op (process E src jc r) (delete E r))"

section \<open>Frames\<close>

text \<open>
  What a whole run may change is a preorder on worlds that each elementary operation of the run
  respects: reading, assigning the status, the error and the retry count, inserting a log row, writing
  a result, the ends of a transaction and the calls of the queue. Each frame below is an instance.
\<close>

definition marks :: "(document \<Rightarrow> document) \<Rightarrow> bool" where
  "marks f \<longleftrightarrow> (\<forall>d. f d = d\<lparr>d_status := d_status (f d), d_error_message := d_error_message (f d), d_retry_count := d_retry_count (f d)\<rparr>)"

lemma marks_setters [simp]:
  "marks (\<lambda>x. x\<lparr>d_status := st\<rparr>)" "marks (\<lambda>x. x\<lparr>d_status := st, d_error_message := e\<rparr>)" "marks (\<lambda>x. x\<lparr>d_retry_count := n\<rparr>)"
  by (simp_all add: marks_def)

lemma marks_view:
  assumes "marks f" and "\<And>d st e n. view (d\<lparr>d_status := st, d_error_message := e, d_retry_count := n\<rparr>) = view d"
  shows "view (f d) = view d"
  using assms unfolding marks_def by metis

lemma marks_key [simp]: "marks f \<Longrightarrow> d_id (f d) = d_id d" "marks f \<Longrightarrow> doc_key (f d) = doc_key d"
  by (erule marks_view, simp add: doc_key_def)+

locale processing_frame =
  fixes E :: "'z process_env_scheme"
    and R :: "world \<Rightarrow> world \<Rightarrow> bool"
  assumes pre: "preorder_rel R"
    and reading: "only_reads w w' \<Longrightarrow> R w w'"
    and marking: "marks f \<Longrightarrow> evolves R (set_document E i f)"
    and logging: "evolves R (insert_log E l)"
    and writing: "evolves R (db_write E rec)"
    and commits: "evolves R (commit E)"
    and rollbacks: "evolves R rollback"
begin

lemma reads: "evolves only_reads m \<Longrightarrow> evolves R m"
  by (auto simp: evolves_def intro: reading)

lemma log_document_frame: "evolves R (log_document E i)"
  unfolding log_document_def by (intro reads evolve_intros preorder_only_reads)

lemma loading: "evolves R (load_document E i)"
  by (intro reads reads_load_document)

lemma commit_state_frame: "evolves R (commit_state E ls)"
  unfolding commit_state_def rollback_to_persistence_def by (intro evolve_intros pre logging commits rollbacks)

lemma recording_frame:
  "evolves R (record_success E i m r c)" "evolves R (record_override E d r)" "evolves R (record_skipped E i r reason)"
  "evolves R (record_failure E i r err)"
  unfolding record_success_def record_override_def record_skipped_def record_failure_def
  by (intro evolve_intros pre writing loading marking marks_setters commit_state_frame log_document_frame)+

lemma attempt_frame: "evolves R (attempt E src jc i m r)"
  unfolding attempt_def
  by (intro evolve_intros pre reads [OF retrieval.fetch_reads] reads [OF retrieval.load_reads] recording_frame)

lemma pipeline_frame: "evolves R (run_pipeline E src jc i m r)"
  unfolding run_pipeline_def by (intro evolve_intros pre attempt_frame recording_frame)

lemma process_frame: "evolves R (process E src jc r)"
proof -
  have "evolves R (document_of_message E m)" for m
    unfolding document_of_message_def by (intro reads evolve_intros preorder_only_reads)
  then show ?thesis unfolding process_def Let_def
    by (intro evolve_intros pre marking marks_setters commit_state_frame pipeline_frame recording_frame)
qed

end

text \<open>A whole run also calls the queue.\<close>

locale run_frame = processing_frame +
  assumes receiving: "evolves R (receive E v)"
    and deleting: "evolves R (delete E r)"
begin

lemma run_once_frame: "evolves R (run_once E src jc)"
  unfolding run_once_def by (intro evolve_intros pre receiving deleting process_frame)

end

interpretation ok_frame: run_frame E "keeps world_ok" for E
proof unfold_locales
  show "only_reads w w' \<Longrightarrow> keeps world_ok w w'" for w w'
    by (auto simp: keeps_def only_reads_def same_stores_def intro: world_ok_same)
  show "marks f \<Longrightarrow> evolves (keeps world_ok) (set_document E i f)" for i f
    by (rule ok_set_document) simp
qed (intro evolve_intros preorder_keeps db_writer.put_ok channel.recv_keeps_ok channel.del_keeps_ok)+

interpretation human_frame: run_frame E "store_rel (docs_keep human_view)" for E
proof unfold_locales
  show "only_reads w w' \<Longrightarrow> store_rel (docs_keep human_view) w w'" for w w'
    by (rule keep.same) (auto dest: only_reads_stores)
  show "evolves (store_rel (docs_keep human_view)) (set_document E i f)" if "marks f" for i f
  proof (rule keeps_setting_document)
    show "human_view (d\<lparr>d_updated_at := now\<rparr>) = human_view d" for d now by (simp add: human_view_def)
    have "human_view (f d) = human_view d" for d by (rule marks_view [OF that]) (simp add: human_view_def)
    then show "d_id (f d) = d_id d \<and> doc_key (f d) = doc_key d \<and> human_view (f d) = human_view d" for d
      using that by simp
  qed
qed (intro keep.wpre keep.committing keep.rolling_back keeps_inserting_log db_writer.put_keeps_human channel.recv_rel channel.del_rel keep.pre)+

text \<open>The audit trail only grows.\<close>

definition audit_grows :: "store \<Rightarrow> store \<Rightarrow> bool" where
  "audit_grows s t \<longleftrightarrow> (\<exists>ls. t_processing_log t = t_processing_log s @ ls)"

interpretation audit: store_preorder audit_grows
  by unfold_locales (auto simp: audit_grows_def)

lemma audit_same: "t_processing_log t = t_processing_log s \<Longrightarrow> audit_grows s t"
  by (simp add: audit_grows_def)

lemma audit_upsert: "evolves (store_rel audit_grows) (execute_upsert E r)"
proof (rule evolvesI)
  fix w :: world
  obtain res w' where up: "execute_upsert E r w = (res, w')" by fastforce
  have "t_processing_log (w_work w') = t_processing_log (w_work w)"
    using up by (cases rule: db_call_cases [of E w]) (auto simp: execute_upsert_def then_op_def bind_op_def Let_def split: if_splits)
  then show "store_rel audit_grows w (snd (execute_upsert E r w))"
    using up execute_upsert_result [OF up] by (auto intro!: store_rel_work [OF audit.pre] audit_same)
qed

interpretation audit_frame: run_frame E "store_rel audit_grows" for E
proof unfold_locales
  show "only_reads w w' \<Longrightarrow> store_rel audit_grows w w'" for w w'
    by (rule audit.same) (auto dest: only_reads_stores)
  show "evolves (store_rel audit_grows) (set_document E i f)" for i f
    by (rule audit.setting_document) (simp add: audit_same)
  show "evolves (store_rel audit_grows) (insert_log E l)" for l
    by (rule audit.inserting_log) (simp add: audit_grows_def)
  show "evolves (store_rel audit_grows) (db_write E rec)" for rec
    unfolding db_write_def rollback_to_persistence_def
    by (intro evolve_intros audit.wpre audit_upsert audit.committing audit.rolling_back)
qed (intro audit.wpre audit.committing audit.rolling_back channel.recv_rel channel.del_rel audit.pre)+

text \<open>
  Kinds of events a run adds none of to the trace: processing deletes nothing from the queue, and a
  whole run sends nothing.
\<close>

lemma adds_none_frame:
  assumes "\<not> k RolledBack" and "\<And>s. \<not> k (Committed s)"
  shows "processing_frame E (adds_none k)"
proof unfold_locales
  show commits: "evolves (adds_none k) (commit E)" by (rule adds_none_commit) (rule assms)
  show rolls: "evolves (adds_none k) rollback"
    unfolding rollback_def by (rule evolves_modify) (simp add: adds_none_def assms)
  show "evolves (adds_none k) (insert_log E l)" for l
    unfolding insert_log_def by (intro evolve_intros preorder_adds_none evolvesI) (simp add: Let_def adds_none_def)
  have "evolves (adds_none k) (execute_upsert E r)" for r
    unfolding execute_upsert_def by (intro evolve_intros preorder_adds_none evolvesI) (simp add: Let_def adds_none_def)
  then show "evolves (adds_none k) (db_write E r)" for r
    unfolding db_write_def rollback_to_persistence_def by (intro evolve_intros preorder_adds_none commits rolls)
  show "evolves (adds_none k) (set_document E i f)" for i f
    by (simp add: evolves_def set_document_eq adds_none_def)
qed (auto simp: adds_none_def only_reads_def)

interpretation quiet_frame: processing_frame E "adds_none is_deletion" for E
  by (rule adds_none_frame) simp_all

lemma queue_sends_none: "evolves (adds_none is_sent) (receive E v)" "evolves (adds_none is_sent) (delete E r)"
  by (auto simp: evolves_def adds_none_def receive_def delete_def next_tick_def record_event_def op_simps
      split: sum.split option.split)

interpretation unsent_frame: run_frame E "adds_none is_sent" for E
  by (intro run_frame.intro adds_none_frame run_frame_axioms.intro queue_sends_none) simp_all

section \<open>Steps of one row\<close>

text \<open>
  What recording an outcome does to the store: the row of the work item changes by a function, up to
  its time stamp, the audit trail gains some rows, and nothing else moves.
\<close>

definition row_of :: "store \<Rightarrow> int \<Rightarrow> document option" where
  "row_of s i = find (\<lambda>d. d_id d = i) (t_documents s)"

lemma row_of_member: "store_ok s \<Longrightarrow> d \<in> set (t_documents s) \<Longrightarrow> row_of s (d_id d) = Some d"
  unfolding row_of_def store_ok_def by (rule find_key_member) simp_all

definition stampless :: "document \<Rightarrow> document" where
  "stampless d = d\<lparr>d_updated_at := 0\<rparr>"

definition unstamped :: "processing_log \<Rightarrow> processing_log" where
  "unstamped l = l\<lparr>pl_id := 0, pl_created_at := 0\<rparr>"

definition row_step :: "int \<Rightarrow> (document \<Rightarrow> document) \<Rightarrow> processing_log list \<Rightarrow> store \<Rightarrow> store \<Rightarrow> bool" where
  "row_step i f ls s t \<longleftrightarrow>
     (\<exists>d d'. row_of s i = Some d \<and> row_of t i = Some d' \<and> stampless d' = stampless (f d))
     \<and> filter (\<lambda>d. d_id d \<noteq> i) (t_documents t) = filter (\<lambda>d. d_id d \<noteq> i) (t_documents s)
     \<and> t_sync_state t = t_sync_state s
     \<and> (\<exists>ks. t_processing_log t = t_processing_log s @ ks \<and> map unstamped ks = map unstamped ls)"

lemma row_step_trans:
  assumes "row_step i f ls s t" and "row_step i g ks t u"
    and "\<And>a b. row_of t i = Some a \<Longrightarrow> row_of s i = Some b \<Longrightarrow> stampless a = stampless (f b) \<Longrightarrow> stampless (g a) = stampless (h b)"
  shows "row_step i h (ls @ ks) s u"
  using assms unfolding row_step_def by fastforce

lemma row_step_same: "row_of s i = Some d \<Longrightarrow> row_step i (\<lambda>x. x) [] s s"
  by (simp add: row_step_def)

lemma row_step_set:
  assumes "row_of s i = Some d" and "marks f"
  shows "row_step i f [] s (s\<lparr>t_documents := update_where (\<lambda>d. d_id d = i) (touch_document now f) (t_documents s)\<rparr>)"
proof -
  have k: "d_id (touch_document now f d) = d_id d" for d
    using assms(2) by (simp add: touch_document_def)
  have "stampless (touch_document now f d) = stampless (f d)"
    by (auto simp: touch_document_def stampless_def)
  moreover have "d_id d = i" using assms(1) find_key_Some [where key = d_id] unfolding row_of_def by blast
  ultimately show ?thesis using assms(1) k
    by (auto simp: row_step_def row_of_def find_update_key [where key = d_id] intro!: filter_update_other)
qed

lemma row_step_log: "row_of s i = Some d \<Longrightarrow> row_step i (\<lambda>x. x) ls s (s\<lparr>t_processing_log := t_processing_log s @ ks\<rparr>) \<longleftrightarrow> map unstamped ks = map unstamped ls"
  by (auto simp: row_step_def row_of_def)

section \<open>Committing\<close>

lemma insert_log_result:
  assumes "insert_log E l w = (res, w')"
  shows "w_durable w' = w_durable w \<and> w_trace w' = w_trace w
    \<and> (case res of Inl e \<Rightarrow> is_sqlalchemy_error e
       | Inr _ \<Rightarrow> \<exists>k. w_work w' = (w_work w)\<lparr>t_processing_log := t_processing_log (w_work w) @ [k]\<rparr> \<and> unstamped k = unstamped l)"
proof (cases rule: db_call_cases [of E w])
  case (fails m)
  with assms show ?thesis by (auto simp: insert_log_def then_op_def bind_op_def)
next
  case answers
  let ?k = "l\<lparr>pl_id := w_next_log w, pl_created_at := db_now E (w_txn w)\<rparr>"
  have "unstamped ?k = unstamped l" by (simp add: unstamped_def)
  with assms answers show ?thesis
    by (auto simp: insert_log_def then_op_def bind_op_def Let_def integrity_error_def split: if_splits intro!: exI [of _ ?k])
qed

lemma insert_logs_result:
  "for_each (\<lambda>l. bind_op (insert_log E l) (\<lambda>_. ret ())) ls w = (res, w') \<Longrightarrow>
    w_durable w' = w_durable w \<and> w_trace w' = w_trace w
    \<and> (case res of Inl e \<Rightarrow> is_sqlalchemy_error e
       | Inr _ \<Rightarrow> \<exists>ks. w_work w' = (w_work w)\<lparr>t_processing_log := t_processing_log (w_work w) @ ks\<rparr> \<and> map unstamped ks = map unstamped ls)"
proof (induction ls arbitrary: w)
  case Nil
  then show ?case by (auto simp: ret_def intro!: exI [of _ "[]"])
next
  case (Cons l ls)
  obtain r1 u where one: "insert_log E l w = (r1, u)" by fastforce
  note l = insert_log_result [OF one]
  show ?case
  proof (cases r1)
    case (Inl e)
    with Cons.prems one l show ?thesis by (auto simp: then_op_def bind_op_def)
  next
    case (Inr x)
    then have "for_each (\<lambda>l. bind_op (insert_log E l) (\<lambda>_. ret ())) ls u = (res, w')"
      using Cons.prems one by (simp add: then_op_def bind_op_def ret_def)
    note rest = Cons.IH [OF this]
    obtain k where k: "w_work u = (w_work w)\<lparr>t_processing_log := t_processing_log (w_work w) @ [k]\<rparr>" "unstamped k = unstamped l"
      using l Inr by auto
    show ?thesis
    proof (cases res)
      case (Inl e)
      with rest l show ?thesis by simp
    next
      case (Inr y)
      with rest obtain ks where "w_work w' = (w_work u)\<lparr>t_processing_log := t_processing_log (w_work u) @ ks\<rparr>" "map unstamped ks = map unstamped ls"
        by auto
      with k rest l Inr show ?thesis by (auto intro!: exI [of _ "k # ks"])
    qed
  qed
qed

text \<open>The two ways \<^verbatim>\<open>_commit\<close> ends.\<close>

lemma commit_state_cases:
  assumes "commit_state E ls w = (res, w')"
  obtains (fails) m where "res = Inl (PersistenceError m)" and "w_durable w' = w_durable w" and "w_work w' = w_durable w"
      and "w_trace w' = w_trace w @ [RolledBack]"
    | (commits) ks where "res = Inr ()" and "w_durable w' = (w_work w)\<lparr>t_processing_log := t_processing_log (w_work w) @ ks\<rparr>"
      and "map unstamped ks = map unstamped ls" and "w_work w' = w_durable w'" and "w_trace w' = w_trace w @ [Committed (w_durable w')]"
proof -
  obtain r1 u where ins: "for_each (\<lambda>l. bind_op (insert_log E l) (\<lambda>_. ret ())) ls w = (r1, u)" by fastforce
  note i = insert_logs_result [OF ins]
  have undone: thesis if "r1 = Inl e \<or> r1 = Inr () \<and> commit E u = (Inl e, v) \<and> w_durable v = w_durable u \<and> w_trace v = w_trace u"
    and "is_sqlalchemy_error e" for e v
    using that assms ins i
    by (intro fails) (auto simp: commit_state_def catch_op_def then_op_def bind_op_def rollback_to_persistence_def rollback_def modify_op_def throw_def)
  show ?thesis
  proof (cases r1)
    case (Inl e)
    with i undone show ?thesis by simp
  next
    case (Inr x)
    obtain r2 v where cm: "commit E u = (r2, v)" by fastforce
    from commit_result [OF cm] show ?thesis
    proof (elim disjE exE conjE)
      fix m assume "r2 = Inl (SQLAlchemyError m)" "w_durable v = w_durable u" "w_trace v = w_trace u"
      with Inr cm show ?thesis by (intro undone [of "SQLAlchemyError m" v]) auto
    next
      assume "r2 = Inr ()" "w_durable v = w_work u" "w_work v = w_work u" "w_trace v = w_trace u @ [Committed (w_work u)]"
      with assms ins Inr cm i commits show ?thesis
        by (auto simp: commit_state_def catch_op_def then_op_def bind_op_def)
    qed
  qed
qed

section \<open>Recording\<close>

lemma load_then_cases:
  assumes "bind_op (load_document E i) k w = (res, w')"
  obtains (fails) e where "res = Inl e" and "is_sqlalchemy_error e" and "only_reads w w'"
    | (loads) d v where "row_of (w_work w) i = Some d" and "d_id d = i" and "only_reads w v" and "k d v = (res, w')"
  using assms
proof (cases rule: bind_op_eqE)
  case (raised e)
  then show ?thesis
    using evolvesD [OF reads_load_document raised(1)] raises_onlyD [OF raises_load raised(1) [unfolded load_document_def]] fails by simp
next
  case (continued d v)
  then have "bind_op (one_or_none E t_documents (\<lambda>r. d_id r = i)) (\<lambda>r. case r of None \<Rightarrow> throw (SQLAlchemyError ''Instance has been deleted, or its row is otherwise not present.'')
     | Some x \<Rightarrow> ret x) w = (Inr d, v)" by (simp add: load_document_def load_row_def)
  then obtain q u where q: "one_or_none E t_documents (\<lambda>r. d_id r = i) w = (Inr q, u)" "q = Some d"
    by (rule bind_op_eqE) (auto simp: op_simps split: option.splits)
  then have "row_of (w_work w) i = Some d"
    using one_or_none_Inr [OF q(1)] by (simp add: row_of_def find_filter)
  then show ?thesis
    using continued evolvesD [OF reads_load_document continued(1)] find_key_Some [where key = d_id] loads
    unfolding row_of_def by blast
qed

text \<open>
  How recording an outcome ends: the row step and its log rows are committed together, and then the
  log line may still fail to reload the row; or nothing became durable.
\<close>

definition settles :: "int \<Rightarrow> (document \<Rightarrow> document) \<Rightarrow> processing_log list \<Rightarrow> world \<Rightarrow> exn + unit \<Rightarrow> world \<Rightarrow> bool" where
  "settles i f ls w res w' \<longleftrightarrow>
     ((\<forall>e. res = Inl e \<longrightarrow> is_sqlalchemy_error e) \<and> w_work w' = w_durable w' \<and> w_trace w' = w_trace w @ [Committed (w_durable w')]
        \<and> row_step i f ls (w_durable w) (w_durable w'))
     \<or> (\<exists>e. res = Inl e \<and> is_sqlalchemy_error e \<and> w_durable w' = w_durable w \<and> w_trace w' = w_trace w)
     \<or> (\<exists>e. res = Inl e \<and> is_persistence_error e \<and> w_durable w' = w_durable w \<and> w_work w' = w_durable w
          \<and> w_trace w' = w_trace w @ [RolledBack])"

lemma settles_from:
  "settles i f ls u res w' \<Longrightarrow> w_durable u = w_durable w \<Longrightarrow> w_trace u = w_trace w \<Longrightarrow> settles i f ls w res w'"
  by (simp add: settles_def)

lemma settles_returns: "settles i f ls w (Inr ()) w' \<Longrightarrow>
    w_work w' = w_durable w' \<and> w_trace w' = w_trace w @ [Committed (w_durable w')] \<and> row_step i f ls (w_durable w) (w_durable w')"
  by (simp add: settles_def)

lemma log_document_result:
  assumes "log_document E i w = (res, w')"
  shows "only_reads w w' \<and> (\<forall>e. res = Inl e \<longrightarrow> is_sqlalchemy_error e)"
  using assms unfolding log_document_def by (cases rule: load_then_cases) (auto simp: ret_def)

lemma commit_then_log:
  assumes "then_op (commit_state E ls) (log_document E i) w = (res, w')" and "row_step i f [] (w_durable w) (w_work w)"
  shows "settles i f ls w res w'"
proof -
  obtain r1 u where cs: "commit_state E ls w = (r1, u)" by fastforce
  from cs show ?thesis
  proof (cases rule: commit_state_cases)
    case (fails m)
    with assms(1) cs show ?thesis by (auto simp: settles_def then_op_def bind_op_def)
  next
    case (commits ks)
    then have "log_document E i u = (res, w')" using assms(1) cs by (simp add: then_op_def bind_op_def)
    note l = log_document_result [OF this]
    have "row_step i f ls (w_durable w) (w_durable u)"
      using assms(2) commits(2,3) by (auto simp: row_step_def row_of_def)
    with l only_reads_stores [of u w'] commits show ?thesis by (simp add: settles_def)
  qed
qed

lemma set_then:
  assumes "then_op (set_document E i f) n w = (res, w')" and "row_step i g [] (w_durable w) (w_work w)" and "marks f"
    and "\<And>a b. row_of (w_work w) i = Some a \<Longrightarrow> row_of (w_durable w) i = Some b \<Longrightarrow> stampless a = stampless (g b) \<Longrightarrow>
      stampless (f a) = stampless (h b)"
  obtains u where "n u = (res, w')" and "w_durable u = w_durable w" and "w_trace u = w_trace w"
    and "row_step i h [] (w_durable u) (w_work u)"
proof -
  let ?u = "w\<lparr>w_work := (w_work w)\<lparr>t_documents := update_where (\<lambda>d. d_id d = i) (touch_document (db_now E (w_txn w)) f) (t_documents (w_work w))\<rparr>\<rparr>"
  obtain d where "row_of (w_work w) i = Some d" using assms(2) by (auto simp: row_step_def)
  from row_step_trans [OF assms(2) row_step_set [OF this assms(3)] assms(4)]
  have "row_step i h [] (w_durable ?u) (w_work ?u)" by simp
  moreover have "n ?u = (res, w')" using assms(1) by (simp add: then_op_def bind_op_def set_document_eq)
  ultimately show ?thesis by (intro that [of ?u]) simp_all
qed

definition skipped_row :: "document \<Rightarrow> document" where "skipped_row d = d\<lparr>d_status := Ds_skipped\<rparr>"

definition failed_row :: "exn \<Rightarrow> document \<Rightarrow> document" where
  "failed_row e d = d\<lparr>d_status := Ds_failed, d_error_message := Some (exn_str e), d_retry_count := d_retry_count d + 1\<rparr>"

lemma record_skipped_result:
  assumes "record_skipped E i r reason w = (res, w')" and "row_step i f [] (w_durable w) (w_work w)"
  shows "settles i (\<lambda>d. skipped_row (f d)) [attempt_log i r LOG_SKIPPED reason] w res w'"
  using assms(1) unfolding record_skipped_def
proof (rule set_then [OF _ assms(2), where h = "\<lambda>d. skipped_row (f d)"])
  show "stampless a = stampless (f b) \<Longrightarrow> stampless (a\<lparr>d_status := Ds_skipped\<rparr>) = stampless (skipped_row (f b))" for a b
    by (cases a; cases "f b") (simp add: stampless_def skipped_row_def)
  fix u
  assume run: "bind_op (load_document E i) (\<lambda>d. then_op (commit_state E [attempt_log (d_id d) r LOG_SKIPPED reason]) (log_document E i)) u = (res, w')"
    and u: "w_durable u = w_durable w" "w_trace u = w_trace w" "row_step i (\<lambda>d. skipped_row (f d)) [] (w_durable u) (w_work u)"
  from run show ?thesis
  proof (cases rule: load_then_cases)
    case (fails e)
    with u only_reads_stores [of u w'] show ?thesis by (simp add: settles_def)
  next
    case (loads d v)
    note v = only_reads_stores [OF loads(3)]
    have "settles i (\<lambda>d. skipped_row (f d)) [attempt_log i r LOG_SKIPPED reason] v res w'"
      using loads(2,4) u(3) v by (intro commit_then_log) simp_all
    with u v show ?thesis by (simp add: settles_from)
  qed
qed simp

lemma stampless_eq:
  "stampless a = stampless b \<Longrightarrow> a = b\<lparr>d_updated_at := d_updated_at a\<rparr>"
  by (cases a; cases b) (simp add: stampless_def)

lemma record_failure_result:
  assumes "record_failure E i r err w = (res, w')" and "row_step i f [] (w_durable w) (w_work w)"
  shows "settles i (\<lambda>d. failed_row err (f d)) [attempt_log i r LOG_FAILED (exn_str err)] w res w'"
  using assms(1) unfolding record_failure_def
proof (rule set_then [OF _ assms(2), where h = "\<lambda>d. (f d)\<lparr>d_status := Ds_failed, d_error_message := Some (exn_str err)\<rparr>"])
  show "stampless a = stampless (f b) \<Longrightarrow> stampless (a\<lparr>d_status := Ds_failed, d_error_message := Some (exn_str err)\<rparr>)
      = stampless ((f b)\<lparr>d_status := Ds_failed, d_error_message := Some (exn_str err)\<rparr>)" for a b
    by (cases a; cases "f b") (simp add: stampless_def)
  let ?h = "\<lambda>d. failed_row err (f d)" and ?ls = "[attempt_log i r LOG_FAILED (exn_str err)]"
  fix u
  assume run: "bind_op (load_document E i) (\<lambda>d. then_op (set_document E i (\<lambda>x. x\<lparr>d_retry_count := d_retry_count d + 1\<rparr>))
      (then_op (commit_state E [attempt_log (d_id d) r LOG_FAILED (exn_str err)]) (log_document E i))) u = (res, w')"
    and u: "w_durable u = w_durable w" "w_trace u = w_trace w"
      "row_step i (\<lambda>d. (f d)\<lparr>d_status := Ds_failed, d_error_message := Some (exn_str err)\<rparr>) [] (w_durable u) (w_work u)"
  from run show ?thesis
  proof (cases rule: load_then_cases)
    case (fails e)
    with u only_reads_stores [of u w'] show ?thesis by (simp add: settles_def)
  next
    case (loads d v)
    note v = only_reads_stores [OF loads(3)]
    have "settles i ?h ?ls v res w'"
      using loads(4)
    proof (rule set_then [where h = ?h])
      show "row_step i (\<lambda>d. (f d)\<lparr>d_status := Ds_failed, d_error_message := Some (exn_str err)\<rparr>) [] (w_durable v) (w_work v)"
        using u(3) v by simp
      show "stampless (a\<lparr>d_retry_count := d_retry_count d + 1\<rparr>) = stampless (?h b)"
        if "row_of (w_work v) i = Some a" "stampless a = stampless ((f b)\<lparr>d_status := Ds_failed, d_error_message := Some (exn_str err)\<rparr>)" for a b
      proof -
        have "a = d" using that(1) loads(1) v by simp
        then show ?thesis using that(2) by (cases d; cases "f b") (simp add: stampless_def failed_row_def)
      qed
      fix x
      assume "then_op (commit_state E [attempt_log (d_id d) r LOG_FAILED (exn_str err)]) (log_document E i) x = (res, w')"
        and x: "w_durable x = w_durable v" "w_trace x = w_trace v" "row_step i ?h [] (w_durable x) (w_work x)"
      then have "settles i ?h ?ls x res w'" using loads(2) by (intro commit_then_log) simp_all
      with x show "settles i ?h ?ls v res w'" by (simp add: settles_from)
    qed simp
    with u v show ?thesis by (simp add: settles_from)
  qed
qed simp

definition completed_row :: "document \<Rightarrow> document" where "completed_row d = d\<lparr>d_status := Ds_completed\<rparr>"

lemma record_override_result:
  assumes "record_override E d r w = (res, w')" and "row_step (d_id d) f [] (w_durable w) (w_work w)"
  shows "settles (d_id d) (\<lambda>d. completed_row (f d)) [attempt_log (d_id d) r LOG_SKIPPED OVERRIDE_REASON] w res w'"
  using assms(1) unfolding record_override_def
proof (rule set_then [OF _ assms(2), where h = "\<lambda>d. completed_row (f d)"])
  show "stampless a = stampless (f b) \<Longrightarrow> stampless (a\<lparr>d_status := Ds_completed\<rparr>) = stampless (completed_row (f b))" for a b
    by (cases a; cases "f b") (simp add: stampless_def completed_row_def)
  fix u
  assume "then_op (commit_state E [attempt_log (d_id d) r LOG_SKIPPED OVERRIDE_REASON]) (log_document E (d_id d)) u = (res, w')"
    and u: "w_durable u = w_durable w" "w_trace u = w_trace w" "row_step (d_id d) (\<lambda>d. completed_row (f d)) [] (w_durable u) (w_work u)"
  from settles_from [OF commit_then_log [OF this(1,4)] this(2,3)] show ?thesis .
qed simp

lemma upsert_one_row:
  assumes "store_ok (w_work w)" and "row_of (w_work w) i = Some d" and "doc_key d = conflict_key r"
    and "d_classification_override d = None" and "execute_upsert E r w = (Inr x, u)"
  shows "row_step i (excluded_onto r (db_now E (w_txn w))) [] (w_work w) (w_work u)"
proof -
  let ?rows = "t_documents (w_work w)" and ?f = "excluded_onto r (db_now E (w_txn w))"
  have d: "d \<in> set ?rows" "d_id d = i"
    using assms(2) find_key_Some [where key = d_id] unfolding row_of_def by blast+
  then have "conflict_key r \<in> doc_key ` set ?rows" using assms(3) by (metis image_eqI)
  then have u: "w_work u = (w_work w)\<lparr>t_documents := update_where (upsert_updates r) ?f ?rows\<rparr>"
    using assms(5) by (cases rule: db_call_cases [of E w]) (auto simp: execute_upsert_def then_op_def bind_op_def Let_def)
  have "upsert_updates r x \<longleftrightarrow> d_id x = i" if "x \<in> set ?rows" for x
    using distinct_map_eqD [of d_id ?rows x d] distinct_map_eqD [of doc_key ?rows x d] that d assms(1,3,4)
    by (auto simp: upsert_updates_def store_ok_def)
  then have "update_where (upsert_updates r) ?f ?rows = update_where (\<lambda>x. d_id x = i) ?f ?rows"
    by (simp add: update_where_def)
  then show ?thesis using u assms(2) d(2)
    by (auto simp: row_step_def row_of_def find_update_key [where key = d_id] intro!: filter_update_other)
qed

text \<open>
  A success is recorded in two transactions: the result, then its log row. What became durable is
  the two, the result alone, or nothing.
\<close>

definition success_recorded ::
  "'z db_env_scheme \<Rightarrow> int \<Rightarrow> message \<Rightarrow> received_message \<Rightarrow> classification \<Rightarrow> world \<Rightarrow> exn + unit \<Rightarrow> world \<Rightarrow> bool" where
  "success_recorded E i m r c w res w' \<longleftrightarrow>
     (let f = excluded_onto (classification_record m c) (db_now E (w_txn w)) in
      ((\<forall>e. res = Inl e \<longrightarrow> is_sqlalchemy_error e) \<and> w_work w' = w_durable w'
         \<and> row_step i f [completed_log i r c] (w_durable w) (w_durable w')
         \<and> (\<exists>s. w_trace w' = w_trace w @ [Committed s, Committed (w_durable w')]))
      \<or> (\<exists>e s tr. res = Inl e \<and> (is_sqlalchemy_error e \<or> is_persistence_error e) \<and> row_step i f [] (w_durable w) (w_durable w')
           \<and> w_trace w' = w_trace w @ Committed s # tr \<and> tr \<in> {[], [RolledBack]})
      \<or> (\<exists>e. res = Inl e \<and> is_persistence_error e \<and> w_durable w' = w_durable w \<and> w_work w' = w_durable w
           \<and> w_trace w' = w_trace w @ [RolledBack]))"

lemma record_success_result:
  assumes "record_success E i m r c w = (res, w')" and "store_ok (w_durable w)" and "w_work w = w_durable w"
    and "row_of (w_durable w) i = Some d" and "doc_key d = (ms_sync_state_id m, ms_drive_item_id m)"
    and "d_classification_override d = None"
  shows "success_recorded E i m r c w res w'"
proof -
  let ?rec = "classification_record m c"
  let ?f = "excluded_onto ?rec (db_now E (w_txn w))"
  have key: "doc_key d = conflict_key ?rec" using assms(5) by (simp add: classification_record_def conflict_key_def)
  obtain r1 u where wr: "db_write E ?rec w = (r1, u)" by fastforce
  from wr show ?thesis
  proof (cases rule: db_write_cases)
    case (fails x)
    with assms(1) wr have "res = Inl (PersistenceError x)" "w' = u" by (auto simp: record_success_def then_op_def bind_op_def)
    with fails show ?thesis by (simp add: success_recorded_def Let_def)
  next
    case (writes u')
    have step: "row_step i ?f [] (w_durable w) (w_durable u)"
      using upsert_one_row [OF _ _ key assms(6) writes(2)] assms(2,3,4) writes by simp
    have clean: "w_work u = w_durable u" using writes by simp
    have tr: "w_trace u = w_trace w @ [Committed (w_durable u)]" using writes by simp
    have "bind_op (load_document E i) (\<lambda>d. then_op (commit_state E [completed_log (d_id d) r c]) (log_document E i)) u = (res, w')"
      using assms(1) wr writes(1) by (simp add: record_success_def then_op_def bind_op_def)
    then show ?thesis
    proof (cases rule: load_then_cases)
      case (fails e)
      with step tr only_reads_stores [of u w'] show ?thesis by (auto simp: success_recorded_def Let_def)
    next
      case (loads d' v)
      note v = only_reads_stores [OF loads(3)]
      have "row_step i (\<lambda>x. x) [] (w_durable v) (w_work v)"
        using row_step_same [OF loads(1)] v clean by simp
      then have st: "settles i (\<lambda>x. x) [completed_log i r c] v res w'"
        using loads(2,4) by (intro commit_then_log) simp_all
      have join: "row_step i ?f [completed_log i r c] (w_durable w) t" if "row_step i (\<lambda>x. x) [completed_log i r c] (w_durable v) t" for t
        using row_step_trans [OF step, where ks = "[completed_log i r c]" and g = "\<lambda>x. x" and u = t and h = ?f] that v by simp
      from st show ?thesis unfolding settles_def
        using join step tr v by (auto simp: success_recorded_def Let_def)
    qed
  qed
qed

lemma stampless_fields:
  "stampless a = stampless b \<Longrightarrow> d_id a = d_id b \<and> doc_key a = doc_key b \<and> d_classification_override a = d_classification_override b \<and> d_status a = d_status b"
  by (cases a; cases b) (simp add: stampless_def doc_key_def)

section \<open>A healthy database\<close>

text \<open>
  With a driver that never faults, a consistent store and the row in place, recording an outcome
  returns.
\<close>

definition healthy :: "'z db_env_scheme \<Rightarrow> bool" where
  "healthy E \<longleftrightarrow> (\<forall>t. db_fault E t = None)"

definition present :: "int \<Rightarrow> int \<times> string \<Rightarrow> world \<Rightarrow> bool" where
  "present i k w \<longleftrightarrow> world_ok w \<and> (\<exists>d. row_of (w_work w) i = Some d \<and> doc_key d = k)"

lemma healthy_call: "healthy E \<Longrightarrow> db_call E w = (Inr (), w\<lparr>w_tick := Suc (w_tick w)\<rparr>)"
  by (simp add: healthy_def db_call_def next_tick_def op_simps)

lemma present_reads: "present i k w \<Longrightarrow> only_reads w v \<Longrightarrow> present i k v"
  using ok_frame.reading [of w v] by (simp add: present_def keeps_def only_reads_def same_stores_def)

lemma returns_set [return_intros]:
  assumes "marks f"
  shows "returns (present i k) (set_document E i f)"
proof (rule returnsI)
  fix w assume w: "present i k w"
  let ?v = "w\<lparr>w_work := (w_work w)\<lparr>t_documents := update_where (\<lambda>d. d_id d = i) (touch_document (db_now E (w_txn w)) f) (t_documents (w_work w))\<rparr>\<rparr>"
  obtain d where d: "row_of (w_work w) i = Some d" "doc_key d = k" using w by (auto simp: present_def)
  obtain d' where "row_of (w_work ?v) i = Some d'" "stampless d' = stampless (f d)"
    using row_step_set [OF d(1) assms, of "db_now E (w_txn w)"] d(1) by (auto simp: row_step_def)
  moreover have marking: "evolves (keeps world_ok) (set_document E i f)" by (rule ok_set_document) (simp add: assms)
  then have "world_ok ?v" using evolvesD [OF marking set_document_eq] w unfolding present_def keeps_def by blast
  ultimately have "present i k ?v" using stampless_fields [of d' "f d"] d(2) assms by (simp add: present_def)
  then show "\<exists>x t. set_document E i f w = (Inr x, t) \<and> present i k t" by (simp add: set_document_eq)
qed

lemma present_filter:
  assumes "present i k w" and "row_of (w_work w) i = Some d"
  shows "filter (\<lambda>x. d_id x = i) (t_documents (w_work w)) = [d]" and "d_id d = i"
proof -
  have d: "d \<in> set (t_documents (w_work w))" "d_id d = i"
    using assms(2) find_key_Some [where key = d_id] unfolding row_of_def by blast+
  have "distinct (map d_id (t_documents (w_work w)))" using assms(1) by (simp add: present_def world_ok_def store_ok_def)
  with d show "filter (\<lambda>x. d_id x = i) (t_documents (w_work w)) = [d]" "d_id d = i"
    using filter_key_unique [where key = d_id] by blast+
qed

lemma returns_load_then:
  assumes "healthy E" and "\<And>d. d_id d = i \<Longrightarrow> returns (present i k) (n d)"
  shows "returns (present i k) (bind_op (load_document E i) n)"
proof (rule returnsI)
  fix w assume w: "present i k w"
  then obtain d where d: "row_of (w_work w) i = Some d" by (auto simp: present_def)
  note f = present_filter [OF w d]
  have ld: "load_document E i w = (Inr d, w\<lparr>w_tick := Suc (w_tick w)\<rparr>)"
    using healthy_call [OF assms(1), of w] f(1) by (simp add: load_document_def load_row_def one_or_none_def then_op_def bind_op_def gets_op_def ret_def)
  then have "present i k (w\<lparr>w_tick := Suc (w_tick w)\<rparr>)"
    using present_reads [OF w evolvesD [OF reads_load_document ld]] by simp
  with ld show "\<exists>x t. bind_op (load_document E i) n w = (Inr x, t) \<and> present i k t"
    using assms(2) [OF f(2)] by (auto simp: bind_op_def returns_def)
qed

lemma returns_insert_log [return_intros]:
  assumes "healthy E" and "pl_document_id l = i"
  shows "returns (present i k) (insert_log E l)"
proof (rule returnsI)
  fix w assume w: "present i k w"
  obtain r v where il: "insert_log E l w = (r, v)" by fastforce
  have "i \<in> d_id ` set (t_documents (w_work w))"
    using w find_key_Some [where key = d_id] unfolding present_def row_of_def by (metis image_eqI)
  then obtain x where r: "r = Inr x"
    using il assms healthy_call [OF assms(1), of w] by (auto simp: insert_log_def then_op_def bind_op_def Let_def)
  have "row_of (w_work v) i = row_of (w_work w) i" using insert_log_result [OF il] r by (auto simp: row_of_def)
  then have "present i k v" using w evolvesD [OF ok_insert_log il] by (simp add: present_def keeps_def)
  with il r show "\<exists>x t. insert_log E l w = (Inr x, t) \<and> present i k t" by blast
qed

lemma returns_commit [return_intros]:
  assumes "healthy E"
  shows "returns (present i k) (commit E)"
proof (rule returnsI)
  fix w assume w: "present i k w"
  obtain r v where cm: "commit E w = (r, v)" by fastforce
  then have "r = Inr ()" "w_work v = w_work w" using healthy_call [OF assms, of w] by (auto simp: commit_def then_op_def bind_op_def)
  with cm w evolvesD [OF ok_commit cm] show "\<exists>x t. commit E w = (Inr x, t) \<and> present i k t"
    by (simp add: present_def keeps_def)
qed

lemma returns_commit_state [return_intros]:
  "healthy E \<Longrightarrow> \<forall>l \<in> set ls. pl_document_id l = i \<Longrightarrow> returns (present i k) (commit_state E ls)"
  unfolding commit_state_def by (intro return_intros) auto

lemma returns_log_document [return_intros]: "healthy E \<Longrightarrow> returns (present i k) (log_document E i)"
  unfolding log_document_def by (intro returns_load_then return_intros)

lemma log_document_ids [simp]: "pl_document_id (attempt_log i r st e) = i" "pl_document_id (completed_log i r c) = i"
  by (simp_all add: attempt_log_def completed_log_def new_processing_log_def)

lemma returns_recording:
  assumes "healthy E"
  shows "returns (present i k) (record_skipped E i r reason)" and "returns (present i k) (record_failure E i r err)"
  unfolding record_skipped_def record_failure_def
  by (intro return_intros returns_load_then assms; simp)+

lemma returns_override:
  assumes "healthy E" and "d_id d = i"
  shows "returns (present i k) (record_override E d r)"
  unfolding record_override_def assms(2) by (intro return_intros assms(1); simp)

lemma returns_upsert:
  assumes "healthy E" and "conflict_key rec = k"
  shows "returns (present i k) (execute_upsert E rec)"
proof (rule returnsI)
  fix w assume w: "present i k w"
  then obtain d where d: "row_of (w_work w) i = Some d" "doc_key d = k" by (auto simp: present_def)
  then have "k \<in> doc_key ` set (t_documents (w_work w))"
    using find_key_Some [where key = d_id] unfolding row_of_def by (metis image_eqI)
  then obtain v where up: "execute_upsert E rec w = (Inr (), v)" and
    v: "t_documents (w_work v) = update_where (upsert_updates rec) (excluded_onto rec (db_now E (w_txn w))) (t_documents (w_work w))"
    using healthy_call [OF assms(1), of w] assms(2) by (simp add: execute_upsert_def then_op_def bind_op_def Let_def)
  have "\<exists>d'. row_of (w_work v) i = Some d' \<and> doc_key d' = k"
    using d v by (auto simp: row_of_def find_update_key [where key = d_id])
  with up w evolvesD [OF ok_execute_upsert up] show "\<exists>x t. execute_upsert E rec w = (Inr x, t) \<and> present i k t"
    by (simp add: present_def keeps_def)
qed

lemma returns_success:
  "healthy E \<Longrightarrow> k = (ms_sync_state_id m, ms_drive_item_id m) \<Longrightarrow> returns (present i k) (record_success E i m r c)"
  unfolding record_success_def db_write_def
  by (intro return_intros returns_load_then returns_upsert; simp add: conflict_key_def classification_record_def)

end
