(* ===== verification/ProcessorRuns.thy ===== *)
theory ProcessorRuns
  imports Processor
begin

text \<open>
  What a run of the processor amounts to: the pure decision on a work item, the ways processing ends in
  terms of that decision, and the properties of whole runs.
\<close>

section \<open>The decision\<close>

text \<open>
  What the pipeline decides, as a function of the world it starts in: the abstract specification of an
  attempt, without any row, transaction or message.
\<close>

datatype attempt_outcome = Classified classification | Skip string | Fail exn | Escape exn

definition failure_outcome :: "message \<Rightarrow> exn \<Rightarrow> attempt_outcome" where
  "failure_outcome m e = (if is_unsupported e then Skip (unsupported_reason m e)
     else if is_attempt_failure e then Fail e else Escape e)"

definition decide :: "'z process_env_scheme \<Rightarrow> content_source \<Rightarrow> jev_classifier \<Rightarrow> message \<Rightarrow> world \<Rightarrow> attempt_outcome" where
  "decide E src jc m w =
     (case fetch_content_hash E src m w of
        (Inl e, _) \<Rightarrow> failure_outcome m e
      | (Inr h, u) \<Rightarrow> if h \<noteq> Some (ms_content_hash m) then Skip MISMATCH_REASON
         else (case download E src m u of
            (Inl e, _) \<Rightarrow> failure_outcome m e
          | (Inr data, _) \<Rightarrow>
             (case extract_text_from_bytes (pe_libs E) data (ms_mime_type m) of
                Inl e \<Rightarrow> failure_outcome m e
              | Inr t \<Rightarrow> (case jev_classify (float_repr E) jc t of Inl e \<Rightarrow> failure_outcome m e | Inr c \<Rightarrow> Classified c))))"

text \<open>How the pipeline ends, by its decision.\<close>

definition failure_recorded ::
  "'z db_env_scheme \<Rightarrow> int \<Rightarrow> received_message \<Rightarrow> exn \<Rightarrow> world \<Rightarrow> exn + unit \<Rightarrow> world \<Rightarrow> bool" where
  "failure_recorded E i r err w res w' \<longleftrightarrow>
     (\<exists>res'. settles i (failed_row err) [attempt_log i r LOG_FAILED (exn_str err)] w res' w'
        \<and> res = (case res' of Inl e \<Rightarrow> Inl e | Inr _ \<Rightarrow> Inl err) \<and> (healthy E \<and> world_ok w \<longrightarrow> res' = Inr ()))"

definition skip_recorded ::
  "'z db_env_scheme \<Rightarrow> int \<Rightarrow> received_message \<Rightarrow> string \<Rightarrow> world \<Rightarrow> exn + unit \<Rightarrow> world \<Rightarrow> bool" where
  "skip_recorded E i r reason w res w' \<longleftrightarrow>
     settles i skipped_row [attempt_log i r LOG_SKIPPED reason] w res w' \<and> (healthy E \<and> world_ok w \<longrightarrow> res = Inr ())"

text \<open>A failed skip of a changed file is itself recorded as a failure, since it happens inside the \<^verbatim>\<open>try\<close>.\<close>

definition skip_failed ::
  "'z db_env_scheme \<Rightarrow> int \<Rightarrow> received_message \<Rightarrow> world \<Rightarrow> exn + unit \<Rightarrow> world \<Rightarrow> bool" where
  "skip_failed E i r w res w' \<longleftrightarrow> \<not> (healthy E \<and> world_ok w)
     \<and> (\<exists>x msg. w_durable x = w_durable w \<and> w_trace x = w_trace w @ [RolledBack] \<and> failure_recorded E i r (PersistenceError msg) x res w')"

lemma present_row: "row_of (w_durable w) i = Some d \<Longrightarrow> w_work w = w_durable w \<Longrightarrow> world_ok w \<Longrightarrow> present i (doc_key d) w"
  by (simp add: present_def)

lemma record_failure_then:
  assumes "then_op (record_failure E i r err) (throw err) w = (res, w')" and "w_work w = w_durable w" and "row_of (w_durable w) i = Some d"
  shows "failure_recorded E i r err w res w'"
proof -
  obtain res' u where rf: "record_failure E i r err w = (res', u)" by fastforce
  have start: "row_step i (\<lambda>x. x) [] (w_durable w) (w_work w)" using row_step_same [OF assms(3)] assms(2) by simp
  have "settles i (failed_row err) [attempt_log i r LOG_FAILED (exn_str err)] w res' u"
    using record_failure_result [OF rf start] by simp
  moreover have "res' = Inr ()" if "healthy E" "world_ok w"
    using returnsD [OF returns_recording(2) [OF that(1)] present_row [OF assms(3,2) that(2)] rf] by simp
  moreover have "res = (case res' of Inl e \<Rightarrow> Inl e | Inr _ \<Rightarrow> Inl err) \<and> w' = u"
    using assms(1) rf by (cases res') (auto simp: then_op_def bind_op_def throw_def)
  ultimately show ?thesis unfolding failure_recorded_def by blast
qed

definition pipeline_outcome ::
  "'z process_env_scheme \<Rightarrow> content_source \<Rightarrow> jev_classifier \<Rightarrow> int \<Rightarrow> message \<Rightarrow> received_message \<Rightarrow> world \<Rightarrow> exn + unit \<Rightarrow> world \<Rightarrow> bool" where
  "pipeline_outcome E src jc i m r w res w' \<longleftrightarrow>
     (case decide E src jc m w of
        Classified c \<Rightarrow> success_recorded E i m r c w res w' \<and> (healthy E \<and> world_ok w \<longrightarrow> res = Inr ())
      | Skip reason \<Rightarrow> skip_recorded E i r reason w res w' \<or> skip_failed E i r w res w'
      | Fail e \<Rightarrow> failure_recorded E i r e w res w'
      | Escape e \<Rightarrow> res = Inl e \<and> w_durable w' = w_durable w \<and> w_work w' = w_work w \<and> w_trace w' = w_trace w)"

text \<open>The handlers of the \<^verbatim>\<open>try\<close>, at a world that differs from its start by reads only.\<close>

definition handle :: "'z process_env_scheme \<Rightarrow> int \<Rightarrow> message \<Rightarrow> received_message \<Rightarrow> exn \<Rightarrow> classification option job" where
  "handle E i m r err =
     (if is_unsupported err then then_op (record_skipped E i r (unsupported_reason m err)) (ret None)
      else if is_attempt_failure err then then_op (record_failure E i r err) (throw err) else throw err)"

lemma failure_recorded_from:
  "failure_recorded E i r e u res w' \<Longrightarrow> only_reads w u \<Longrightarrow> failure_recorded E i r e w res w'"
  using ok_frame.reading [of w u] only_reads_stores [of w u] unfolding failure_recorded_def keeps_def by (metis settles_from)

lemma skip_error_class: "is_sqlalchemy_error e \<Longrightarrow> \<not> is_unsupported e \<and> \<not> is_attempt_failure e"
  "is_persistence_error e \<Longrightarrow> \<not> is_unsupported e \<and> is_attempt_failure e"
  by (cases e; simp)+

lemma persistence_error_shape: "is_persistence_error e \<Longrightarrow> \<exists>m. e = PersistenceError m"
  by (cases e) auto

lemma handled:
  assumes "bind_op (handle E i m r err) k u = (res, w')" and "k None = ret ()"
    and "only_reads w u" and "w_work w = w_durable w" and "row_of (w_durable w) i = Some d"
  shows "case failure_outcome m err of
      Skip reason \<Rightarrow> skip_recorded E i r reason w res w'
    | Fail e \<Rightarrow> failure_recorded E i r e w res w'
    | Escape e \<Rightarrow> res = Inl e \<and> w_durable w' = w_durable w \<and> w_work w' = w_work w \<and> w_trace w' = w_trace w
    | _ \<Rightarrow> False"
proof -
  note same = only_reads_stores [OF assms(3)]
  have start: "row_step i (\<lambda>x. x) [] (w_durable u) (w_work u)" using row_step_same [OF assms(5)] same assms(4) by simp
  consider "is_unsupported err" | "\<not> is_unsupported err" "is_attempt_failure err" | "\<not> is_unsupported err" "\<not> is_attempt_failure err" by blast
  then show ?thesis
  proof cases
    case 1
    obtain r1 v where rs: "record_skipped E i r (unsupported_reason m err) u = (r1, v)" by fastforce
    have "res = r1 \<and> w' = v"
      using assms(1,2) rs 1 by (cases r1) (auto simp: handle_def then_op_def bind_op_def ret_def)
    moreover have "r1 = Inr ()" if "healthy E" "world_ok w"
      using returnsD [OF returns_recording(1) [OF that(1)] present_reads [OF present_row [OF assms(5,4) that(2)] assms(3)] rs] by simp
    ultimately show ?thesis using record_skipped_result [OF rs start] same 1
      by (simp add: failure_outcome_def skip_recorded_def settles_from)
  next
    case 2
    obtain r1 v where rf: "then_op (record_failure E i r err) (throw err) u = (r1 :: exn + unit, v)" by fastforce
    have "res = r1 \<and> w' = v"
      using assms(1) rf 2 by (auto simp: handle_def then_op_def bind_op_def throw_def split: prod.splits sum.splits)
    moreover have "failure_recorded E i r err u r1 v"
      using record_failure_then [OF rf] same assms(4,5) by simp
    ultimately show ?thesis using assms(3) 2 by (simp add: failure_outcome_def failure_recorded_from)
  next
    case 3
    then show ?thesis using assms(1) same assms(4) by (auto simp: handle_def failure_outcome_def bind_op_def throw_def)
  qed
qed

lemma pipeline_start: "run_pipeline E src jc i m r = bind_op (catch_op (attempt E src jc i m r) (handle E i m r))
    (\<lambda>c. case c of None \<Rightarrow> ret () | Some x \<Rightarrow> record_success E i m r x)"
  by (simp add: run_pipeline_def handle_def [abs_def])

lemma raised_pipeline:
  assumes "attempt E src jc i m r w = (Inl err, u)" and "run_pipeline E src jc i m r w = (res, w')"
  shows "bind_op (handle E i m r err) (\<lambda>c. case c of None \<Rightarrow> ret () | Some x \<Rightarrow> record_success E i m r x) u = (res, w')"
  using assms unfolding pipeline_start by (simp add: bind_op_def catch_op_def)

lemma mismatch_pipeline:
  assumes "fetch_content_hash E src m w = (Inr h, u)" and "h \<noteq> Some (ms_content_hash m)"
    and "w_work w = w_durable w" and "row_of (w_durable w) i = Some d" and "run_pipeline E src jc i m r w = (res, w')"
  shows "skip_recorded E i r MISMATCH_REASON w res w' \<or> skip_failed E i r w res w'"
proof -
  have u: "only_reads w u" by (rule evolvesD [OF retrieval.fetch_reads assms(1)])
  note same = only_reads_stores [OF u]
  have start: "row_step i (\<lambda>x. x) [] (w_durable u) (w_work u)" using row_step_same [OF assms(4)] same assms(3) by simp
  obtain r1 v where rs: "record_skipped E i r MISMATCH_REASON u = (r1, v)" by fastforce
  have st: "settles i skipped_row [attempt_log i r LOG_SKIPPED MISMATCH_REASON] w r1 v"
    using record_skipped_result [OF rs start] same by (simp add: settles_from)
  have h: "r1 = Inr ()" if "healthy E" "world_ok w"
    using returnsD [OF returns_recording(1) [OF that(1)] present_reads [OF present_row [OF assms(4,3) that(2)] u] rs] by simp
  show ?thesis
  proof (cases r1)
    case (Inr x)
    then have "attempt E src jc i m r w = (Inr None, v)"
      using assms(1,2) rs by (simp add: attempt_def bind_op_def then_op_def ret_def)
    then have "res = Inr () \<and> w' = v" using assms(5) unfolding pipeline_start by (simp add: catch_op_def bind_op_def ret_def)
    with st Inr show ?thesis by (simp add: skip_recorded_def)
  next
    case (Inl e)
    then have sick: "\<not> (healthy E \<and> world_ok w)" using h by auto
    from Inl have "attempt E src jc i m r w = (Inl e, v)"
      using assms(1,2) rs by (simp add: attempt_def bind_op_def then_op_def)
    note rp = raised_pipeline [OF this assms(5)]
    show ?thesis
    proof (cases "is_sqlalchemy_error e")
      case True
      then have "res = Inl e \<and> w' = v" using rp skip_error_class(1) [OF True] by (simp add: handle_def bind_op_def throw_def)
      with st Inl sick show ?thesis by (simp add: skip_recorded_def)
    next
      case False
      then have e: "is_persistence_error e" and v: "w_durable v = w_durable w" "w_work v = w_durable w" "w_trace v = w_trace w @ [RolledBack]"
        using st Inl by (auto simp: settles_def)
      obtain msg where msg: "e = PersistenceError msg" using persistence_error_shape [OF e] by blast
      have "only_reads v v" by (rule preorder_refl [OF preorder_only_reads])
      from handled [OF rp _ this, where d = d] v assms(4) msg have "failure_recorded E i r e v res w'"
        by (simp add: failure_outcome_def)
      with v msg sick show ?thesis unfolding skip_failed_def by blast
    qed
  qed
qed

lemma pipeline_result:
  assumes "run_pipeline E src jc i m r w = (res, w')" and "store_ok (w_durable w)" and "w_work w = w_durable w"
    and "row_of (w_durable w) i = Some d" and "doc_key d = (ms_sync_state_id m, ms_drive_item_id m)" and "d_classification_override d = None"
  shows "pipeline_outcome E src jc i m r w res w'"
proof -
  have raised: "pipeline_outcome E src jc i m r w res w'"
    if "attempt E src jc i m r w = (Inl e, v)" "decide E src jc m w = failure_outcome m e" "only_reads w v" for e v
  proof -
    from handled [OF raised_pipeline [OF that(1) assms(1)] _ that(3) assms(3,4)] show ?thesis
      using that(2) by (cases "failure_outcome m e") (auto simp: pipeline_outcome_def)
  qed
  obtain r1 u where f: "fetch_content_hash E src m w = (r1, u)" by fastforce
  have u: "only_reads w u" by (rule evolvesD [OF retrieval.fetch_reads f])
  show ?thesis
  proof (cases r1)
    case (Inl e)
    with f u show ?thesis by (intro raised [of e u]) (simp_all add: attempt_def bind_op_def decide_def)
  next
    case h: (Inr h)
    show ?thesis
    proof (cases "h = Some (ms_content_hash m)")
      case False
      then have "decide E src jc m w = Skip MISMATCH_REASON" using f h by (simp add: decide_def)
      with mismatch_pipeline [OF f [unfolded h] False assms(3,4,1)] show ?thesis by (simp add: pipeline_outcome_def)
    next
      case True
      obtain r2 v where dl: "download E src m u = (r2, v)" by fastforce
      have v: "only_reads w v" using u evolvesD [OF retrieval.load_reads dl] by (rule preorder_trans [OF preorder_only_reads])
      show ?thesis
      proof (cases r2)
        case (Inl e)
        with f h True dl v show ?thesis by (intro raised [of e v]) (simp_all add: attempt_def bind_op_def decide_def)
      next
        case data: (Inr data)
        show ?thesis
        proof (cases "extract_text_from_bytes (pe_libs E) data (ms_mime_type m)")
          case (Inl e)
          with f h True dl data v show ?thesis by (intro raised [of e v]) (simp_all add: attempt_def bind_op_def lift_op_def decide_def)
        next
          case t: (Inr t)
          show ?thesis
          proof (cases "jev_classify (float_repr E) jc t")
            case (Inl e)
            with f h True dl data t v show ?thesis by (intro raised [of e v]) (simp_all add: attempt_def bind_op_def lift_op_def decide_def)
          next
            case (Inr c)
            have att: "attempt E src jc i m r w = (Inr (Some c), v)" and dec: "decide E src jc m w = Classified c"
              using f h True dl data t Inr by (simp_all add: attempt_def bind_op_def lift_op_def ret_def decide_def)
            then have "record_success E i m r c v = (res, w')"
              using assms(1) unfolding pipeline_start by (simp add: catch_op_def bind_op_def)
            note run = this
            have "res = Inr ()" if "healthy E" "world_ok w"
              using returnsD [OF returns_success [OF that(1) assms(5)] present_reads [OF present_row [OF assms(4,3) that(2)] v] run] by simp
            with record_success_result [OF run _ _ _ assms(5,6)] v assms(2,3,4) dec show ?thesis
              by (auto simp: pipeline_outcome_def success_recorded_def only_reads_def same_stores_def)
          qed
        qed
      qed
    qed
  qed
qed

text \<open>The decision is a function of the point of the run.\<close>

lemma decide_tick:
  assumes "w_tick w = w_tick v"
  shows "decide E src jc m w = decide E src jc m v"
proof -
  obtain r1 u where w: "fetch_content_hash E src m w = (r1, u)" by fastforce
  obtain r1' u' where v: "fetch_content_hash E src m v = (r1', u')" by fastforce
  have f: "r1 = r1'" "w_tick u = w_tick u'" using tick_localD [OF local_fetch assms, of E src m] w v by simp_all
  obtain r2 x where dw: "download E src m u = (r2, x)" by fastforce
  obtain r2' x' where dv: "download E src m u' = (r2', x')" by fastforce
  have "r2 = r2'" using tick_localD [OF local_download f(2), of E src m] dw dv by simp
  then show ?thesis using w v f(1) dw dv by (cases r1') (simp_all add: decide_def)
qed

section \<open>One work item\<close>

definition processing_row :: "document \<Rightarrow> document" where "processing_row d = d\<lparr>d_status := Ds_processing\<rparr>"

lemma mark_result:
  assumes "then_op (set_document E i (\<lambda>x. x\<lparr>d_status := Ds_processing\<rparr>)) (commit_state E []) w = (res, u)"
    and "w_work w = w_durable w" and "row_of (w_durable w) i = Some d"
  shows "(\<exists>m. res = Inl (PersistenceError m) \<and> w_durable u = w_durable w \<and> w_work u = w_durable w \<and> w_trace u = w_trace w @ [RolledBack])
    \<or> (res = Inr () \<and> row_step i processing_row [] (w_durable w) (w_durable u) \<and> w_work u = w_durable u
        \<and> w_trace u = w_trace w @ [Committed (w_durable u)] \<and> w_tick u = w_tick w + 1)"
proof -
  let ?v = "w\<lparr>w_work := (w_work w)\<lparr>t_documents := update_where (\<lambda>d. d_id d = i)
     (touch_document (db_now E (w_txn w)) (\<lambda>x. x\<lparr>d_status := Ds_processing\<rparr>)) (t_documents (w_work w))\<rparr>\<rparr>"
  have "commit_state E [] ?v = (res, u)" using assms(1) by (simp add: then_op_def bind_op_def set_document_eq)
  moreover have "row_step i processing_row [] (w_durable w) (w_work ?v)"
    using row_step_set [OF assms(3), of "\<lambda>x. x\<lparr>d_status := Ds_processing\<rparr>"] assms(2) by (simp add: processing_row_def [abs_def])
  ultimately show ?thesis
    by (cases rule: db_call_cases [of E ?v])
      (auto simp: commit_state_def catch_op_def then_op_def bind_op_def ret_def commit_def rollback_to_persistence_def rollback_def modify_op_def throw_def)
qed

definition agrees :: "store \<Rightarrow> message \<Rightarrow> bool" where
  "agrees s m \<longleftrightarrow> (\<forall>d. row_of s (ms_document_id m) = Some d \<longrightarrow> doc_key d = (ms_sync_state_id m, ms_drive_item_id m))"

lemma document_of_message_cases:
  assumes "document_of_message E m w = (res, u)"
  obtains (raises) e where "res = Inl e" and "is_sqlalchemy_error e \<or> is_persistence_error e" and "only_reads w u"
    | (row) d where "res = Inr d" and "row_of (w_work w) (ms_document_id m) = Some d" and "d_id d = ms_document_id m" and "only_reads w u"
proof -
  have "evolves only_reads (document_of_message E m)"
    unfolding document_of_message_def by (intro evolve_intros preorder_only_reads)
  from evolvesD [OF this assms] have reads: "only_reads w u" .
  from assms [unfolded document_of_message_def] show ?thesis
  proof (cases rule: bind_op_eqE)
    case (raised e)
    with reads raises raises_onlyD [OF raises_query raised(1)] show ?thesis by blast
  next
    case (continued q v)
    show ?thesis
    proof (cases q)
      case None
      with continued reads show ?thesis by (intro raises) (auto simp: throw_def)
    next
      case (Some d)
      then have "row_of (w_work w) (ms_document_id m) = Some d"
        using one_or_none_Inr [OF continued(1)] by (simp add: row_of_def find_filter)
      with continued Some reads show ?thesis
        using find_key_Some [where key = d_id] by (intro row [of d]) (auto simp: ret_def row_of_def)
    qed
  qed
qed

lemma healthy_document:
  assumes "healthy E" and "present (ms_document_id m) k w" and "row_of (w_work w) (ms_document_id m) = Some d"
  shows "\<exists>u. document_of_message E m w = (Inr d, u)"
  using healthy_call [OF assms(1), of w] present_filter [OF assms(2,3)]
  by (simp add: document_of_message_def one_or_none_def then_op_def bind_op_def gets_op_def ret_def)

lemma missing_document:
  assumes "healthy E" and "row_of (w_work w) (ms_document_id m) = None"
  shows "\<exists>u. document_of_message E m w = (Inl (PersistenceError (missing_row_message (ms_document_id m))), u)"
proof -
  have "filter (\<lambda>d. d_id d = ms_document_id m) (t_documents (w_work w)) = []"
    using assms(2) by (auto simp: row_of_def find_None_iff filter_empty_conv)
  then show ?thesis using healthy_call [OF assms(1), of w]
    by (simp add: document_of_message_def one_or_none_def then_op_def bind_op_def gets_op_def ret_def throw_def)
qed

lemma document_of_message_tick:
  assumes "document_of_message E m w = (Inr d, u)"
  shows "w_tick u = w_tick w + 1"
  using assms unfolding document_of_message_def one_or_none_def
  by (cases rule: db_call_cases [of E w])
    (auto simp: then_op_def bind_op_def gets_op_def ret_def throw_def split: list.splits option.splits)

text \<open>The four ways a work item is dealt with.\<close>

lemma process_cases:
  assumes "process E src jc r w = (res, w')" and "world_ok w" and "w_work w = w_durable w" and "agrees (w_durable w) (rc_message r)"
  defines "i \<equiv> ms_document_id (rc_message r)"
  obtains (unread) e where "res = Inl e" and "is_sqlalchemy_error e \<or> is_persistence_error e" and "only_reads w w'"
        and "healthy E \<Longrightarrow> row_of (w_durable w) i = None"
    | (human) d where "row_of (w_durable w) i = Some d" and "d_classification_override d \<noteq> None"
        and "settles i completed_row [attempt_log i r LOG_SKIPPED OVERRIDE_REASON] w res w'" and "healthy E \<Longrightarrow> res = Inr ()"
    | (unmarked) d m where "row_of (w_durable w) i = Some d" and "d_classification_override d = None" and "res = Inl (PersistenceError m)"
        and "w_durable w' = w_durable w" and "w_trace w' = w_trace w @ [RolledBack]" and "\<not> healthy E"
    | (attempted) d u where "row_of (w_durable w) i = Some d" and "d_classification_override d = None"
        and "row_step i processing_row [] (w_durable w) (w_durable u)" and "w_work u = w_durable u"
        and "w_trace u = w_trace w @ [Committed (w_durable u)]" and "w_tick u = w_tick w + 2" and "world_ok u"
        and "pipeline_outcome E src jc i (rc_message r) r u res w'" and "run_pipeline E src jc i (rc_message r) r u = (res, w')"
proof -
  let ?m = "rc_message r"
  obtain r1 v where dm: "document_of_message E ?m w = (r1, v)" by fastforce
  from dm show ?thesis
  proof (cases rule: document_of_message_cases)
    case (raises e)
    have "row_of (w_durable w) i = None" if "healthy E"
    proof (rule ccontr)
      assume "row_of (w_durable w) i \<noteq> None"
      then obtain d where d: "row_of (w_durable w) i = Some d" by blast
      from healthy_document [OF that, of ?m "doc_key d" w d] present_row [OF d assms(3,2)] d assms(3) dm raises(1)
      show False by (simp add: i_def)
    qed
    with raises dm assms(1) show ?thesis by (intro unread [of e]) (auto simp: process_def Let_def bind_op_def)
  next
    case (row d)
    note v = only_reads_stores [OF row(4)]
    have d: "row_of (w_durable w) i = Some d" "d_id d = i" using row assms(3) by (simp_all add: i_def)
    have start: "row_step i (\<lambda>x. x) [] (w_durable v) (w_work v)" using row_step_same [OF d(1)] v assms(3) by simp
    show ?thesis
    proof (cases "d_classification_override d = None")
      case False
      then have ro: "record_override E d r v = (res, w')" using assms(1) dm row(1) by (simp add: process_def Let_def bind_op_def)
      have "res = Inr ()" if "healthy E"
        using returnsD [OF returns_override [OF that d(2)] present_reads [OF present_row [OF d(1) assms(3,2)] row(4)] ro] by simp
      moreover from record_override_result [OF ro] start d(2) have "settles i (\<lambda>d. completed_row d) [attempt_log i r LOG_SKIPPED OVERRIDE_REASON] v res w'"
        by simp
      ultimately show ?thesis using False d v by (intro human [of d]) (auto intro: settles_from)
    next
      case True
      let ?mark = "then_op (set_document E i (\<lambda>x. x\<lparr>d_status := Ds_processing\<rparr>)) (commit_state E [])"
      obtain r2 u where mk: "?mark v = (r2, u)" by fastforce
      have rest: "(case r2 of Inl e \<Rightarrow> (Inl e, u) | Inr _ \<Rightarrow> run_pipeline E src jc i ?m r u) = (res, w')"
        using assms(1) dm row(1) True mk d(2)
        by (auto simp: process_def Let_def then_op_def bind_op_def split: prod.splits sum.splits)
      have vd: "w_work v = w_durable v" "row_of (w_durable v) i = Some d" using v assms(3) d by simp_all
      from mark_result [OF mk vd] show ?thesis
      proof (elim disjE exE conjE)
        fix m assume "r2 = Inl (PersistenceError m)" "w_durable u = w_durable v" "w_trace u = w_trace v @ [RolledBack]"
        moreover have "\<not> healthy E"
        proof
          assume "healthy E"
          then have "returns (present i (doc_key d)) ?mark" by (intro return_intros) simp_all
          from returnsD [OF this present_reads [OF present_row [OF d(1) assms(3,2)] row(4)] mk] \<open>r2 = Inl (PersistenceError m)\<close>
          show False by simp
        qed
        ultimately show ?thesis using rest v d True by (intro unmarked [of d m]) auto
      next
        assume u: "r2 = Inr ()" "row_step i processing_row [] (w_durable v) (w_durable u)" "w_work u = w_durable u"
          "w_trace u = w_trace v @ [Committed (w_durable u)]" "w_tick u = w_tick v + 1"
        have run: "run_pipeline E src jc i ?m r u = (res, w')" using rest u(1) by simp
        have marking: "evolves (keeps world_ok) ?mark"
          by (intro evolve_intros preorder_keeps ok_frame.marking ok_frame.commit_state_frame) simp
        have ok: "world_ok u"
          using evolvesD [OF marking mk] ok_frame.reading [OF row(4)] assms(2) by (simp add: keeps_def)
        obtain d' where d': "row_of (w_durable u) i = Some d'" "stampless d' = stampless (processing_row d)"
          using u(2) d v by (auto simp: row_step_def)
        have "doc_key d = (ms_sync_state_id ?m, ms_drive_item_id ?m)" using assms(4) d(1) by (simp add: agrees_def i_def)
        then have f: "doc_key d' = (ms_sync_state_id ?m, ms_drive_item_id ?m)" "d_classification_override d' = None"
          using stampless_fields [OF d'(2)] True by (simp_all add: processing_row_def doc_key_def)
        have po: "pipeline_outcome E src jc i ?m r u res w'"
          using pipeline_result [OF run _ u(3) d'(1) f] ok by (simp add: world_ok_def)
        have "w_tick u = w_tick w + 2" using u(5) document_of_message_tick [OF dm [unfolded row(1)]] by simp
        with u v d True ok po run show ?thesis by (intro attempted [of d u]) auto
      qed
    qed
  qed
qed

lemma failure_recorded_raises: "failure_recorded E i r e w res w' \<Longrightarrow> \<exists>e'. res = Inl e'"
  unfolding failure_recorded_def by (metis old.sum.exhaust sum.simps(5,6))

lemma after_processing:
  assumes "row_step i processing_row [] s t" and "row_step i f ls t u"
    and "\<And>a b. stampless a = stampless (processing_row b) \<Longrightarrow> stampless (f a) = stampless (f b)"
  shows "row_step i f ls s u"
  using row_step_trans [OF assms(1,2) assms(3)] by simp

lemma row_step_cong:
  "row_step i f ls s t \<Longrightarrow> (\<And>d. stampless (f d) = stampless (g d)) \<Longrightarrow> row_step i g ls s t"
  by (simp add: row_step_def)

text \<open>The row of a classified document.\<close>

definition classified_row :: "classification \<Rightarrow> datetime \<Rightarrow> document \<Rightarrow> document" where
  "classified_row c now d = d\<lparr>d_status := Ds_completed, d_category := Some (cl_category c), d_confidence := Some (cl_confidence c),
     d_classified_by := Some ''typesafe-jev'', d_raw_response := Some (cl_raw c), d_classified_at := Some now, d_processed_at := Some now\<rparr>"

lemma excluded_classified: "stampless (excluded_onto (classification_record m c) now d) = stampless (classified_row c now d)"
  by (cases d) (simp add: stampless_def excluded_onto_def classification_record_def classified_row_def MODEL_def)

lemma status_overwritten:
  assumes "stampless a = stampless (processing_row b)"
  shows "stampless (skipped_row a) = stampless (skipped_row b)" "stampless (failed_row e a) = stampless (failed_row e b)"
    "dc_status rec = st \<Longrightarrow> stampless (excluded_onto rec now a) = stampless (excluded_onto rec now b)"
  using assms
  by (cases a; cases b; simp add: stampless_def processing_row_def skipped_row_def failed_row_def excluded_onto_def)+

lemma classified_from:
  assumes "row_step i processing_row [] s t" and "row_step i (excluded_onto (classification_record m c) now) ls t u"
  shows "row_step i (classified_row c now) ls s u"
  by (rule row_step_cong [OF after_processing [OF assms]]) (auto intro: status_overwritten(3) excluded_classified)

section \<open>Properties\<close>

text \<open>
  Claim C6. What processing a work item means. When it returns, whatever the database did on the way, the
  row existed and everything is durable: a row with a human override is marked completed and otherwise
  untouched; any other row is what the pure decision on the item says (the hash re-check, the download,
  the extraction and the classification at that point of the run): classified, with the category,
  confidence, model and raw response of the answer, or skipped. One audit row for the attempt was
  added in either case, no other row, audit entry or walk position changed, and a decision that is a
  failure never returns.
\<close>

theorem returned_item_settled:
  assumes "world_ok w" and "w_work w = w_durable w" and "agrees (w_durable w) (rc_message r)"
    and "process E src jc r w = (Inr (), w')"
  shows "w_work w' = w_durable w' \<and> (\<exists>d. row_of (w_durable w) (ms_document_id (rc_message r)) = Some d
    \<and> (if d_classification_override d \<noteq> None
       then row_step (ms_document_id (rc_message r)) (\<lambda>x. x\<lparr>d_status := Ds_completed\<rparr>)
          [attempt_log (ms_document_id (rc_message r)) r ''skipped'' ''classification_override present''] (w_durable w) (w_durable w')
       else case decide E src jc (rc_message r) (w\<lparr>w_tick := w_tick w + 2\<rparr>) of
          Classified c \<Rightarrow> \<exists>now. row_step (ms_document_id (rc_message r))
             (\<lambda>x. x\<lparr>d_status := Ds_completed, d_category := Some (cl_category c), d_confidence := Some (cl_confidence c),
                d_classified_by := Some ''typesafe-jev'', d_raw_response := Some (cl_raw c), d_classified_at := Some now, d_processed_at := Some now\<rparr>)
             [completed_log (ms_document_id (rc_message r)) r c] (w_durable w) (w_durable w')
        | Skip reason \<Rightarrow> row_step (ms_document_id (rc_message r)) (\<lambda>x. x\<lparr>d_status := Ds_skipped\<rparr>)
             [attempt_log (ms_document_id (rc_message r)) r ''skipped'' reason] (w_durable w) (w_durable w')
        | _ \<Rightarrow> False))"
  using assms(4,1,2,3)
proof (cases rule: process_cases)
  case (human d)
  from settles_returns [OF human(3)] human(1,2) show ?thesis
    by (simp add: completed_row_def [abs_def] LOG_SKIPPED_def OVERRIDE_REASON_def)
next
  case (attempted d u)
  let ?i = "ms_document_id (rc_message r)" and ?m = "rc_message r"
  have dec: "decide E src jc ?m (w\<lparr>w_tick := w_tick w + 2\<rparr>) = decide E src jc ?m u"
    by (rule decide_tick) (simp add: attempted(6))
  show ?thesis
  proof (cases "decide E src jc ?m u")
    case (Classified c)
    let ?f = "excluded_onto (classification_record ?m c)" and ?now = "db_now E (w_txn u)"
    have st: "row_step ?i (?f ?now) [completed_log ?i r c] (w_durable u) (w_durable w')" "w_work w' = w_durable w'"
      using attempted(8) Classified by (simp_all add: pipeline_outcome_def success_recorded_def Let_def)
    have "row_step ?i (classified_row c ?now) [completed_log ?i r c] (w_durable w) (w_durable w')"
      by (rule classified_from [OF attempted(3) st(1)])
    with st(2) attempted(1,2) Classified dec show ?thesis by (auto simp: classified_row_def [abs_def])
  next
    case (Skip reason)
    then have "settles ?i skipped_row [attempt_log ?i r LOG_SKIPPED reason] u (Inr ()) w'"
      using attempted(8) by (auto simp: pipeline_outcome_def skip_recorded_def skip_failed_def dest: failure_recorded_raises)
    note st = settles_returns [OF this]
    have "row_step ?i skipped_row [attempt_log ?i r LOG_SKIPPED reason] (w_durable w) (w_durable w')"
      by (rule after_processing [OF attempted(3)]) (use st status_overwritten(1) in auto)
    with st attempted(1,2) Skip dec show ?thesis by (simp add: skipped_row_def [abs_def] LOG_SKIPPED_def)
  next
    case (Fail e)
    with attempted(8) show ?thesis by (auto simp: pipeline_outcome_def dest: failure_recorded_raises)
  next
    case (Escape e)
    with attempted(8) show ?thesis by (simp add: pipeline_outcome_def)
  qed
qed simp_all

text \<open>
  Claim C8. With a database that answers, every attempt on a row without an override is recorded, and as the
  decision says: a classification and a skip return; a failure of the retrieval, the extraction or the
  classification marks the row failed with its message, counts the retry, adds the audit row and is
  raised again, the result of an earlier attempt still in place; any other exception is raised with
  the row left \<open>processing\<close> and no audit row.
\<close>

theorem attempt_recorded:
  assumes "\<forall>t. db_fault E t = None" and "world_ok w" and "w_work w = w_durable w" and "agrees (w_durable w) (rc_message r)"
    and "row_of (w_durable w) (ms_document_id (rc_message r)) = Some d" and "d_classification_override d = None"
    and "process E src jc r w = (res, w')"
  shows "case decide E src jc (rc_message r) (w\<lparr>w_tick := w_tick w + 2\<rparr>) of
      Classified c \<Rightarrow> res = Inr () \<and> (\<exists>now. row_step (ms_document_id (rc_message r)) (classified_row c now)
          [completed_log (ms_document_id (rc_message r)) r c] (w_durable w) (w_durable w'))
    | Skip reason \<Rightarrow> res = Inr () \<and> row_step (ms_document_id (rc_message r)) skipped_row
          [attempt_log (ms_document_id (rc_message r)) r ''skipped'' reason] (w_durable w) (w_durable w')
    | Fail e \<Rightarrow> res = Inl e \<and> row_step (ms_document_id (rc_message r))
          (\<lambda>x. x\<lparr>d_status := Ds_failed, d_error_message := Some (exn_str e), d_retry_count := d_retry_count x + 1\<rparr>)
          [attempt_log (ms_document_id (rc_message r)) r ''failed'' (exn_str e)] (w_durable w) (w_durable w')
    | Escape e \<Rightarrow> res = Inl e \<and> row_step (ms_document_id (rc_message r)) (\<lambda>x. x\<lparr>d_status := Ds_processing\<rparr>) [] (w_durable w) (w_durable w')"
proof -
  let ?i = "ms_document_id (rc_message r)" and ?m = "rc_message r"
  have h: "healthy E" using assms(1) by (simp add: healthy_def)
  from assms(7,2,3,4) show ?thesis
  proof (cases rule: process_cases)
    case (attempted d' u)
    note po = attempted(8) [unfolded pipeline_outcome_def]
    have dec: "decide E src jc ?m (w\<lparr>w_tick := w_tick w + 2\<rparr>) = decide E src jc ?m u"
      by (rule decide_tick) (simp add: attempted(6))
    show ?thesis
    proof (cases "decide E src jc ?m u")
      case (Classified c)
      then have res: "res = Inr ()" and so: "success_recorded E ?i ?m r c u res w'" using po h attempted(7) by auto
      let ?now = "db_now E (w_txn u)"
      have "row_step ?i (excluded_onto (classification_record ?m c) ?now) [completed_log ?i r c] (w_durable u) (w_durable w')"
        using so res by (simp add: success_recorded_def Let_def)
      then have "row_step ?i (classified_row c ?now) [completed_log ?i r c] (w_durable w) (w_durable w')"
        by (rule classified_from [OF attempted(3)])
      with Classified dec res show ?thesis by auto
    next
      case (Skip reason)
      then have res: "res = Inr ()" and so: "skip_recorded E ?i r reason u res w'"
        using po h attempted(7) by (auto simp: skip_recorded_def skip_failed_def)
      then have "row_step ?i skipped_row [attempt_log ?i r LOG_SKIPPED reason] (w_durable u) (w_durable w')"
        using settles_returns by (simp add: skip_recorded_def)
      then have "row_step ?i skipped_row [attempt_log ?i r LOG_SKIPPED reason] (w_durable w) (w_durable w')"
        by (rule after_processing [OF attempted(3)]) (rule status_overwritten(1))
      with Skip dec res show ?thesis by (simp add: LOG_SKIPPED_def)
    next
      case (Fail e)
      then have "res = Inl e" and "settles ?i (failed_row e) [attempt_log ?i r LOG_FAILED (exn_str e)] u (Inr ()) w'"
        using po h attempted(7) by (auto simp: failure_recorded_def)
      moreover from this(2) have "row_step ?i (failed_row e) [attempt_log ?i r LOG_FAILED (exn_str e)] (w_durable w) (w_durable w')"
        by (intro after_processing [OF attempted(3)] status_overwritten(2)) (use settles_returns in blast)
      ultimately show ?thesis using Fail dec by (simp add: failed_row_def [abs_def] LOG_FAILED_def)
    next
      case (Escape e)
      then show ?thesis using po dec attempted(3) by (simp add: processing_row_def [abs_def])
    qed
  qed (use h assms(5,6) in auto)
qed

lemma unstamped_single:
  "map unstamped ks = map unstamped [l] \<Longrightarrow> \<exists>k. ks = [k] \<and> pl_document_id k = pl_document_id l \<and> pl_attempt k = pl_attempt l \<and> pl_status k = pl_status l"
  by (cases ks; cases "hd ks"; cases l) (auto simp: unstamped_def)

lemma row_step_fields:
  assumes "row_step i f [l] s t" and "\<And>d. d_status (f d) = st"
  shows "\<exists>d k. row_of t i = Some d \<and> d_status d = st \<and> t_processing_log t = t_processing_log s @ [k]
    \<and> pl_document_id k = pl_document_id l \<and> pl_attempt k = pl_attempt l \<and> pl_status k = pl_status l"
proof -
  obtain d d' ks where "row_of t i = Some d'" "stampless d' = stampless (f d)" "t_processing_log t = t_processing_log s @ ks"
    "map unstamped ks = map unstamped [l]" using assms(1) unfolding row_step_def by blast
  then show ?thesis using unstamped_single stampless_fields assms(2) by metis
qed

text \<open>The shape of the run when processing returns.\<close>

lemma process_returns:
  assumes "process E src jc r w = (Inr (), w')" and "world_ok w" and "w_work w = w_durable w" and "agrees (w_durable w) (rc_message r)"
  shows "\<exists>tr d k. w_trace w' = w_trace w @ tr @ [Committed (w_durable w')]
    \<and> row_of (w_durable w') (ms_document_id (rc_message r)) = Some d \<and> d_status d \<in> {Ds_completed, Ds_skipped}
    \<and> t_processing_log (w_durable w') = t_processing_log (w_durable w) @ [k]
    \<and> pl_document_id k = ms_document_id (rc_message r) \<and> pl_attempt k = rc_dequeue_count r \<and> pl_status k \<in> {''completed'', ''skipped''}"
  using assms
proof (cases rule: process_cases)
  case (human d)
  note st = settles_returns [OF human(3)]
  then have step: "row_step (ms_document_id (rc_message r)) completed_row
      [attempt_log (ms_document_id (rc_message r)) r LOG_SKIPPED OVERRIDE_REASON] (w_durable w) (w_durable w')" by blast
  from row_step_fields [OF step, of Ds_completed] st show ?thesis
    by (fastforce simp: completed_row_def attempt_log_def new_processing_log_def LOG_SKIPPED_def)
next
  case (attempted d u)
  let ?i = "ms_document_id (rc_message r)"
  have start: "t_processing_log (w_durable u) = t_processing_log (w_durable w)" using attempted(3) by (auto simp: row_step_def)
  show ?thesis
  proof (cases "decide E src jc (rc_message r) u")
    case (Classified c)
    let ?f = "excluded_onto (classification_record (rc_message r) c) (db_now E (w_txn u))"
    have st: "row_step ?i ?f [completed_log ?i r c] (w_durable u) (w_durable w')"
      "\<exists>s. w_trace w' = w_trace u @ [Committed s, Committed (w_durable w')]"
      using attempted(8) Classified by (auto simp: pipeline_outcome_def success_recorded_def Let_def)
    have "d_status (?f x) = Ds_completed" for x by (simp add: excluded_onto_def classification_record_def)
    from row_step_fields [OF st(1) this] st(2) attempted(5) start show ?thesis
      by (fastforce simp: completed_log_def new_processing_log_def LOG_COMPLETED_def)
  next
    case (Skip reason)
    then have "settles ?i skipped_row [attempt_log ?i r LOG_SKIPPED reason] u (Inr ()) w'"
      using attempted(8) by (auto simp: pipeline_outcome_def skip_recorded_def skip_failed_def dest: failure_recorded_raises)
    note st = settles_returns [OF this]
    then have step: "row_step ?i skipped_row [attempt_log ?i r LOG_SKIPPED reason] (w_durable u) (w_durable w')" by blast
    from row_step_fields [OF step, of Ds_skipped] st attempted(5) start show ?thesis
      by (fastforce simp: skipped_row_def attempt_log_def new_processing_log_def LOG_SKIPPED_def)
  qed (use attempted(8) in \<open>auto simp: pipeline_outcome_def dest: failure_recorded_raises\<close>)
qed simp_all

lemma receive_trace:
  "receive E v w = (r, u) \<Longrightarrow> filter is_deletion (w_trace u) = filter is_deletion (w_trace w)"
  by (auto simp: receive_def next_tick_def record_event_def op_simps split: sum.splits option.splits)

lemma raising_run_deletes_nothing:
  assumes "run_once E src jc w = (Inl e, w')"
  shows "filter is_deletion (w_trace w') = filter is_deletion (w_trace w)"
  using assms unfolding run_once_def
proof (cases rule: bind_op_eqE)
  case (raised x)
  then show ?thesis using receive_trace by blast
next
  case (continued received u)
  then obtain r where run: "then_op (process E src jc r) (delete E r) u = (Inl e, w')"
    by (cases received) (auto simp: ret_def)
  have u: "filter is_deletion (w_trace u) = filter is_deletion (w_trace w)" by (rule receive_trace [OF continued(1)])
  from run [unfolded then_op_def] show ?thesis
  proof (cases rule: bind_op_eqE)
    case (raised x)
    from evolvesD [OF quiet_frame.process_frame raised(1)] u show ?thesis by (simp add: adds_none_def)
  next
    case (continued x v)
    from continued(2) have "w_trace w' = w_trace v"
      by (auto simp: delete_def next_tick_def record_event_def op_simps split: option.splits)
    with evolvesD [OF quiet_frame.process_frame continued(1)] u show ?thesis by (simp add: adds_none_def)
  qed
qed

text \<open>
  Claim C7. A message leaves the queue only once its outcome is durable. A run that was handed an item and
  returns has, at its end, committed the row as completed or skipped together with exactly one audit
  row for this attempt, and deleted the message right after that commit, the only deletion of the
  run. A run that raises has deleted nothing, so the item is delivered again.
\<close>

theorem deleted_after_commit:
  assumes "world_ok w" and "w_work w = w_durable w" and "receive E None w = (Inr (Some r), u)"
    and "agrees (w_durable w) (rc_message r)" and "run_once E src jc w = (res, w')"
  shows "case res of
      Inl e \<Rightarrow> filter is_deletion (w_trace w') = filter is_deletion (w_trace w)
    | Inr _ \<Rightarrow> \<exists>tr d k. w_trace w' = w_trace w @ Received (rc_message_id r) # tr
          @ [Committed (w_durable w'), Deleted (rc_message_id r) (rc_pop_receipt r)]
        \<and> filter is_deletion tr = []
        \<and> row_of (w_durable w') (ms_document_id (rc_message r)) = Some d \<and> d_status d \<in> {Ds_completed, Ds_skipped}
        \<and> t_processing_log (w_durable w') = t_processing_log (w_durable w) @ [k]
        \<and> pl_document_id k = ms_document_id (rc_message r) \<and> pl_attempt k = rc_dequeue_count r \<and> pl_status k \<in> {''completed'', ''skipped''}"
proof -
  have u: "w_trace u = w_trace w @ [Received (rc_message_id r)]"
    using assms(3) by (auto simp: receive_def next_tick_def record_event_def op_simps split: sum.splits option.splits)
  have su: "same_stores w u" by (rule evolvesD [OF receive_same_stores assms(3)])
  then have start: "world_ok u" "w_work u = w_durable u" "agrees (w_durable u) (rc_message r)" "w_durable u = w_durable w"
    using assms(1,2,4) world_ok_same [of u w] by (auto simp: same_stores_def)
  obtain r1 v where pr: "process E src jc r u = (r1, v)" by fastforce
  have quiet: "filter is_deletion (w_trace v) = filter is_deletion (w_trace u)"
    using evolvesD [OF quiet_frame.process_frame pr] by (simp add: adds_none_def)
  have run: "then_op (process E src jc r) (delete E r) u = (res, w')"
    using assms(3,5) by (simp add: run_once_def run_bind_Inr)
  show ?thesis
  proof (cases r1)
    case (Inl e)
    with run pr have "res = Inl e" "w' = v" by (simp_all add: run_simps)
    with quiet u show ?thesis by simp
  next
    case (Inr x)
    with run pr have del: "delete E r v = (res, w')" by (simp add: run_simps)
    show ?thesis
    proof (cases res)
      case (Inl e)
      with del have "w_trace w' = w_trace v"
        by (auto simp: delete_def next_tick_def record_event_def op_simps split: option.splits)
      with Inl quiet u show ?thesis by simp
    next
      case (Inr y)
      with del have w': "w_trace w' = w_trace v @ [Deleted (rc_message_id r) (rc_pop_receipt r)]"
        by (auto simp: delete_def next_tick_def record_event_def op_simps split: option.splits)
      have d: "w_durable w' = w_durable v" using evolvesD [OF delete_same_stores del] by (simp add: same_stores_def)
      from process_returns [OF _ start(1-3)] pr \<open>r1 = Inr x\<close> obtain tr d k where
        p: "w_trace v = w_trace u @ tr @ [Committed (w_durable v)]"
        "row_of (w_durable v) (ms_document_id (rc_message r)) = Some d" "d_status d \<in> {Ds_completed, Ds_skipped}"
        "t_processing_log (w_durable v) = t_processing_log (w_durable u) @ [k]"
        "pl_document_id k = ms_document_id (rc_message r)" "pl_attempt k = rc_dequeue_count r" "pl_status k \<in> {''completed'', ''skipped''}"
        by fastforce
      then have "filter is_deletion tr = []" using quiet by simp
      with p u w' d start(4) Inr show ?thesis by auto
    qed
  qed
qed

lemma raised_states:
  assumes "world_ok w" and "w_work w = w_durable w" and "agrees (w_durable w) (rc_message r)"
    and "process E src jc r w = (Inl e, w')" and i: "i = ms_document_id (rc_message r)"
  shows "w_durable w' = w_durable w
    \<or> row_step i processing_row [] (w_durable w) (w_durable w')
    \<or> row_step i completed_row [attempt_log i r ''skipped'' ''classification_override present''] (w_durable w) (w_durable w')
    \<or> (\<exists>reason. row_step i skipped_row [attempt_log i r ''skipped'' reason] (w_durable w) (w_durable w'))
    \<or> (\<exists>x. row_step i (failed_row x) [attempt_log i r ''failed'' (exn_str x)] (w_durable w) (w_durable w'))
    \<or> (\<exists>c now. row_step i (classified_row c now) [] (w_durable w) (w_durable w')
         \<or> row_step i (classified_row c now) [completed_log i r c] (w_durable w) (w_durable w'))"
  using assms(4,1-3)
proof (cases rule: process_cases)
  case (unread x)
  then show ?thesis using only_reads_stores [of w w'] by simp
next
  case (human d)
  then show ?thesis by (auto simp: settles_def i LOG_SKIPPED_def OVERRIDE_REASON_def)
next
  case (attempted d u)
  let ?m = "rc_message r"
  note step = attempted(3) [folded i]
  have settled: "w_durable w' = w_durable u \<or> row_step i f ls (w_durable w) (w_durable w')"
    if "settles i f ls x res' w'" "w_durable x = w_durable u"
      "\<And>a b. stampless a = stampless (processing_row b) \<Longrightarrow> stampless (f a) = stampless (f b)" for f ls x res'
    using that after_processing [OF step _ that(3)] by (auto simp: settles_def)
  have failed: "w_durable w' = w_durable u \<or> row_step i (failed_row x) [attempt_log i r ''failed'' (exn_str x)] (w_durable w) (w_durable w')"
    if "failure_recorded E i r x v (Inl e) w'" "w_durable v = w_durable u" for x v
    using that settled [where f = "failed_row x" and x = v, OF _ that(2) status_overwritten(2)]
    unfolding failure_recorded_def LOG_FAILED_def by blast
  note po = attempted(8) [folded i, unfolded pipeline_outcome_def]
  show ?thesis
  proof (cases "decide E src jc ?m u")
    case (Classified c)
    let ?now = "db_now E (w_txn u)"
    have lift: "row_step i (classified_row c ?now) ls (w_durable w) (w_durable w')"
      if "row_step i (excluded_onto (classification_record ?m c) ?now) ls (w_durable u) (w_durable w')" for ls
      by (rule classified_from [OF step that])
    let ?f = "excluded_onto (classification_record ?m c) ?now"
    from po Classified have "success_recorded E i ?m r c u (Inl e) w'" by simp
    then have "w_durable w' = w_durable u \<or> row_step i ?f [] (w_durable u) (w_durable w')
        \<or> row_step i ?f [completed_log i r c] (w_durable u) (w_durable w')"
      unfolding success_recorded_def Let_def by blast
    then show ?thesis using lift [of "[]"] lift [of "[completed_log i r c]"] step by metis
  next
    case (Skip reason)
    with po consider "skip_recorded E i r reason u (Inl e) w'" | "skip_failed E i r u (Inl e) w'" by auto
    then show ?thesis
    proof cases
      case 1
      then have "settles i skipped_row [attempt_log i r ''skipped'' reason] u (Inl e) w'" by (simp add: skip_recorded_def LOG_SKIPPED_def)
      from settled [OF this refl status_overwritten(1)] step show ?thesis by auto
    next
      case 2
      then show ?thesis using failed step unfolding skip_failed_def by metis
    qed
  next
    case (Fail x)
    with po failed [of x u] step show ?thesis by auto
  next
    case (Escape x)
    with po step show ?thesis by simp
  qed
qed auto

text \<open>
  Claim C11. What a failed attempt leaves behind. Whatever raised, the durable store is as it was, or the row of
  the item alone went one step: marked processing; completed for its override, skipped or failed, each with
  its audit row; or classified, with or without its audit row, since the result and the audit row
  are two transactions. The same holds when only the last log line of an item that was settled raised.
\<close>

theorem raised_item_states:
  assumes "world_ok w" and "w_work w = w_durable w" and "agrees (w_durable w) (rc_message r)"
    and "process E src jc r w = (Inl e, w')" and i: "i = ms_document_id (rc_message r)"
  shows "w_durable w' = w_durable w
    \<or> row_step i (\<lambda>d. d\<lparr>d_status := Ds_processing\<rparr>) [] (w_durable w) (w_durable w')
    \<or> row_step i (\<lambda>d. d\<lparr>d_status := Ds_completed\<rparr>) [attempt_log i r ''skipped'' ''classification_override present''] (w_durable w) (w_durable w')
    \<or> (\<exists>reason. row_step i (\<lambda>d. d\<lparr>d_status := Ds_skipped\<rparr>) [attempt_log i r ''skipped'' reason] (w_durable w) (w_durable w'))
    \<or> (\<exists>x. row_step i (\<lambda>d. d\<lparr>d_status := Ds_failed, d_error_message := Some (exn_str x), d_retry_count := d_retry_count d + 1\<rparr>)
          [attempt_log i r ''failed'' (exn_str x)] (w_durable w) (w_durable w'))
    \<or> (\<exists>c now. row_step i (classified_row c now) [] (w_durable w) (w_durable w')
         \<or> row_step i (classified_row c now) [completed_log i r c] (w_durable w) (w_durable w'))"
  using raised_states [OF assms] by (simp only: processing_row_def [abs_def] completed_row_def [abs_def] skipped_row_def [abs_def] failed_row_def [abs_def])

text \<open>
  What a whole run never does, whatever the database, the queue, the service and the
  classifier answer and wherever it fails: a row with a human override keeps its category, confidence,
  model, raw response and times, no override and no row is lost, the audit trail only grows, and the
  schema's constraints hold.
\<close>

lemma run_keeps_human_labels:
  assumes "world_ok w" and "w_work w = w_durable w" and "w' = snd (with_session (run_once E src jc) w)"
  shows "world_ok w' \<and> (\<exists>ls. t_processing_log (w_durable w') = t_processing_log (w_durable w) @ ls)
    \<and> (\<forall>d \<in> set (t_documents (w_durable w)). \<exists>d' \<in> set (t_documents (w_durable w')).
        d_id d' = d_id d \<and> doc_key d' = doc_key d \<and> d_classification_override d' = d_classification_override d
        \<and> (d_classification_override d \<noteq> None \<longrightarrow> d_category d' = d_category d \<and> d_confidence d' = d_confidence d
             \<and> d_classified_by d' = d_classified_by d \<and> d_raw_response d' = d_raw_response d
             \<and> d_classified_at d' = d_classified_at d \<and> d_processed_at d' = d_processed_at d))"
proof -
  have human: "docs_keep human_view (w_durable w) (w_durable w')"
    unfolding assms(3) using keep.session_outcome [OF human_frame.run_once_frame assms(2)]
    by (simp add: snd_with_session rollback_def modify_op_def)
  have audit: "audit_grows (w_durable w) (w_durable w')"
    unfolding assms(3) using audit.session_outcome [OF audit_frame.run_once_frame assms(2)]
    by (simp add: snd_with_session rollback_def modify_op_def)
  have "world_ok w'" using ok_session [OF ok_frame.run_once_frame] assms(1,3) by (auto simp: evolves_def keeps_def)
  moreover have "\<exists>d' \<in> set (t_documents (w_durable w')). d_id d' = d_id d \<and> doc_key d' = doc_key d \<and> human_view d' = human_view d"
    if "d \<in> set (t_documents (w_durable w))" for d
    using human that by (simp add: docs_keep_def)
  ultimately show ?thesis using audit unfolding audit_grows_def human_view_def by fastforce
qed

text \<open>A run that returns found the queue empty, or ended by deleting the item it was handed.\<close>

lemma returning_run:
  assumes "world_ok w" and "w_work w = w_durable w" and "\<forall>c m. m_validate E c = Inr m \<longrightarrow> agrees (w_durable w) m"
    and "run_once E src jc w = (Inr x, w')"
  shows "w_trace w' = w_trace w \<or> (\<exists>i tr p. w_trace w' = w_trace w @ Received i # tr @ [Deleted i p])"
  using assms(4) unfolding run_once_def
proof (cases rule: bind_op_eqE)
  case (continued received u)
  show ?thesis
  proof (cases received)
    case None
    with continued have "w_trace w' = w_trace w"
      by (auto simp: ret_def receive_def next_tick_def record_event_def op_simps split: sum.splits option.splits)
    then show ?thesis ..
  next
    case (Some r)
    with continued have rc: "receive E None w = (Inr (Some r), u)" and run: "then_op (process E src jc r) (delete E r) u = (Inr x, w')"
      by simp_all
    have tr: "w_trace u = w_trace w @ [Received (rc_message_id r)]" and "\<exists>c. m_validate E c = Inr (rc_message r)"
      using rc by (auto simp: receive_def next_tick_def record_event_def op_simps split: sum.splits option.splits)
    then have ag: "agrees (w_durable w) (rc_message r)" using assms(3) by blast
    have "same_stores w u" by (rule evolvesD [OF receive_same_stores rc])
    then have start: "world_ok u" "w_work u = w_durable u" "agrees (w_durable u) (rc_message r)"
      using assms(1,2) ag world_ok_same [of u w] by (auto simp: same_stores_def)
    from run [unfolded then_op_def] obtain v where pr: "process E src jc r u = (Inr (), v)" and del: "delete E r v = (Inr x, w')"
      by (auto elim!: bind_op_eqE)
    from del have "w_trace w' = w_trace v @ [Deleted (rc_message_id r) (rc_pop_receipt r)]"
      by (auto simp: delete_def next_tick_def record_event_def op_simps split: option.splits)
    with process_returns [OF pr start] tr show ?thesis by auto
  qed
qed simp

section \<open>The exceptions of a run\<close>

fun is_recording_error :: "exn \<Rightarrow> bool" where
  "is_recording_error (PersistenceError _) = True"
| "is_recording_error (SQLAlchemyError _) = True"
| "is_recording_error _ = False"

lemma recording_errors: "is_sqlalchemy_error e \<Longrightarrow> is_recording_error e" "is_persistence_error e \<Longrightarrow> is_recording_error e"
  by (cases e; simp)+

lemma recording_failures [raise_intros]:
  "raises_only is_recording_error (set_document E i f)"
  "raises_only is_recording_error (load_document E i)"
  "raises_only is_recording_error (commit_state E ls)"
  "raises_only is_recording_error (db_write E rec)"
proof -
  show "raises_only is_recording_error (set_document E i f)" by (simp add: raises_only_def set_document_eq)
  show "raises_only is_recording_error (load_document E i)"
    unfolding load_document_def by (rule raises_mono [OF raises_load recording_errors(1)])
  show "raises_only is_recording_error (commit_state E ls)"
    unfolding raises_only_def by (auto elim!: commit_state_cases)
  show "raises_only is_recording_error (db_write E rec)"
    unfolding raises_only_def by (auto elim!: db_write_cases)
qed

lemma outcome_failures [raise_intros]:
  "raises_only is_recording_error (record_success E i m r c)"
  "raises_only is_recording_error (record_override E d r)"
  "raises_only is_recording_error (record_skipped E i r reason)"
  "raises_only is_recording_error (record_failure E i r err)"
  unfolding record_success_def record_override_def record_skipped_def record_failure_def log_document_def
  by (intro raise_intros)+

definition boundary_ok :: "'z process_env_scheme \<Rightarrow> jev_classifier \<Rightarrow> bool" where
  "boundary_ok E jc \<longleftrightarrow> queue_ok E \<and> content_ok E \<and> libs_ok (pe_libs E) \<and> jev_client_ok jc"

text \<open>A read of a DOCX document that the extractor does not guard.\<close>

definition docx_raises :: "libs \<Rightarrow> exn \<Rightarrow> bool" where
  "docx_raises L e \<longleftrightarrow> (\<exists>data d. docx_parse L data = Inr d \<and> docx_lines d = Inl e)"

definition is_run_error :: "libs \<Rightarrow> exn \<Rightarrow> bool" where
  "is_run_error L e \<longleftrightarrow> is_sqlalchemy_error e \<or> is_app_error e \<or> docx_raises L e"

lemma run_errors:
  "is_recording_error e \<Longrightarrow> is_run_error L e" "is_retrieval_error e \<Longrightarrow> is_run_error L e" "is_queue_error e \<Longrightarrow> is_run_error L e"
  "is_extraction_error e \<or> docx_raises L e \<Longrightarrow> is_run_error L e" "is_classification_error e \<Longrightarrow> is_run_error L e"
  "is_attempt_failure e \<Longrightarrow> is_run_error L e"
  by (cases e; auto simp: is_run_error_def)+

lemma extraction_raises:
  assumes "libs_ok L" and "extract_text_from_bytes L data mime = Inl e"
  shows "is_extraction_error e \<or> docx_raises L e"
  using extract_from_bytes_outcome [OF assms(1), where data = data and mime = mime] assms(2)
  by (cases e) (auto simp: docx_raises_def unguarded_read_def split: if_splits)

lemma raises_if: "raises_only X m \<Longrightarrow> raises_only X n \<Longrightarrow> raises_only X (if b then m else n)"
  by simp

lemma raises_recording: "raises_only is_recording_error m \<Longrightarrow> raises_only (is_run_error L) m"
  by (rule raises_mono [OF _ run_errors(1)])

lemma attempt_raises:
  assumes "boundary_ok E jc"
  shows "raises_only (is_run_error (pe_libs E)) (attempt E src jc i m r)"
proof -
  have ok: "content_ok E" "libs_ok (pe_libs E)" "jev_client_ok jc" using assms by (simp_all add: boundary_ok_def)
  show ?thesis unfolding attempt_def
    by (intro raises_bind raises_then raises_if raises_ret raises_lift raises_mono [OF retrieval.fetch_failures run_errors(2)]
        raises_mono [OF retrieval.load_failures run_errors(2)] raises_recording outcome_failures ok
        run_errors(4) [OF extraction_raises [OF ok(2)]] run_errors(5) [OF jev.failure [OF ok(3)]])
qed

lemma pipeline_raises:
  assumes "boundary_ok E jc"
  shows "raises_only (is_run_error (pe_libs E)) (run_pipeline E src jc i m r)"
proof -
  have last: "raises_only (is_run_error (pe_libs E)) (case c of None \<Rightarrow> ret () | Some x \<Rightarrow> record_success E i m r x)" for c
    by (cases c) (auto intro: raises_ret raises_recording outcome_failures)
  show ?thesis unfolding run_pipeline_def
    by (intro raises_bind [OF _ last] raises_catch [OF attempt_raises [OF assms]] raises_if raises_then raises_ret raises_throw
        raises_recording outcome_failures)
qed

lemma process_raises:
  assumes "boundary_ok E jc"
  shows "raises_only (is_run_error (pe_libs E)) (process E src jc r)"
proof -
  have "raises_only is_recording_error (document_of_message E m)" for m
    unfolding raises_only_def by (auto elim!: document_of_message_cases intro: recording_errors)
  then show ?thesis unfolding process_def Let_def
    by (intro raises_bind raises_if raises_then raises_recording [OF outcome_failures(2)] raises_recording [OF recording_failures(1)]
        raises_recording [OF recording_failures(3)] pipeline_raises [OF assms]) (rule raises_recording)
qed

text \<open>Under a database that never faults, the recordings return and only the attempt's own failures remain.\<close>

lemma decide_failures:
  assumes "boundary_ok E jc"
  shows "decide E src jc m w = Escape e \<Longrightarrow> docx_raises (pe_libs E) e" and "decide E src jc m w = Fail e \<Longrightarrow> is_app_error e"
proof -
  have ok: "content_ok E" "libs_ok (pe_libs E)" "jev_client_ok jc" using assms by (simp_all add: boundary_ok_def)
  have cls: "is_attempt_failure x \<and> is_app_error x" if "is_retrieval_error x \<or> is_extraction_error x \<or> is_classification_error x" for x
    using that by (cases x) simp_all
  have att: "is_attempt_failure x \<Longrightarrow> is_app_error x" for x by (cases x) simp_all
  define good where "good r \<longleftrightarrow> (r = Escape e \<longrightarrow> docx_raises (pe_libs E) e) \<and> (r = Fail e \<longrightarrow> is_app_error e)" for r
  have out: "good (failure_outcome m x)"
    if "is_retrieval_error x \<or> is_extraction_error x \<or> is_classification_error x \<or> docx_raises (pe_libs E) x" for x
    using cls [of x] att [of x] that by (auto simp: failure_outcome_def good_def)
  have "good (Skip y)" "good (Classified c)" for y c by (simp_all add: good_def)
  moreover have "good (failure_outcome m x)" if "extract_text_from_bytes (pe_libs E) data mime = Inl x" for x data mime
    using out extraction_raises [OF ok(2) that] by blast
  ultimately have "good (decide E src jc m w)"
    unfolding decide_def
    using out raises_onlyD [OF retrieval.fetch_failures [OF ok(1)], of src m w] raises_onlyD [OF retrieval.load_failures [OF ok(1)], of src m]
      jev.failure [OF ok(3)]
    by (auto split: prod.split sum.split)
  then show "decide E src jc m w = Escape e \<Longrightarrow> docx_raises (pe_libs E) e" and "decide E src jc m w = Fail e \<Longrightarrow> is_app_error e"
    by (simp_all add: good_def)
qed

lemma healthy_process_raises:
  assumes "boundary_ok E jc" and "healthy E" and "world_ok w" and "w_work w = w_durable w" and "agrees (w_durable w) (rc_message r)"
    and "process E src jc r w = (Inl e, w')"
  shows "is_app_error e \<or> docx_raises (pe_libs E) e"
  using assms(6,3-5)
proof (cases rule: process_cases)
  case (unread x)
  then have "row_of (w_work w) (ms_document_id (rc_message r)) = None" using assms(2,4) by simp
  from missing_document [OF assms(2) this] assms(6) show ?thesis by (auto simp: process_def Let_def bind_op_def)
next
  case (attempted d u)
  have po: "pipeline_outcome E src jc (ms_document_id (rc_message r)) (rc_message r) r u (Inl e) w'" by (rule attempted(8))
  have w: "healthy E \<and> world_ok u" using assms(2) attempted(7) by simp
  show ?thesis
  proof (cases "decide E src jc (rc_message r) u")
    case (Fail x)
    with po w have "e = x" by (auto simp: pipeline_outcome_def failure_recorded_def)
    with decide_failures(2) [OF assms(1) Fail] show ?thesis by simp
  next
    case (Escape x)
    with po have "e = x" by (simp add: pipeline_outcome_def)
    with decide_failures(1) [OF assms(1) Escape] show ?thesis by simp
  qed (use po w in \<open>auto simp: pipeline_outcome_def skip_recorded_def skip_failed_def\<close>)
qed (use assms(2) in auto)

text \<open>
  Everything a run raises is an \<^verbatim>\<open>AppError\<close>, what an unguarded read of a DOCX document raises, or a raw driver
  error, and that one only when the database faults: most reads of a row are not wrapped.
\<close>

lemma run_failures:
  assumes "queue_ok E" and "content_ok E" and "libs_ok (pe_libs E)" and "jev_client_ok jc"
    and "world_ok w" and "w_work w = w_durable w" and "\<forall>c m. m_validate E c = Inr m \<longrightarrow> agrees (w_durable w) m"
    and "run_once E src jc w = (Inl e, w')"
  shows "is_app_error e \<or> docx_raises (pe_libs E) e \<or> (is_sqlalchemy_error e \<and> (\<exists>t. db_fault E t \<noteq> None))"
proof -
  have ok: "boundary_ok E jc" using assms(1-4) by (simp add: boundary_ok_def)
  have q: "is_queue_error x \<Longrightarrow> is_app_error x" for x by (cases x) simp_all
  from assms(8) [unfolded run_once_def] show ?thesis
  proof (cases rule: bind_op_eqE)
    case (raised x)
    with raises_onlyD [OF receive_failures [OF assms(1)] raised(1)] q show ?thesis by simp
  next
    case (continued received u)
    then obtain r where r: "received = Some r" by (cases received) (auto simp: ret_def)
    with continued have rc: "receive E None w = (Inr (Some r), u)" and run: "then_op (process E src jc r) (delete E r) u = (Inl e, w')"
      by simp_all
    have "\<exists>c. m_validate E c = Inr (rc_message r)"
      using rc by (auto simp: receive_def next_tick_def record_event_def op_simps split: sum.splits option.splits)
    then have ag: "agrees (w_durable w) (rc_message r)" using assms(7) by blast
    have "same_stores w u" by (rule evolvesD [OF receive_same_stores rc])
    then have start: "world_ok u" "w_work u = w_durable u" "agrees (w_durable u) (rc_message r)"
      using assms(5,6) ag world_ok_same [of u w] by (auto simp: same_stores_def)
    from run [unfolded then_op_def] show ?thesis
    proof (cases rule: bind_op_eqE)
      case (raised x)
      then have pr: "process E src jc r u = (Inl e, w')" by simp
      show ?thesis
      proof (cases "healthy E")
        case True
        with healthy_process_raises [OF ok True start pr] show ?thesis by blast
      next
        case False
        moreover have "is_run_error (pe_libs E) e" by (rule raises_onlyD [OF process_raises [OF ok] pr])
        ultimately show ?thesis by (auto simp: is_run_error_def healthy_def)
      qed
    next
      case (continued x v)
      with raises_onlyD [OF delete_failures [OF assms(1)] continued(2)] q show ?thesis by simp
    qed
  qed
qed

section \<open>Instances\<close>

definition proc_item :: received_message where
  "proc_item = \<lparr>rc_message = sample_message\<lparr>ms_content_hash := hash_bytes [104, 105]\<rparr>, rc_message_id = ''m1'',
     rc_pop_receipt = ''p1'', rc_dequeue_count = 1\<rparr>"

definition proc_env :: process_env where
  "proc_env = content_env.extend (sample_content_env\<lparr>q_delete := (\<lambda>_ _ _. None), m_validate := (\<lambda>_. Inr (rc_message proc_item))\<rparr>)
     \<lparr>pe_libs = sample_libs\<rparr>"

definition proc_source :: content_source where
  "proc_source = FilesystemContentSource (parse_path ''/data'')"

definition proc_classifier :: jev_classifier where
  "proc_classifier = \<lparr>jc_client = (\<lambda>_ _. Inr \<lparr>jr_choice = ''Invoice'', jr_probabilities = [(''Invoice'', Fin (3/4))], jr_raw = []\<rparr>),
     jc_options = [''Invoice'', ''unknown''], jc_criteria = [], jc_max_input_chars = 100\<rparr>"

definition proc_store :: "string option \<Rightarrow> store" where
  "proc_store override = \<lparr>t_sync_state = [(new_sync_state ''filesystem:/data'')\<lparr>ss_id := 1\<rparr>],
     t_documents = [(new_document 1 ''a.txt'')\<lparr>d_id := 1, d_classification_override := override\<rparr>], t_processing_log = []\<rparr>"

definition proc_world :: "string option \<Rightarrow> world" where
  "proc_world override = empty_world\<lparr>w_durable := proc_store override, w_work := proc_store override, w_next_sync := 2, w_next_doc := 2\<rparr>"

lemma proc_documents: "t_documents (w_durable (proc_world v)) = [(new_document 1 ''a.txt'')\<lparr>d_id := 1, d_classification_override := v\<rparr>]"
  by (simp add: proc_world_def proc_store_def)

lemma proc_world_ok: "world_ok (proc_world v)"
  by (simp add: proc_world_def proc_store_def empty_world_def world_ok_def store_ok_def below_sequences_def
      new_sync_state_def new_document_def doc_key_def)

lemma proc_clean: "w_work (proc_world v) = w_durable (proc_world v)"
  by (simp add: proc_world_def)

lemma proc_row: "row_of (w_durable (proc_world v)) 1 = Some ((new_document 1 ''a.txt'')\<lparr>d_id := 1, d_classification_override := v\<rparr>)"
  by (simp add: proc_world_def proc_store_def row_of_def)

lemma proc_agrees: "agrees (w_durable (proc_world v)) (rc_message proc_item)"
  by (simp add: agrees_def proc_world_def proc_store_def row_of_def proc_item_def sample_message_def doc_key_def new_document_def)

lemma proc_download:
  "fs_download proc_env (parse_path ''/data'') (rc_message proc_item) w = (Inr [104, 105], w\<lparr>w_tick := Suc (w_tick w)\<rparr>)"
proof -
  have p: "path_join (parse_path ''/data'') (parse_path ''a.txt'') = parse_path ''/data/a.txt''"
    "\<not> is_absolute (parse_path ''a.txt'')" "in_parents (parse_path ''/data'') (parse_path ''/data/a.txt'')"
    by (simp_all add: path_eval text_eval in_parents_def)
  show ?thesis
    by (simp add: fs_download_def next_tick_def op_simps resolve_locator_def Let_def p proc_env_def content_env.defs content_env_eval
        sample_files_def proc_item_def sample_message_def)
qed

lemma proc_extracts: "extract_text_from_bytes sample_libs [104, 105] ''text/plain'' = Inr [104, 105]"
  by (simp add: extract_text_from_bytes_def suffix_for_mime_def normalized_mime_def MIME_TO_SUFFIX_def SUFFIX_TO_MIME_def
      EXTRACTORS_def plain_extract_def utf8_sig_decode_def utf8_decode_def decode_nats.simps bom_def text_eval Let_def)

lemma proc_classifies: "jev_classify fr proc_classifier [104, 105] = Inr \<lparr>cl_category = ''Invoice'', cl_confidence = Fin (3/4), cl_raw = []\<rparr>"
  by (simp add: jev_classify_def proc_classifier_def less_eq_pyfloat_def)

lemma proc_decides: "decide proc_env proc_source proc_classifier (rc_message proc_item) w
    = Classified \<lparr>cl_category = ''Invoice'', cl_confidence = Fin (3/4), cl_raw = []\<rparr>"
proof -
  have "pe_libs proc_env = sample_libs" by (simp add: proc_env_def content_env.defs)
  moreover have "ms_mime_type (rc_message proc_item) = ''text/plain''" "ms_content_hash (rc_message proc_item) = hash_bytes [104, 105]"
    by (simp_all add: proc_item_def sample_message_def)
  ultimately show ?thesis
    using proc_download proc_extracts proc_classifies
    by (simp add: decide_def proc_source_def fs_fetch_content_hash_def bind_op_def ret_def)
qed

lemma proc_healthy: "healthy proc_env" "\<forall>t. db_fault proc_env t = None"
  by (simp_all add: healthy_def proc_env_def content_env.defs content_env_eval)

lemma proc_id: "ms_document_id (rc_message proc_item) = 1"
  by (simp add: proc_item_def sample_message_def)

lemma proc_returns:
  assumes "process proc_env proc_source proc_classifier proc_item w = (res, w')" and "world_ok w" and "w_work w = w_durable w"
    and "w_durable w = w_durable (proc_world None)"
  shows "res = Inr ()"
proof -
  have "agrees (w_durable w) (rc_message proc_item)" using proc_agrees assms(4) by simp
  from assms(1-3) this show ?thesis
  proof (cases rule: process_cases)
    case (attempted d u)
    then show ?thesis using proc_healthy by (simp add: pipeline_outcome_def proc_decides)
  qed (simp_all add: proc_healthy proc_row proc_id new_document_def assms(4))
qed

lemma proc_receives:
  "receive proc_env None w = (Inr (Some proc_item), w\<lparr>w_tick := Suc (w_tick w), w_trace := w_trace w @ [Received ''m1'']\<rparr>)"
  by (simp add: receive_def next_tick_def record_event_def op_simps proc_env_def content_env.defs content_env_eval proc_item_def)

lemma proc_run_returns: "\<exists>w'. run_once proc_env proc_source proc_classifier (proc_world None) = (Inr (), w')"
proof -
  let ?w = "proc_world None"
  let ?u = "?w\<lparr>w_tick := Suc (w_tick ?w), w_trace := w_trace ?w @ [Received ''m1'']\<rparr>"
  obtain res v where pr: "process proc_env proc_source proc_classifier proc_item ?u = (res, v)" by fastforce
  have ok: "world_ok ?u" "w_work ?u = w_durable ?u" using proc_world_ok [of None] proc_clean [of None] by (auto intro: world_ok_same)
  have res: "res = Inr ()" by (rule proc_returns [OF pr ok]) simp
  have "q_delete proc_env t i p = None" for t i p
    by (simp add: proc_env_def content_env.defs content_env_eval)
  then have "\<exists>w'. delete proc_env proc_item v = (Inr (), w')"
    by (simp add: delete_def next_tick_def record_event_def op_simps)
  then show ?thesis
    using pr res by (simp add: run_once_def run_bind_Inr [OF proc_receives] run_then_Inr)
qed

theorem deleted_after_commit_witness:
  "\<exists>w' tr. run_once proc_env proc_source proc_classifier (proc_world None) = (Inr (), w')
     \<and> w_trace w' = Received ''m1'' # tr @ [Committed (w_durable w'), Deleted ''m1'' ''p1''] \<and> filter is_deletion tr = []"
proof -
  obtain w' where run: "run_once proc_env proc_source proc_classifier (proc_world None) = (Inr (), w')" using proc_run_returns by blast
  have ids: "rc_message_id proc_item = ''m1''" "rc_pop_receipt proc_item = ''p1''" "w_trace (proc_world None) = []"
    by (simp_all add: proc_item_def proc_world_def empty_world_def)
  from deleted_after_commit [OF proc_world_ok proc_clean proc_receives proc_agrees run] run ids show ?thesis by auto
qed

lemma run_keeps_human_labels_example:
  "\<exists>d' \<in> set (t_documents (w_durable (snd (with_session (run_once proc_env proc_source proc_classifier) (proc_world (Some ''Contract'')))))).
     d_id d' = 1 \<and> d_classification_override d' = Some ''Contract'' \<and> d_category d' = None"
proof -
  let ?w' = "snd (with_session (run_once proc_env proc_source proc_classifier) (proc_world (Some ''Contract'')))"
  from run_keeps_human_labels [OF proc_world_ok proc_clean, where w' = ?w'] proc_documents [of "Some ''Contract''"]
  show ?thesis by (fastforce simp: new_document_def)
qed

theorem returned_item_settled_witness:
  "\<exists>w' d. process proc_env proc_source proc_classifier proc_item (proc_world None) = (Inr (), w')
     \<and> row_of (w_durable w') 1 = Some d \<and> d_category d = Some ''Invoice'' \<and> d_status d = Ds_completed"
proof -
  obtain res w' where run: "process proc_env proc_source proc_classifier proc_item (proc_world None) = (res, w')" by fastforce
  have run: "process proc_env proc_source proc_classifier proc_item (proc_world None) = (Inr (), w')"
    using run proc_returns [OF run proc_world_ok proc_clean] by simp
  from returned_item_settled [OF proc_world_ok proc_clean proc_agrees run] proc_row [of None]
  obtain now d where "row_of (w_durable w') 1 = Some d" and
    "stampless d = stampless (((new_document 1 ''a.txt'')\<lparr>d_id := 1, d_classification_override := None\<rparr>)\<lparr>d_status := Ds_completed,
      d_category := Some ''Invoice'', d_confidence := Some (Fin (3/4)),
      d_classified_by := Some ''typesafe-jev'', d_raw_response := Some [], d_classified_at := Some now, d_processed_at := Some now\<rparr>)"
    by (auto simp: proc_id proc_decides row_step_def new_document_def)
  then have "row_of (w_durable w') 1 = Some d \<and> d_category d = Some ''Invoice'' \<and> d_status d = Ds_completed"
    by (cases d) (simp add: stampless_def new_document_def)
  with run show ?thesis by blast
qed

theorem attempt_recorded_witness:
  "\<exists>w' now. process proc_env proc_source proc_classifier proc_item (proc_world None) = (Inr (), w')
     \<and> row_step 1 (classified_row \<lparr>cl_category = ''Invoice'', cl_confidence = Fin (3/4), cl_raw = []\<rparr> now)
         [completed_log 1 proc_item \<lparr>cl_category = ''Invoice'', cl_confidence = Fin (3/4), cl_raw = []\<rparr>]
         (w_durable (proc_world None)) (w_durable w')"
proof -
  obtain res w' where run: "process proc_env proc_source proc_classifier proc_item (proc_world None) = (res, w')" by fastforce
  have row: "row_of (w_durable (proc_world None)) (ms_document_id (rc_message proc_item))
      = Some ((new_document 1 ''a.txt'')\<lparr>d_id := 1, d_classification_override := None\<rparr>)"
    by (simp add: proc_id proc_row)
  have "d_classification_override ((new_document 1 ''a.txt'')\<lparr>d_id := 1, d_classification_override := None\<rparr>) = None" by simp
  from attempt_recorded [OF proc_healthy(2) proc_world_ok proc_clean proc_agrees row this run] run
  show ?thesis by (auto simp: proc_id proc_decides)
qed

definition proc_fault_env :: process_env where
  "proc_fault_env = proc_env\<lparr>db_fault := (\<lambda>t. if t = 8 then Some ''connection lost'' else None)\<rparr>"

lemma fault_env: "db_fault proc_fault_env t = (if t = 8 then Some ''connection lost'' else None)" "db_now proc_fault_env = int"
  "c_fs proc_fault_env = c_fs proc_env"
  by (simp_all add: proc_fault_env_def proc_env_def content_env.defs content_env_eval)

lemma fault_attempt: "attempt proc_fault_env proc_source proc_classifier i (rc_message proc_item) r w =
   (Inr (Some \<lparr>cl_category = ''Invoice'', cl_confidence = Fin (3/4), cl_raw = []\<rparr>), w\<lparr>w_tick := w_tick w + 2\<rparr>)"
proof -
  have d: "fs_download proc_fault_env (parse_path ''/data'') (rc_message proc_item) w = (Inr [104, 105], w\<lparr>w_tick := Suc (w_tick w)\<rparr>)" for w
    using proc_download [of w] unfolding fs_download_def fault_env .
  have "pe_libs proc_fault_env = sample_libs" by (simp add: proc_fault_env_def proc_env_def content_env.defs)
  moreover have "ms_mime_type (rc_message proc_item) = ''text/plain''" "ms_content_hash (rc_message proc_item) = hash_bytes [104, 105]"
    by (simp_all add: proc_item_def sample_message_def)
  ultimately show ?thesis
    using d proc_extracts proc_classifies
    by (simp add: attempt_def proc_source_def fs_fetch_content_hash_def bind_op_def ret_def lift_op_def)
qed

lemma proc_key: "ms_document_id (rc_message proc_item) = 1" "ms_sync_state_id (rc_message proc_item) = 1"
    "ms_drive_item_id (rc_message proc_item) = ''a.txt''"
  by (simp_all add: proc_item_def sample_message_def)

text \<open>A connection lost at the last commit leaves a completed row without audit row, and the message on the queue.\<close>

lemma half_recorded_success:
  "\<exists>w' d. process proc_fault_env proc_source proc_classifier proc_item (proc_world None)
      = (Inl (PersistenceError ''Failed to commit processor state change''), w')
    \<and> row_of (w_durable w') 1 = Some d \<and> d_status d = Ds_completed \<and> d_category d = Some ''Invoice'' \<and> t_processing_log (w_durable w') = []"
  by (simp add: process_def run_pipeline_def Let_def document_of_message_def one_or_none_def db_call_def next_tick_def op_simps
      fault_env fault_attempt proc_world_def proc_store_def proc_key empty_world_def set_document_def modify_store_def commit_state_def
      commit_def update_where_def touch_document_def new_document_def record_success_def load_document_def load_row_def db_write_def
      execute_upsert_def classification_record_def conflict_key_def doc_key_def upsert_updates_def excluded_onto_def insert_log_def
      completed_log_def new_processing_log_def rollback_to_persistence_def rollback_def row_of_def)

theorem raised_item_states_witness:
  "\<exists>e w' c now. process proc_fault_env proc_source proc_classifier proc_item (proc_world None) = (Inl e, w')
     \<and> row_step 1 (classified_row c now) [] (w_durable (proc_world None)) (w_durable w')"
proof -
  obtain e w' d where run: "process proc_fault_env proc_source proc_classifier proc_item (proc_world None) = (Inl e, w')"
    and w': "row_of (w_durable w') 1 = Some d" "d_status d = Ds_completed" "t_processing_log (w_durable w') = []"
    using half_recorded_success by blast
  have no_log: "\<not> row_step 1 f [l] s (w_durable w')" for f l s using w'(3) by (auto simp: row_step_def)
  have start: "\<exists>p. row_of (w_durable (proc_world None)) 1 = Some p \<and> d_status p = Ds_queued"
    by (simp add: proc_row new_document_def)
  have "w_durable w' \<noteq> w_durable (proc_world None)" using start w' by auto
  moreover have "\<not> row_step 1 (\<lambda>d. d\<lparr>d_status := Ds_processing\<rparr>) [] (w_durable (proc_world None)) (w_durable w')"
  proof
    assume "row_step 1 (\<lambda>d. d\<lparr>d_status := Ds_processing\<rparr>) [] (w_durable (proc_world None)) (w_durable w')"
    then obtain p where "stampless d = stampless (p\<lparr>d_status := Ds_processing\<rparr>)" using w'(1) by (auto simp: row_step_def)
    from stampless_fields [OF this] w'(2) show False by simp
  qed
  ultimately have "\<exists>c now. row_step 1 (classified_row c now) [] (w_durable (proc_world None)) (w_durable w')"
    using raised_item_states [OF proc_world_ok proc_clean proc_agrees run proc_id [symmetric]] by (simp add: no_log)
  then show ?thesis using run by metis
qed

end
