(* ===== verification/CsvWriter.thy ===== *)
theory CsvWriter
  imports Classifier PyPath Utf8
begin

text \<open>
  The CSV destination of \<^verbatim>\<open>src/writer.py\<close>: the result row, \<^verbatim>\<open>csv.writer\<close> with its default dialect,
  and the file it is written to. A reader of the same dialect is the specification. Creating
  directories, opening and writing are the operating system's, in the parameter record \<open>os_write\<close>.
\<close>

section \<open>Rows\<close>

record classification_result =
  rs_filename :: string
  rs_category :: string
  rs_confidence :: pyfloat

definition headers :: "string list" where
  "headers = [''filename'', ''category'', ''confidence'']"

definition round_half_even :: "rat \<Rightarrow> int" where
  "round_half_even q = (let n = \<lfloor>q\<rfloor>; d = q - of_int n in
     if d < 1/2 then n else if d > 1/2 then n + 1 else if even n then n else n + 1)"

definition fixed2 :: "int \<Rightarrow> string" where
  "fixed2 n = show_nat (nat (n div 100)) @ CHR ''.'' # [char_of (48 + nat (n mod 100) div 10), char_of (48 + nat (n mod 100) mod 10)]"

text \<open>\<^verbatim>\<open>f"{x:.2f}"\<close>: correctly rounded, ties to even, and the sign kept on a zero.\<close>

fun format_2f :: "pyfloat \<Rightarrow> string" where
  "format_2f (Fin q) = (if q < 0 then CHR ''-'' # fixed2 (round_half_even (- q * 100)) else fixed2 (round_half_even (q * 100)))"
| "format_2f NegZero = ''-0.00''"
| "format_2f PInf = ''inf''"
| "format_2f NInf = ''-inf''"
| "format_2f NaN = ''nan''"

definition row :: "classification_result \<Rightarrow> string list" where
  "row r = [rs_filename r, rs_category r, format_2f (rs_confidence r)]"

section \<open>The csv module\<close>

definition crlf :: string where "crlf = [CHR 0x0D, CHR 0x0A]"

text \<open>\<^verbatim>\<open>QUOTE_MINIMAL\<close> quotes a field that holds the delimiter, the quote or a line break.\<close>

definition csv_special :: "char \<Rightarrow> bool" where
  "csv_special c \<longleftrightarrow> c = CHR '','' \<or> c = CHR 0x22 \<or> c = CHR 0x0D \<or> c = CHR 0x0A"

definition double_quotes :: "string \<Rightarrow> string" where
  "double_quotes s = concat (map (\<lambda>c. if c = CHR 0x22 then [CHR 0x22, CHR 0x22] else [c]) s)"

definition csv_quoted :: "string \<Rightarrow> string" where
  "csv_quoted s = CHR 0x22 # double_quotes s @ [CHR 0x22]"

definition csv_field :: "string \<Rightarrow> string" where
  "csv_field s = (if \<exists>c \<in> set s. csv_special c then csv_quoted s else s)"

text \<open>A row of one empty field is written quoted, so that it is not read as an empty row.\<close>

definition writerow :: "string list \<Rightarrow> string" where
  "writerow xs = (if xs = [[]] then csv_quoted [] else join_with '','' (map csv_field xs)) @ crlf"

definition csv_text :: "classification_result list \<Rightarrow> string" where
  "csv_text results = writerow headers @ concat (map writerow (map row results))"

section \<open>Writing the file\<close>

record os_write =
  ow_mkdir :: "ppath \<Rightarrow> exn + unit"
  ow_open :: "ppath \<Rightarrow> exn + unit"
  ow_write :: "ppath \<Rightarrow> bytes \<Rightarrow> (nat \<times> exn) option"

type_synonym file_store = "ppath \<Rightarrow> bytes option"

text \<open>
  Opening truncates the file; a failed write leaves the bytes that reached it. The \<^verbatim>\<open>utf-8\<close> text
  layer with \<^verbatim>\<open>newline=""\<close> writes the encoding of the text as it is.
\<close>

definition write_bytes :: "os_write \<Rightarrow> ppath \<Rightarrow> bytes \<Rightarrow> (file_store, exn, unit) op" where
  "write_bytes W path data = then_op (lift_op (ow_open W path)) (\<lambda>fs.
     (case ow_write W path data of
        None \<Rightarrow> (Inr (), fs(path \<mapsto> data))
      | Some (n, e) \<Rightarrow> (Inl e, fs(path \<mapsto> take n data))))"

definition output_message :: "ppath \<Rightarrow> string" where
  "output_message path = ''Cannot write results CSV: '' @ path_str path"

definition write_results_csv :: "os_write \<Rightarrow> classification_result list \<Rightarrow> ppath \<Rightarrow> (file_store, exn, unit) op" where
  "write_results_csv W results path =
     catch_op
       (then_op (lift_op (ow_mkdir W (path_parent path)))
          (write_bytes W path (utf8_encode (map of_char (csv_text results)))))
       (\<lambda>e. throw (if is_os_error e then OutputError (output_message path) else e))"

section \<open>A reader of the dialect\<close>

text \<open>
  The specification of the format: the states of \<^verbatim>\<open>csv.reader\<close>, with the fields of the open record
  reversed.
\<close>

datatype csv_state = StartRecord | StartField | InField | InQuoted | QuoteInQuoted | EatCrlf

definition line_end :: "char \<Rightarrow> bool" where
  "line_end c \<longleftrightarrow> c = CHR 0x0D \<or> c = CHR 0x0A"

definition after_line_end :: "char \<Rightarrow> csv_state" where
  "after_line_end c = (if c = CHR 0x0D then EatCrlf else StartRecord)"

fun csv_read :: "csv_state \<Rightarrow> string \<Rightarrow> string list \<Rightarrow> string \<Rightarrow> string list list" where
  "csv_read st f r [] = (if st = StartRecord \<or> st = EatCrlf then [] else [rev (rev f # r)])"
| "csv_read st f r (c # s) =
     (if st = EatCrlf \<and> c = CHR 0x0A then csv_read StartRecord [] [] s
      else if st = StartRecord \<or> st = EatCrlf then
        (if line_end c then [] # csv_read (after_line_end c) [] [] s
         else if c = CHR 0x22 then csv_read InQuoted [] [] s
         else if c = CHR '','' then csv_read StartField [] [[]] s
         else csv_read InField [c] [] s)
      else if st = StartField then
        (if line_end c then rev ([] # r) # csv_read (after_line_end c) [] [] s
         else if c = CHR 0x22 then csv_read InQuoted [] r s
         else if c = CHR '','' then csv_read StartField [] ([] # r) s
         else csv_read InField [c] r s)
      else if st = InField then
        (if line_end c then rev (rev f # r) # csv_read (after_line_end c) [] [] s
         else if c = CHR '','' then csv_read StartField [] (rev f # r) s
         else csv_read InField (c # f) r s)
      else if st = InQuoted then
        (if c = CHR 0x22 then csv_read QuoteInQuoted f r s else csv_read InQuoted (c # f) r s)
      else
        (if c = CHR 0x22 then csv_read InQuoted (c # f) r s
         else if c = CHR '','' then csv_read StartField [] (rev f # r) s
         else if line_end c then rev (rev f # r) # csv_read (after_line_end c) [] [] s
         else csv_read InField (c # f) r s))"

definition csv_parse :: "string \<Rightarrow> string list list" where
  "csv_parse s = csv_read StartRecord [] [] s"

lemma read_plain:
  "\<forall>c \<in> set x. \<not> csv_special c \<Longrightarrow> csv_read InField f r (x @ s) = csv_read InField (rev x @ f) r s"
  by (induction x arbitrary: f) (simp_all add: csv_special_def line_end_def)

lemma read_quoted:
  "csv_read InQuoted f r (double_quotes x @ CHR 0x22 # s) = csv_read QuoteInQuoted (rev x @ f) r s"
  by (induction x arbitrary: f) (simp_all add: double_quotes_def)

definition ends_field :: "string \<Rightarrow> bool" where
  "ends_field s \<longleftrightarrow> (\<exists>c t. s = c # t \<and> (c = CHR '','' \<or> line_end c))"

text \<open>A field followed by its separator is read back, whatever state a field may start in.\<close>

lemma read_field:
  assumes "ends_field s"
  shows "csv_read StartField [] r (csv_field x @ s) =
    (if hd s = CHR '','' then csv_read StartField [] (x # r) (tl s)
     else rev (x # r) # csv_read (after_line_end (hd s)) [] [] (tl s))"
proof -
  obtain c t where s: "s = c # t" and c: "c = CHR '','' \<or> line_end c" using assms by (auto simp: ends_field_def)
  have nq: "line_end CHR '','' = False" by (simp add: line_end_def)
  have le: "line_end c \<Longrightarrow> c \<noteq> CHR 0x22 \<and> c \<noteq> CHR '',''" by (auto simp: line_end_def)
  show ?thesis
  proof (cases "\<exists>y \<in> set x. csv_special y")
    case True
    then have "csv_field x @ s = CHR 0x22 # double_quotes x @ CHR 0x22 # s" by (simp add: csv_field_def csv_quoted_def)
    moreover have "csv_read StartField [] r (CHR 0x22 # double_quotes x @ CHR 0x22 # s) = csv_read QuoteInQuoted (rev x) r s"
      using read_quoted [of "[]" r x s] by (simp add: line_end_def)
    ultimately show ?thesis using c s le nq by auto
  next
    case False
    then have f: "csv_field x = x" by (simp add: csv_field_def)
    show ?thesis
    proof (cases x)
      case Nil
      then show ?thesis using c s le nq f by auto
    next
      case (Cons a y)
      with False have "csv_read StartField [] r (x @ s) = csv_read InField (rev x) r s"
        using read_plain [of y "[a]" r s] by (simp add: csv_special_def line_end_def)
      then show ?thesis using c s le nq f by auto
    qed
  qed
qed

lemma read_fields:
  assumes "xs \<noteq> []"
  shows "csv_read StartField [] r (join_with '','' (map csv_field xs) @ crlf @ s)
    = (rev r @ xs) # csv_read StartRecord [] [] s"
  using assms
proof (induction xs arbitrary: r)
  case Nil
  then show ?case by simp
next
  case (Cons x xs)
  show ?case
  proof (cases xs)
    case Nil
    have "ends_field (crlf @ s)" by (simp add: ends_field_def crlf_def line_end_def)
    from read_field [OF this] Nil show ?thesis by (simp add: crlf_def line_end_def after_line_end_def)
  next
    case (Cons y ys)
    have e: "ends_field (CHR '','' # t)" for t by (simp add: ends_field_def)
    from read_field [OF e] Cons.IH Cons show ?thesis by simp
  qed
qed

text \<open>Reading a record starts the same way as reading a field, except on an empty line.\<close>

lemma start_record_as_field:
  "s \<noteq> [] \<Longrightarrow> \<not> line_end (hd s) \<Longrightarrow>
     csv_read StartRecord [] [] s = csv_read StartField [] [] s"
  by (cases s) auto

lemma csv_field_start: "csv_field x = [] \<or> \<not> line_end (hd (csv_field x))"
  by (cases x) (auto simp: csv_field_def csv_quoted_def csv_special_def line_end_def)

lemma read_row:
  assumes "xs \<noteq> []"
  shows "csv_read StartRecord [] [] (writerow xs @ s) = xs # csv_read StartRecord [] [] s"
proof (cases "xs = [[]]")
  case True
  then show ?thesis
    by (simp add: writerow_def csv_quoted_def double_quotes_def crlf_def line_end_def after_line_end_def)
next
  case False
  let ?t = "join_with '','' (map csv_field xs)"
  have "?t \<noteq> [] \<and> \<not> line_end (hd ?t)"
  proof (cases xs)
    case Nil
    with assms show ?thesis by simp
  next
    case (Cons x ys)
    have "csv_field x = [] \<Longrightarrow> x = []" by (auto simp: csv_field_def csv_quoted_def split: if_splits)
    with Cons False csv_field_start [of x] show ?thesis
      by (cases ys) (auto simp: hd_append line_end_def)
  qed
  then have "csv_read StartRecord [] [] (?t @ crlf @ s) = csv_read StartField [] [] (?t @ crlf @ s)"
    by (intro start_record_as_field) auto
  with False assms show ?thesis by (simp add: writerow_def read_fields)
qed

lemma read_rows:
  "\<forall>xs \<in> set rows. xs \<noteq> [] \<Longrightarrow> csv_read StartRecord [] [] (concat (map writerow rows)) = rows"
  by (induction rows) (simp_all add: read_row)

lemma csv_parse_text: "csv_parse (csv_text results) = headers # map row results"
proof -
  have "\<forall>xs \<in> set (map row results). xs \<noteq> []" by (simp add: row_def)
  moreover have "headers \<noteq> []" by (simp add: headers_def)
  ultimately show ?thesis unfolding csv_parse_def csv_text_def by (simp only: read_row read_rows simp_thms)
qed

lemma char_code_less_256: "(of_char c :: nat) < 256"
  using nat_of_char_less_256 by simp

section \<open>Properties\<close>

text \<open>
  Claim C24. The results file reads back: when the write succeeds, the file decodes as UTF-8, and a
  CSV reader gives the header and one row per result, in order, with the file name, the category and
  the two-decimal confidence exactly as they were, whatever commas, quotes or line breaks the names
  hold. When it fails with an \<^verbatim>\<open>OSError\<close> the caller sees \<^verbatim>\<open>OutputError\<close>, and no other file is touched.
\<close>

theorem results_csv_roundtrip:
  "case write_results_csv W results path fs of
     (Inr _, fs') \<Rightarrow> (\<exists>data t. fs' = fs(path \<mapsto> data) \<and> utf8_decode data = Some (map of_char t)
        \<and> csv_parse t = headers # map row results)
   | (Inl e, fs') \<Rightarrow> \<not> is_os_error e \<and> (\<forall>p. p \<noteq> path \<longrightarrow> fs' p = fs p)"
proof -
  let ?data = "utf8_encode (map of_char (csv_text results))"
  have "\<forall>c \<in> set (map of_char (csv_text results)). scalar c"
    by (auto simp: scalar_def intro: order.strict_trans [OF char_code_less_256])
  then have "utf8_decode ?data = Some (map of_char (csv_text results))" by (rule utf8_decode_encode)
  then have ok: "\<exists>data t. fs(path \<mapsto> ?data) = fs(path \<mapsto> data) \<and> utf8_decode data = Some (map of_char t)
        \<and> csv_parse t = headers # map row results"
    using csv_parse_text by blast
  have "\<not> is_os_error (if is_os_error e then OutputError (output_message path) else e)" for e by simp
  with ok show ?thesis
    by (auto simp: write_results_csv_def write_bytes_def op_simps split: sum.splits option.splits)
qed

definition sample_write :: os_write where
  "sample_write = \<lparr>ow_mkdir = (\<lambda>_. Inr ()), ow_open = (\<lambda>_. Inr ()), ow_write = (\<lambda>_ _. None)\<rparr>"

theorem results_csv_roundtrip_witness:
  "\<exists>data t. snd (write_results_csv sample_write [\<lparr>rs_filename = ''a,b.pdf'', rs_category = ''x'', rs_confidence = Fin 1\<rparr>] empty_path Map.empty)
       = Map.empty(empty_path \<mapsto> data) \<and> utf8_decode data = Some (map of_char t)
     \<and> csv_parse t = [headers, row \<lparr>rs_filename = ''a,b.pdf'', rs_category = ''x'', rs_confidence = Fin 1\<rparr>]"
proof -
  let ?rs = "[\<lparr>rs_filename = ''a,b.pdf'', rs_category = ''x'', rs_confidence = Fin 1\<rparr>]"
  have "fst (write_results_csv sample_write ?rs empty_path Map.empty) = Inr ()"
    by (simp add: write_results_csv_def write_bytes_def sample_write_def op_simps)
  with results_csv_roundtrip [where W = sample_write and results = ?rs and path = empty_path and fs = Map.empty] show ?thesis
    by (auto split: prod.splits)
qed

lemma round_half_even_error: "\<bar>of_int (round_half_even q) - q\<bar> \<le> 1/2"
proof -
  let ?d = "q - of_int \<lfloor>q\<rfloor>"
  have "0 \<le> ?d" and "?d < 1" by linarith+
  then show ?thesis by (auto simp: round_half_even_def Let_def abs_le_iff split: if_splits)
qed

lemma confidence_digits:
  assumes "in_unit p"
  shows "\<exists>q n. (p = Fin q \<or> p = NegZero \<and> q = 0) \<and> 0 \<le> n \<and> n \<le> 100 \<and> \<bar>of_int n / 100 - q\<bar> \<le> 1/200
    \<and> format_2f p = (if p = NegZero then ''-'' else []) @
        (if n = 100 then ''1.00'' else ''0.'' @ [char_of (48 + nat n div 10), char_of (48 + nat n mod 10)])"
proof (cases "p = NegZero")
  case True
  have "char_of (48::nat) = CHR ''0''" by code_simp
  with True show ?thesis by (intro exI [of _ "0::rat"] exI [of _ "0::int"]) simp
next
  case False
  with assms obtain q where p: "p = Fin q" and q: "0 \<le> q" "q \<le> 1" by (auto simp: in_unit_iff)
  let ?n = "round_half_even (q * 100)"
  have err: "\<bar>of_int ?n - q * 100\<bar> \<le> 1/2" by (rule round_half_even_error)
  have "of_int ?n > (-1 :: rat)" and "of_int ?n < (101 :: rat)" using err q unfolding abs_le_iff by linarith+
  then have n: "0 \<le> ?n" "?n \<le> 100" by linarith+
  have "\<bar>of_int ?n / 100 - q\<bar> \<le> 1/200" using err unfolding abs_le_iff by linarith
  moreover have "format_2f p = (if ?n = 100 then ''1.00'' else ''0.'' @ [char_of (48 + nat ?n div 10), char_of (48 + nat ?n mod 10)])"
  proof (cases "?n = 100")
    case True
    have "char_of (48::nat) = CHR ''0''" "char_of (49::nat) = CHR ''1''" by code_simp+
    with True p q show ?thesis by (simp add: fixed2_def show_nat.simps [of "Suc 0"])
  next
    case False
    have "char_of (48::nat) = CHR ''0''" by code_simp
    with False n p q show ?thesis by (simp add: fixed2_def show_nat.simps [of 0])
  qed
  ultimately show ?thesis using n p \<open>p \<noteq> NegZero\<close> by (intro exI [of _ q] exI [of _ ?n]) simp
qed

text \<open>
  Claim C37. The row of a classification. Whatever document the classifier accepts, the row written for it
  has three fields: the file name, the category, which is one of the classifier's labels, and a two-decimal
  number between 0.00 and 1.00 within half a hundredth of the probability the service gave: there is \<open>n\<close> between 0
  and 100, nearest to a hundred times the probability, whose digits the column shows.
\<close>

theorem confidence_column:
  assumes "jev_classify fr jc t = Inr c"
  shows "cl_category c \<in> set (jc_options jc)
    \<and> (\<exists>q n. (cl_confidence c = Fin q \<or> cl_confidence c = NegZero \<and> q = 0) \<and> 0 \<le> n \<and> n \<le> 100 \<and> \<bar>of_int n / 100 - q\<bar> \<le> 1/200
        \<and> row \<lparr>rs_filename = name, rs_category = cl_category c, rs_confidence = cl_confidence c\<rparr> =
            [name, cl_category c, (if cl_confidence c = NegZero then ''-'' else []) @
              (if n = 100 then ''1.00'' else ''0.'' @ [char_of (48 + nat n div 10), char_of (48 + nat n mod 10)])])"
proof
  show "cl_category c \<in> set (jc_options jc)" by (rule jev.answer_in_labels [OF assms])
  from confidence_digits [OF jev.answer_in_unit [OF assms]]
  show "\<exists>q n. (cl_confidence c = Fin q \<or> cl_confidence c = NegZero \<and> q = 0) \<and> 0 \<le> n \<and> n \<le> 100 \<and> \<bar>of_int n / 100 - q\<bar> \<le> 1/200
        \<and> row \<lparr>rs_filename = name, rs_category = cl_category c, rs_confidence = cl_confidence c\<rparr> =
            [name, cl_category c, (if cl_confidence c = NegZero then ''-'' else []) @
              (if n = 100 then ''1.00'' else ''0.'' @ [char_of (48 + nat n div 10), char_of (48 + nat n mod 10)])]"
    by (simp add: row_def)
qed

theorem confidence_column_witness:
  "\<exists>jc c. create_classifier sample_typesafe sample_categories sample_jev_settings = Inr jc
     \<and> jev_classify (\<lambda>_. []) jc [72, 105] = Inr c \<and> cl_category c \<in> set (jc_options jc)
     \<and> (\<exists>x. row \<lparr>rs_filename = ''a.pdf'', rs_category = cl_category c, rs_confidence = cl_confidence c\<rparr> = [''a.pdf'', ''Invoice'', x])"
proof -
  obtain jc where jc: "create_classifier sample_typesafe sample_categories sample_jev_settings = Inr jc"
    by (simp add: create_classifier_def build_jev_classifier_def jev_http_client_init_def bind_result_def sample_jev_settings_def
        sample_typesafe_def jev_is_configured_def)
  note c = sample_jev_classify [OF jc, of "\<lambda>_. []"]
  from confidence_column [OF c, of "''a.pdf''"] jc c show ?thesis by auto
qed

end
