(* ===== verification/CommandLine.thy ===== *)
theory CommandLine
  imports CsvWriter Sources Classifier
begin

text \<open>
  The command line, \<^verbatim>\<open>src/main.py\<close>: extract and classify every document of a local source, skip the ones
  that fail, write the CSV, and turn the outcome into an exit code. The arguments are taken as
  \<^verbatim>\<open>argparse\<close> parsed them; the file system of the documents is a parameter, the store of written files
  is the state.
\<close>

section \<open>Operations\<close>

record cli_args =
  ar_source :: ppath
  ar_categories :: ppath
  ar_output :: ppath

text \<open>\<^verbatim>\<open>path.relative_to(base)\<close> raises \<^verbatim>\<open>ValueError\<close> for a path outside the base.\<close>

definition relative_name :: "filesys \<Rightarrow> ppath \<Rightarrow> ppath \<Rightarrow> exn + string" where
  "relative_name F path r =
     (case relative_to path (if fs_is_dir F r then r else path_parent r) of
        None \<Rightarrow> Inl (ValueError (path_str path @ '' is not in the subpath''))
      | Some relative \<Rightarrow> Inr (path_str relative))"

definition classify_path ::
  "libs \<Rightarrow> filesys \<Rightarrow> (utext \<Rightarrow> exn + classification) \<Rightarrow> ppath \<Rightarrow> exn + classification" where
  "classify_path L F classify path = bind_result (extract_text L F path) classify"

fun classify_each ::
  "libs \<Rightarrow> filesys \<Rightarrow> (utext \<Rightarrow> exn + classification) \<Rightarrow> ppath \<Rightarrow> ppath list \<Rightarrow> exn + classification_result list" where
  "classify_each L F classify r [] = Inr []"
| "classify_each L F classify r (path # paths) =
     (case classify_path L F classify path of
        Inl e \<Rightarrow> if is_extraction_error e \<or> is_classification_error e then classify_each L F classify r paths else Inl e
      | Inr c \<Rightarrow> bind_result (relative_name F path r) (\<lambda>name.
          bind_result (classify_each L F classify r paths) (\<lambda>results.
          Inr (\<lparr>rs_filename = name, rs_category = cl_category c, rs_confidence = cl_confidence c\<rparr> # results))))"

definition classify_documents ::
  "libs \<Rightarrow> filesys \<Rightarrow> local_source \<Rightarrow> (utext \<Rightarrow> exn + classification) \<Rightarrow> ppath \<Rightarrow> exn + classification_result list" where
  "classify_documents L F src classify r = bind_result (documents F src) (classify_each L F classify r)"

record cli_env =
  cl_pydantic :: pydantic
  cl_environment :: environment
  cl_typesafe :: typesafe
  cl_float_repr :: "pyfloat \<Rightarrow> string"
  cl_libs :: libs
  cl_files :: filesys
  cl_read_text :: "string \<Rightarrow> string option"
  cl_write :: os_write

text \<open>The body of the \<^verbatim>\<open>try\<close>.\<close>

definition cli_body :: "cli_env \<Rightarrow> cli_args \<Rightarrow> (file_store, exn, unit) op" where
  "cli_body E args =
     bind_op (lift_op (get_settings (cl_pydantic E) (cl_environment E))) (\<lambda>s.
     bind_op (lift_op (parse_category_file (cl_read_text E) (path_str (ar_categories args)))) (\<lambda>cs.
     bind_op (lift_op (create_classifier (cl_typesafe E) cs s)) (\<lambda>jc.
     bind_op (lift_op (classify_documents (cl_libs E) (cl_files E) \<lparr>src_root = ar_source args\<rparr>
        (jev_classify (cl_float_repr E) jc) (ar_source args))) (\<lambda>results.
     write_results_csv (cl_write E) results (ar_output args)))))"

text \<open>\<^verbatim>\<open>except (AppError, ValidationError)\<close>: the exit code of an entry point.\<close>

definition exit_code :: "('s, exn, 'a) op \<Rightarrow> ('s, exn, int) op" where
  "exit_code m = catch_op (then_op m (ret 0)) (\<lambda>e. if is_app_error e \<or> is_validation_error e then ret 1 else throw e)"

definition cli_run :: "cli_env \<Rightarrow> cli_args \<Rightarrow> (file_store, exn, int) op" where
  "cli_run E args = exit_code (cli_body E args)"

section \<open>Exit codes\<close>

lemma exit_code_cases:
  assumes "exit_code m s = (res, t)"
  obtains (returned) x where "m s = (Inr x, t)" and "res = Inr 0"
    | (reported) e where "m s = (Inl e, t)" and "is_app_error e \<or> is_validation_error e" and "res = Inr 1"
    | (escaped) e where "m s = (Inl e, t)" and "\<not> is_app_error e" and "\<not> is_validation_error e" and "res = Inl e"
proof -
  obtain q u where m: "m s = (q, u)" by fastforce
  show ?thesis using assms m returned reported escaped
    by (cases q) (auto simp: exit_code_def catch_op_def then_op_def bind_op_def ret_def throw_def split: if_splits)
qed

section \<open>Documents below the root\<close>

text \<open>
  What the listing of the operating system satisfies: a root is not both a file and a directory, a
  recursive listing is of paths below it, and opening or reading a file raises only \<^verbatim>\<open>OSError\<close>.
\<close>

definition files_ok :: "filesys \<Rightarrow> bool" where
  "files_ok F \<longleftrightarrow> (\<forall>p. \<not> (fs_is_file F p \<and> fs_is_dir F p))
     \<and> (\<forall>r. \<forall>p \<in> set (fs_rglob F r). in_parents r p)
     \<and> (\<forall>p e. fs_open F p = Inl e \<longrightarrow> is_os_error e) \<and> (\<forall>p s. fs_open F p = Inr s \<longrightarrow> stream_ok s)"

definition source_base :: "filesys \<Rightarrow> ppath \<Rightarrow> ppath" where
  "source_base F r = (if fs_is_dir F r then r else path_parent r)"

lemma documents_under_base:
  assumes "files_ok F" and "documents F \<lparr>src_root = r\<rparr> = Inr ps" and "p \<in> set ps"
  shows "relative_to p (source_base F r) = Some (PPath [] (drop (length (path_parts (source_base F r))) (path_parts p)))"
proof (cases rule: documents_cases [of F "\<lparr>src_root = r\<rparr>"])
  case single
  then have "p = r" "\<not> fs_is_dir F r" using assms by (auto simp: files_ok_def split: if_splits)
  then show ?thesis by (simp add: relative_to_def source_base_def path_parent_def butlast_conv_take)
next
  case walk
  then have "p \<in> set (fs_rglob F r)" "fs_is_dir F r" using assms by (auto simp: sorted_paths_def)
  then have "in_parents r p" using assms(1) by (simp add: files_ok_def)
  with \<open>fs_is_dir F r\<close> show ?thesis by (simp add: relative_to_def source_base_def in_parents_def)
next
  case absent
  with assms(2) show ?thesis by simp
qed

definition csv_name :: "filesys \<Rightarrow> ppath \<Rightarrow> ppath \<Rightarrow> string" where
  "csv_name F r p = path_str (PPath [] (drop (length (path_parts (source_base F r))) (path_parts p)))"

lemma relative_name_document:
  "files_ok F \<Longrightarrow> documents F \<lparr>src_root = r\<rparr> = Inr ps \<Longrightarrow> p \<in> set ps \<Longrightarrow> relative_name F p r = Inr (csv_name F r p)"
  using documents_under_base [of F r ps p] by (simp add: relative_name_def csv_name_def source_base_def)

text \<open>
  A document that does not extract or classify raises one of the two classes the loop skips, unless a read
  of a DOCX document escapes its extractor.
\<close>

lemma classify_path_cases:
  assumes "files_ok F" and "libs_ok L" and "documents F \<lparr>src_root = r\<rparr> = Inr ps" and "p \<in> set ps"
    and "\<And>t e. classify t = Inl e \<Longrightarrow> is_classification_error e"
  shows "case unguarded_document L F p of
      Some e \<Rightarrow> classify_path L F classify p = Inl e \<and> \<not> is_app_error e
    | None \<Rightarrow> \<forall>e. classify_path L F classify p = Inl e \<longrightarrow> is_extraction_error e \<or> is_classification_error e"
proof -
  obtain ext where ext: "map_of EXTRACTORS (lower (path_suffix p)) = Some ext"
    using local_fs.extraction_dispatches [OF assms(3,4)] by blast
  have fails: "if unguarded_document L F p = Some e then \<not> is_app_error e
      else unguarded_document L F p = None \<and> is_plain_extraction_error e" if "extract_text L F p = Inl e" for e
    using extract_text_of_supported [OF ext assms(2) _ _ that] assms(1) by (simp add: files_ok_def)
  have plain: "is_plain_extraction_error e \<Longrightarrow> is_extraction_error e" for e by (cases e) simp_all
  show ?thesis
  proof (cases "unguarded_document L F p")
    case (Some u)
    then have "extract_text L F p = Inl u" by (rule unguarded_document_escapes)
    with Some fails [of u] show ?thesis by (simp add: classify_path_def bind_result_def)
  next
    case None
    with fails plain assms(5) show ?thesis by (auto simp: classify_path_def bind_result_def split: sum.splits)
  qed
qed

text \<open>The batch against its reference: the first exception that escapes, or the rows of the documents that classify.\<close>

lemma classify_each_result:
  assumes "\<And>p. p \<in> set ps \<Longrightarrow> relative_name F p r = Inr (name p)"
    and "\<And>p. p \<in> set ps \<Longrightarrow> case esc p of
        Some e \<Rightarrow> classify_path L F classify p = Inl e \<and> \<not> is_app_error e
      | None \<Rightarrow> \<forall>e. classify_path L F classify p = Inl e \<longrightarrow> is_extraction_error e \<or> is_classification_error e"
  shows "classify_each L F classify r ps =
    (case List.map_filter esc ps of
       e # _ \<Rightarrow> Inl e
     | [] \<Rightarrow> Inr (List.map_filter (\<lambda>p. case classify_path L F classify p of
           Inl _ \<Rightarrow> None | Inr c \<Rightarrow> Some \<lparr>rs_filename = name p, rs_category = cl_category c, rs_confidence = cl_confidence c\<rparr>) ps))"
  using assms
proof (induction ps)
  case Nil
  then show ?case by (simp add: map_filter_simps)
next
  case (Cons p ps)
  have IH: "classify_each L F classify r ps =
    (case List.map_filter esc ps of
       e # _ \<Rightarrow> Inl e
     | [] \<Rightarrow> Inr (List.map_filter (\<lambda>p. case classify_path L F classify p of
           Inl _ \<Rightarrow> None | Inr c \<Rightarrow> Some \<lparr>rs_filename = name p, rs_category = cl_category c, rs_confidence = cl_confidence c\<rparr>) ps))"
    by (rule Cons.IH) (use Cons.prems in auto)
  have here: "relative_name F p r = Inr (name p)" "case esc p of
        Some e \<Rightarrow> classify_path L F classify p = Inl e \<and> \<not> is_app_error e
      | None \<Rightarrow> \<forall>e. classify_path L F classify p = Inl e \<longrightarrow> is_extraction_error e \<or> is_classification_error e"
    using Cons.prems by simp_all
  have app: "is_extraction_error e \<or> is_classification_error e \<Longrightarrow> is_app_error e" for e
    using extraction_error_is_app_error classification_error_is_app_error by blast
  show ?case
  proof (cases "esc p")
    case (Some e)
    with here(2) app show ?thesis by (auto simp: map_filter_simps)
  next
    case None
    with here IH show ?thesis
      by (cases "classify_path L F classify p") (auto simp: map_filter_simps bind_result_def split: list.split)
  qed
qed

text \<open>Each row of the results comes from one document, in order.\<close>

lemma classify_each_rows:
  "classify_each L F classify r ps = Inr rs \<Longrightarrow>
    list_all2 (\<lambda>x p. relative_name F p r = Inr (rs_filename x)) rs (filter (\<lambda>p. \<exists>c. classify_path L F classify p = Inr c) ps)"
proof (induction ps arbitrary: rs)
  case Nil
  then show ?case by simp
next
  case (Cons p ps)
  show ?case
  proof (cases "classify_path L F classify p")
    case (Inl e)
    with Cons show ?thesis by (simp split: if_splits)
  next
    case (Inr c)
    then obtain name results where "relative_name F p r = Inr name" "classify_each L F classify r ps = Inr results"
      "rs = \<lparr>rs_filename = name, rs_category = cl_category c, rs_confidence = cl_confidence c\<rparr> # results"
      using Cons.prems by (auto simp: bind_result_def split: sum.splits)
    with Cons.IH Inr show ?thesis by simp
  qed
qed

lemma classify_each_jev:
  assumes "files_ok F" and "libs_ok L" and "documents F \<lparr>src_root = r\<rparr> = Inr ps" and "jev_client_ok jc"
  shows "classify_each L F (jev_classify fr jc) r ps =
    (case List.map_filter (unguarded_document L F) ps of
       e # _ \<Rightarrow> Inl e
     | [] \<Rightarrow> Inr (List.map_filter (\<lambda>p. case classify_path L F (jev_classify fr jc) p of
           Inl _ \<Rightarrow> None
         | Inr c \<Rightarrow> Some \<lparr>rs_filename = csv_name F r p, rs_category = cl_category c, rs_confidence = cl_confidence c\<rparr>) ps))"
proof (rule classify_each_result)
  show "relative_name F p r = Inr (csv_name F r p)" if "p \<in> set ps" for p
    by (rule relative_name_document [OF assms(1,3) that])
  show "case unguarded_document L F p of
      Some e \<Rightarrow> classify_path L F (jev_classify fr jc) p = Inl e \<and> \<not> is_app_error e
    | None \<Rightarrow> \<forall>e. classify_path L F (jev_classify fr jc) p = Inl e \<longrightarrow> is_extraction_error e \<or> is_classification_error e"
    if "p \<in> set ps" for p
    by (rule classify_path_cases [OF assms(1-3) that]) (rule jev.failure [OF assms(4)])
qed

section \<open>Properties\<close>

text \<open>
  Claim C14. A batch against its reference. With the libraries, the file system and the classifier client
  raising their documented classes, the run of a source that exists gives exactly one result per
  document that extracts and classifies, in the order of the enumeration, named by its path below the
  source: a document that raises \<^verbatim>\<open>ExtractionError\<close> or \<^verbatim>\<open>ClassificationError\<close> costs its own row only. It fails where the
  enumeration does, and one kind of document aborts it: a DOCX document whose paragraphs or
  cells cannot be read once it is open; the batch then raises what the first such read raised.
\<close>

theorem batch_results:
  assumes "files_ok F" and "libs_ok L" and "jev_client_ok jc"
  shows "classify_documents L F \<lparr>src_root = r\<rparr> (jev_classify fr jc) r =
    (case documents F \<lparr>src_root = r\<rparr> of
       Inl e \<Rightarrow> Inl e
     | Inr ps \<Rightarrow> (case List.map_filter (unguarded_document L F) ps of
           e # _ \<Rightarrow> Inl e
         | [] \<Rightarrow> Inr (List.map_filter (\<lambda>p. case extract_text L F p of
               Inl _ \<Rightarrow> None
             | Inr t \<Rightarrow> (case jev_classify fr jc t of
                   Inl _ \<Rightarrow> None
                 | Inr c \<Rightarrow> Some \<lparr>rs_filename = path_str (PPath [] (drop (length (path_parts (if fs_is_dir F r then r else path_parent r))) (path_parts p))),
                     rs_category = cl_category c, rs_confidence = cl_confidence c\<rparr>)) ps)))"
proof (cases "documents F \<lparr>src_root = r\<rparr>")
  case (Inl e)
  then show ?thesis by (simp add: classify_documents_def bind_result_def)
next
  case (Inr ps)
  note each = classify_each_jev [OF assms(1,2) Inr assms(3), of fr]
  have row: "(\<lambda>p. case classify_path L F (jev_classify fr jc) p of
      Inl _ \<Rightarrow> None | Inr c \<Rightarrow> Some \<lparr>rs_filename = csv_name F r p, rs_category = cl_category c, rs_confidence = cl_confidence c\<rparr>) =
      (\<lambda>p. case extract_text L F p of Inl _ \<Rightarrow> None
       | Inr t \<Rightarrow> (case jev_classify fr jc t of Inl _ \<Rightarrow> None
           | Inr c \<Rightarrow> Some \<lparr>rs_filename = csv_name F r p, rs_category = cl_category c, rs_confidence = cl_confidence c\<rparr>))"
    by (rule ext) (simp add: classify_path_def bind_result_def split: sum.split)
  show ?thesis
    using each [unfolded row, unfolded csv_name_def source_base_def]
    by (simp only: Inr classify_documents_def bind_result_def sum.case)
qed

text \<open>
  Claim C15. The file names of a run are unique and resolve: when the listing names no path twice, no two
  rows share a name, whatever the classifier does, and joined to the source directory a row's name
  is the path of a document that was classified.
\<close>

theorem csv_names_unique:
  assumes "files_ok F" and "distinct (fs_rglob F r)" and "\<forall>p \<in> set (fs_rglob F r). \<forall>x \<in> set (path_parts p). proper_part x"
    and "\<forall>x \<in> set (path_parts r). proper_part x"
    and "classify_documents L F \<lparr>src_root = r\<rparr> classify r = Inr results"
  shows "distinct (map rs_filename results)
    \<and> (\<forall>x \<in> set results. \<exists>p. path_join (if fs_is_dir F r then r else path_parent r) (parse_path (rs_filename x)) = p
         \<and> (\<exists>c. bind_result (extract_text L F p) classify = Inr c))"
proof -
  obtain ps where ps: "documents F \<lparr>src_root = r\<rparr> = Inr ps" and each: "classify_each L F classify r ps = Inr results"
    using assms(5) by (auto simp: classify_documents_def bind_result_def split: sum.splits)
  let ?qs = "filter (\<lambda>p. \<exists>c. classify_path L F classify p = Inr c) ps" and ?b = "source_base F r"
  have d: "distinct ps" and proper: "\<forall>p \<in> set ps. \<forall>x \<in> set (path_parts p). proper_part x"
    using ps assms(2-4)
    by (cases rule: documents_cases [of F "\<lparr>src_root = r\<rparr>"]; auto simp: sorted_paths_def split: if_splits)+
  have parsed: "parse_path (csv_name F r p) = PPath [] (drop (length (path_parts ?b)) (path_parts p))" if "p \<in> set ps" for p
    unfolding csv_name_def by (rule parse_path_str) (use proper that in \<open>auto dest: in_set_dropD\<close>)
  have join: "path_join ?b (parse_path (csv_name F r p)) = p" if "p \<in> set ps" for p
    unfolding parsed [OF that] using documents_under_base [OF assms(1) ps that] by (rule join_relative_to(1))
  then have inj: "inj_on (csv_name F r) (set ps)" by (metis inj_onI)
  have "list_all2 (\<lambda>x p. relative_name F p r = Inr (rs_filename x)) results ?qs" by (rule classify_each_rows [OF each])
  then have "list_all2 (\<lambda>x p. rs_filename x = csv_name F r p) results ?qs"
    by (rule list.rel_mono_strong) (use relative_name_document [OF assms(1) ps] in auto)
  then have names: "map rs_filename results = map (csv_name F r) ?qs"
    by (auto simp: list_all2_conv_all_nth list_eq_iff_nth_eq)
  have "distinct (map rs_filename results)"
    unfolding names using d inj by (simp add: distinct_map inj_on_def)
  moreover have "\<exists>p. path_join ?b (parse_path (rs_filename x)) = p \<and> (\<exists>c. bind_result (extract_text L F p) classify = Inr c)"
    if "x \<in> set results" for x
  proof -
    have "rs_filename x \<in> set (map (csv_name F r) ?qs)" using that unfolding names [symmetric] by simp
    then obtain q where "q \<in> set ps" "\<exists>c. classify_path L F classify q = Inr c" "rs_filename x = csv_name F r q" by auto
    with join [of q] show ?thesis by (simp add: classify_path_def)
  qed
  ultimately show ?thesis by (simp add: source_base_def)
qed

lemma batch_failure:
  assumes "files_ok F" and "libs_ok L" and "jev_client_ok jc"
    and "classify_documents L F \<lparr>src_root = r\<rparr> (jev_classify fr jc) r = Inl e"
  shows "is_app_error e \<or> (\<exists>ps p. documents F \<lparr>src_root = r\<rparr> = Inr ps \<and> p \<in> set ps \<and> unguarded_document L F p = Some e)"
proof (cases "documents F \<lparr>src_root = r\<rparr>")
  case (Inl x)
  with assms(4) have "x = e" by (simp add: classify_documents_def bind_result_def)
  with local_fs.enumeration_failure_is_app_error [OF Inl] show ?thesis by simp
next
  case (Inr ps)
  note each = classify_each_jev [OF assms(1,2) Inr assms(3), of fr]
  from assms(4) Inr each have "\<exists>es. List.map_filter (unguarded_document L F) ps = e # es"
    by (simp add: classify_documents_def bind_result_def split: list.splits)
  then have "e \<in> set (List.map_filter (unguarded_document L F) ps)" by auto
  then show ?thesis using Inr by (auto simp: List.map_filter_def)
qed

definition write_ok :: "os_write \<Rightarrow> bool" where
  "write_ok W \<longleftrightarrow> (\<forall>p e. ow_mkdir W p = Inl e \<longrightarrow> is_os_error e) \<and> (\<forall>p e. ow_open W p = Inl e \<longrightarrow> is_os_error e)
     \<and> (\<forall>p d n e. ow_write W p d = Some (n, e) \<longrightarrow> is_os_error e)"

lemma write_results_outcome:
  assumes "write_ok W" and "write_results_csv W results path fs = (res, fs')"
  shows "(res = Inr () \<and> fs' = fs(path \<mapsto> utf8_encode (map of_char (csv_text results))))
    \<or> (res = Inl (OutputError (output_message path)) \<and> (\<forall>p. p \<noteq> path \<longrightarrow> fs' p = fs p))"
  using assms
  by (auto simp: write_ok_def write_results_csv_def write_bytes_def op_simps split: sum.splits option.splits)

lemma category_file_error: "parse_category_file read path = Inl e \<Longrightarrow> \<exists>m. e = CategoryFileError m"
  using split_lines_error collect_error
  by (auto simp: parse_category_file_def parse_categories_def split_into_blocks_def split: option.splits sum.splits if_splits)

text \<open>
  Claim C16. The exit code of the command line. Code 0 means that the output file holds the CSV of the whole
  batch; code 1 is a domain failure or an invalid setting, and no other file was touched. Three kinds of exceptions
  escape, before anything is written: the \<^verbatim>\<open>ValueError\<close> of an unconfigured Jev section, what the constructor of the
  SDK's client raises on the section's values, and what an unguarded read of an enumerated DOCX document raises.
\<close>

theorem cli_run_exit:
  assumes "validation_ok (cl_pydantic E)" and "typesafe_ok (cl_typesafe E)" and "libs_ok (cl_libs E)"
    and "files_ok (cl_files E)" and "write_ok (cl_write E)"
  shows "case cli_run E args fs of
      (Inr code, fs') \<Rightarrow>
        (code = 0 \<and> (\<exists>s cs jc results. get_settings (cl_pydantic E) (cl_environment E) = Inr s
            \<and> parse_category_file (cl_read_text E) (path_str (ar_categories args)) = Inr cs
            \<and> create_classifier (cl_typesafe E) cs s = Inr jc
            \<and> classify_documents (cl_libs E) (cl_files E) \<lparr>src_root = ar_source args\<rparr> (jev_classify (cl_float_repr E) jc) (ar_source args) = Inr results
            \<and> fs' = fs(ar_output args \<mapsto> utf8_encode (map of_char (csv_text results)))))
        \<or> (code = 1 \<and> (\<forall>p. p \<noteq> ar_output args \<longrightarrow> fs' p = fs p))
    | (Inl e, fs') \<Rightarrow> fs' = fs \<and> (\<exists>s. get_settings (cl_pydantic E) (cl_environment E) = Inr s
        \<and> (e = ValueError jev_unconfigured_message \<and> st_jev s = None
           \<or> (\<exists>j k u. st_jev s = Some j \<and> jev_api_key j = Some k \<and> jev_base_url j = Some u \<and> ts_connect (cl_typesafe E) k u = Inl e)
           \<or> (\<exists>ps p. documents (cl_files E) \<lparr>src_root = ar_source args\<rparr> = Inr ps \<and> p \<in> set ps
                \<and> unguarded_document (cl_libs E) (cl_files E) p = Some e)))"
proof -
  let ?settings = "get_settings (cl_pydantic E) (cl_environment E)"
  let ?cats = "parse_category_file (cl_read_text E) (path_str (ar_categories args))"
  let ?docs = "\<lambda>jc. classify_documents (cl_libs E) (cl_files E) \<lparr>src_root = ar_source args\<rparr> (jev_classify (cl_float_repr E) jc) (ar_source args)"
  have escaped: ?thesis if "cli_body E args fs = (Inl e, fs)" "?settings = Inr s" "\<not> is_app_error e \<and> \<not> is_validation_error e \<Longrightarrow>
        e = ValueError jev_unconfigured_message \<and> st_jev s = None
        \<or> (\<exists>j k u. st_jev s = Some j \<and> jev_api_key j = Some k \<and> jev_base_url j = Some u \<and> ts_connect (cl_typesafe E) k u = Inl e)
        \<or> (\<exists>ps p. documents (cl_files E) \<lparr>src_root = ar_source args\<rparr> = Inr ps \<and> p \<in> set ps \<and> unguarded_document (cl_libs E) (cl_files E) p = Some e)"
    for e s
    using that by (auto simp: cli_run_def exit_code_def catch_op_def then_op_def bind_op_def ret_def throw_def)
  have failed: ?thesis if "cli_body E args fs = (Inl e, fs')" "is_app_error e \<or> is_validation_error e" "\<forall>p. p \<noteq> ar_output args \<longrightarrow> fs' p = fs p" for e fs'
    using that by (auto simp: cli_run_def exit_code_def catch_op_def then_op_def bind_op_def ret_def)
  show ?thesis
  proof (cases ?settings)
    case (Inl e)
    moreover have "is_validation_error e" using settings_failure [OF assms(1) Inl] .
    ultimately show ?thesis by (intro failed [of e fs]) (simp_all add: cli_body_def throw_def)
  next
    case s: (Inr s)
    show ?thesis
    proof (cases ?cats)
      case (Inl e)
      with category_file_error [OF Inl] s show ?thesis by (intro failed [of e fs]) (auto simp: cli_body_def throw_def)
    next
      case cs: (Inr cs)
      show ?thesis
      proof (cases "create_classifier (cl_typesafe E) cs s")
        case (Inl e)
        then have "e = ValueError jev_unconfigured_message \<and> st_jev s = None
            \<or> (\<exists>j k u. st_jev s = Some j \<and> jev_api_key j = Some k \<and> jev_base_url j = Some u \<and> ts_connect (cl_typesafe E) k u = Inl e)"
          using configured_jev [OF s] by (auto simp: create_classifier_def build_jev_classifier_def jev_http_client_init_def
              bind_result_Inl_iff jev_is_configured_def split: option.splits if_splits)
        with Inl s cs show ?thesis by (intro escaped [of e s]) (auto simp: cli_body_def throw_def)
      next
        case jc: (Inr jc)
        have ok: "jev_client_ok jc"
          using build_jev_classifier_client_ok [OF assms(2)] jc by (simp add: create_classifier_def)
        show ?thesis
        proof (cases "?docs jc")
          case (Inl e)
          from batch_failure [OF assms(4,3) ok Inl] Inl s cs jc show ?thesis
            by (intro escaped [of e s]) (auto simp: cli_body_def throw_def)
        next
          case results: (Inr results)
          obtain res fs' where w: "write_results_csv (cl_write E) results (ar_output args) fs = (res, fs')" by fastforce
          then have body: "cli_body E args fs = (res, fs')" using s cs jc results by (simp add: cli_body_def)
          from write_results_outcome [OF assms(5) w] show ?thesis
          proof
            assume "res = Inr () \<and> fs' = fs(ar_output args \<mapsto> utf8_encode (map of_char (csv_text results)))"
            then show ?thesis using body s cs jc results
              by (simp add: cli_run_def exit_code_def catch_op_def then_op_def bind_op_def ret_def)
          next
            assume "res = Inl (OutputError (output_message (ar_output args))) \<and> (\<forall>p. p \<noteq> ar_output args \<longrightarrow> fs' p = fs p)"
            then show ?thesis using body by (intro failed) auto
          qed
        qed
      qed
    qed
  qed
qed

section \<open>Instances\<close>

definition cli_files :: filesys where
  "cli_files = \<lparr>fs_is_file = (\<lambda>p. p = parse_path ''a.txt''), fs_is_dir = (\<lambda>_. False), fs_rglob = (\<lambda>_. []),
     fs_open = (\<lambda>p. if p = parse_path ''a.txt'' then Inr (Inr [72, 105]) else Inl (OSError ''absent'')),
     fs_read_bytes = (\<lambda>_. Inl (OSError ''absent'')), fs_resolve = (\<lambda>p. p)\<rparr>"

definition cli_sample :: "environment \<Rightarrow> cli_env" where
  "cli_sample env = \<lparr>cl_pydantic = sample_pydantic, cl_environment = env, cl_typesafe = sample_typesafe,
     cl_float_repr = (\<lambda>_. []), cl_libs = sample_libs, cl_files = cli_files,
     cl_read_text = (\<lambda>_. Some invoice_markdown), cl_write = sample_write\<rparr>"

definition cli_sample_args :: cli_args where
  "cli_sample_args = \<lparr>ar_source = parse_path ''a.txt'', ar_categories = parse_path ''c.md'', ar_output = parse_path ''out.csv''\<rparr>"

lemma cli_environment_ok:
  "validation_ok (cl_pydantic (cli_sample env))" "typesafe_ok (cl_typesafe (cli_sample env))" "libs_ok (cl_libs (cli_sample env))"
  "files_ok (cl_files (cli_sample env))" "write_ok (cl_write (cli_sample env))"
  by (auto simp: cli_sample_def validation_ok_def sample_pydantic_def typesafe_ok_def sample_typesafe_def libs_ok_def sample_libs_def
      files_ok_def cli_files_def stream_ok_def write_ok_def sample_write_def split: if_splits)

lemma cli_guarded: "unguarded_document sample_libs F p = None"
  by (auto simp: unguarded_document_def sample_libs_def split: sum.split)

lemma cli_documents: "documents cli_files \<lparr>src_root = parse_path ''a.txt''\<rparr> = Inr [parse_path ''a.txt'']"
  by (simp add: documents_def candidate_files_def cli_files_def has_extractor_def supported_suffixes_def EXTRACTORS_def path_eval text_eval Let_def)

lemma cli_extracts: "extract_text sample_libs cli_files (parse_path ''a.txt'') = Inr [72, 105]"
proof -
  have "map_of EXTRACTORS (lower (path_suffix (parse_path ''a.txt''))) = Some PlainTextExtractor"
    by (simp add: EXTRACTORS_def path_eval text_eval Let_def)
  moreover have "plain_extract sample_libs (Inr [72, 105]) = Inr [72, 105]"
    by (simp add: plain_extract_def utf8_sig_decode_def utf8_decode_def decode_nats.simps bom_def)
  ultimately show ?thesis by (simp add: extract_text_def cli_files_def)
qed

lemma cli_name: "relative_name cli_files (parse_path ''a.txt'') (parse_path ''a.txt'') = Inr ''a.txt''"
  by (simp add: relative_name_def cli_files_def relative_to_def path_eval text_eval)

definition cli_classifier :: jev_classifier where
  "cli_classifier = \<lparr>jc_client = (\<lambda>_ _. Inr \<lparr>jr_choice = ''Invoice'', jr_probabilities = [(''Invoice'', Fin (3/4))], jr_raw = []\<rparr>),
     jc_options = [''Invoice'', ''unknown''], jc_criteria = [], jc_max_input_chars = 100\<rparr>"

lemma cli_classifies: "jev_classify fr cli_classifier [72, 105] = Inr \<lparr>cl_category = ''Invoice'', cl_confidence = Fin (3/4), cl_raw = []\<rparr>"
  by (simp add: jev_classify_def cli_classifier_def less_eq_pyfloat_def)

lemma merged_files_ok: "files_ok merged_files"
  by (simp add: files_ok_def merged_files_def sample_files_def stream_ok_def path_eval text_eval in_parents_def)

text \<open>One document that classifies, and one whose table cannot be read, which aborts the batch.\<close>

theorem batch_results_witness:
  "classify_documents sample_libs cli_files \<lparr>src_root = parse_path ''a.txt''\<rparr> (jev_classify (\<lambda>_. []) cli_classifier) (parse_path ''a.txt'')
    = Inr [\<lparr>rs_filename = ''a.txt'', rs_category = ''Invoice'', rs_confidence = Fin (3/4)\<rparr>]
   \<and> classify_documents merged_libs merged_files \<lparr>src_root = parse_path ''m.docx''\<rparr> (jev_classify (\<lambda>_. []) cli_classifier) (parse_path ''m.docx'')
    = Inl (ValueError ''no tr above topmost tr in w:tbl'')"
proof
  have ok: "jev_client_ok cli_classifier" by (simp add: jev_client_ok_def cli_classifier_def)
  from batch_results [OF cli_environment_ok(4,3) [of Map.empty, unfolded cli_sample_def, simplified] this]
  show "classify_documents sample_libs cli_files \<lparr>src_root = parse_path ''a.txt''\<rparr> (jev_classify (\<lambda>_. []) cli_classifier) (parse_path ''a.txt'')
      = Inr [\<lparr>rs_filename = ''a.txt'', rs_category = ''Invoice'', rs_confidence = Fin (3/4)\<rparr>]"
    by (simp add: cli_documents cli_extracts cli_classifies cli_guarded map_filter_simps)
      (simp add: cli_files_def path_eval text_eval)
  from batch_results [OF merged_files_ok merged_eval(3) ok]
  show "classify_documents merged_libs merged_files \<lparr>src_root = parse_path ''m.docx''\<rparr> (jev_classify (\<lambda>_. []) cli_classifier) (parse_path ''m.docx'')
      = Inl (ValueError ''no tr above topmost tr in w:tbl'')"
    by (simp add: merged_eval map_filter_simps)
qed

theorem csv_names_unique_witness:
  "\<exists>results. classify_documents sample_libs cli_files \<lparr>src_root = parse_path ''a.txt''\<rparr> (jev_classify (\<lambda>_. []) cli_classifier) (parse_path ''a.txt'')
     = Inr results \<and> distinct (map rs_filename results)"
proof -
  let ?r = "parse_path ''a.txt''"
  obtain results where run: "classify_documents sample_libs cli_files \<lparr>src_root = ?r\<rparr> (jev_classify (\<lambda>_. []) cli_classifier) ?r = Inr results"
    by (simp add: classify_documents_def bind_result_def cli_documents classify_path_def cli_extracts cli_classifies cli_name)
  have ok: "files_ok cli_files" "distinct (fs_rglob cli_files ?r)" "\<forall>p \<in> set (fs_rglob cli_files ?r). \<forall>x \<in> set (path_parts p). proper_part x"
    using cli_environment_ok(4) [of Map.empty] by (simp_all add: cli_sample_def) (simp_all add: cli_files_def)
  from csv_names_unique [OF ok parse_path_proper run] run show ?thesis by blast
qed

lemma cli_settings:
  "\<exists>s. get_settings sample_pydantic [''CLASSIFIER__JEV_API_KEY'' \<mapsto> ''k'', ''CLASSIFIER__JEV_BASE_URL'' \<mapsto> ''https://jev''] = Inr s
     \<and> st_jev s = Some \<lparr>jev_api_key = Some ''k'', jev_base_url = Some ''https://jev''\<rparr>"
  by (simp add: settings_eval sample_pydantic_def)

text \<open>Configured, the run writes its row and returns 0; without the Jev section the exception escapes.\<close>

theorem cli_run_exit_witness:
  "fst (cli_run (cli_sample [''CLASSIFIER__JEV_API_KEY'' \<mapsto> ''k'', ''CLASSIFIER__JEV_BASE_URL'' \<mapsto> ''https://jev'']) cli_sample_args Map.empty) = Inr 0
   \<and> cli_run (cli_sample Map.empty) cli_sample_args Map.empty = (Inl (ValueError jev_unconfigured_message), Map.empty)"
proof
  let ?E = "cli_sample [''CLASSIFIER__JEV_API_KEY'' \<mapsto> ''k'', ''CLASSIFIER__JEV_BASE_URL'' \<mapsto> ''https://jev'']"
  have cats: "parse_category_file (cl_read_text (cli_sample env)) p = Inr invoice_taxonomy" for env p
    using invoice_markdown_parses by (simp add: parse_category_file_def cli_sample_def)
  obtain s where s: "get_settings sample_pydantic [''CLASSIFIER__JEV_API_KEY'' \<mapsto> ''k'', ''CLASSIFIER__JEV_BASE_URL'' \<mapsto> ''https://jev''] = Inr s"
    "st_jev s = Some \<lparr>jev_api_key = Some ''k'', jev_base_url = Some ''https://jev''\<rparr>" using cli_settings by blast
  obtain jc where jc: "create_classifier sample_typesafe invoice_taxonomy s = Inr jc"
    by (simp add: create_classifier_def build_jev_classifier_def jev_http_client_init_def sample_typesafe_def bind_result_def s(2) jev_is_configured_def)
  have "jev_classify (\<lambda>_. []) jc [72, 105] = Inr \<lparr>cl_category = ''Invoice'', cl_confidence = Fin (3/4), cl_raw = [(''id'', JInt 1)]\<rparr>"
    using jc by (auto simp: create_classifier_def build_jev_classifier_def jev_http_client_init_def bind_result_def s(2) jev_is_configured_def jev_classifier_init_def jev_classify_def
        jev_decide_def sample_typesafe_def MAX_INPUT_CHARS_def QUESTION_NAME_def invoice_taxonomy_def enum_values_def names_def less_eq_pyfloat_def)
  then obtain results where "classify_documents sample_libs cli_files \<lparr>src_root = parse_path ''a.txt''\<rparr> (jev_classify (\<lambda>_. []) jc) (parse_path ''a.txt'') = Inr results"
    by (simp add: classify_documents_def bind_result_def cli_documents classify_path_def cli_extracts cli_name)
  then have "\<exists>fs. cli_body ?E cli_sample_args Map.empty = (Inr (), fs)"
    using s(1) jc cats [of _ "path_str (ar_categories cli_sample_args)"]
    by (simp add: cli_body_def cli_sample_def cli_sample_args_def write_results_csv_def write_bytes_def sample_write_def catch_op_def then_op_def
        bind_op_def lift_op_def)
  then show "fst (cli_run ?E cli_sample_args Map.empty) = Inr 0"
    by (auto simp: cli_run_def exit_code_def catch_op_def then_op_def bind_op_def ret_def)
  have none: "\<exists>s. get_settings sample_pydantic Map.empty = Inr s \<and> st_jev s = None" by (simp add: settings_eval)
  then have "\<exists>e fs. cli_run (cli_sample Map.empty) cli_sample_args Map.empty = (Inl e, fs)"
    using cats [of Map.empty "path_str (ar_categories cli_sample_args)"]
    by (auto simp: cli_run_def exit_code_def cli_body_def cli_sample_def create_classifier_def build_jev_classifier_def catch_op_def then_op_def
        bind_op_def throw_def lift_op_def)
  with cli_run_exit [OF cli_environment_ok [of Map.empty], where args = cli_sample_args and fs = Map.empty]
  show "cli_run (cli_sample Map.empty) cli_sample_args Map.empty = (Inl (ValueError jev_unconfigured_message), Map.empty)"
    by (auto simp: cli_sample_def cli_guarded sample_typesafe_def)
qed

end
