(* ===== verification/Jobs.thy ===== *)
theory Jobs
  imports LocalWalkers ProcessorRuns CommandLine
begin

text \<open>
  The entry points of the two cloud jobs: \<^verbatim>\<open>run\<close> of \<^verbatim>\<open>src/walker.py\<close> and of \<^verbatim>\<open>src/processor.py\<close>, which
  select the source, build the clients from the settings, run one walk or one work item in a session
  and turn the outcome into an exit code. The services the clients reach are the environment.
\<close>

section \<open>Operations\<close>

record job_env = process_env +
  jb_pydantic :: pydantic
  jb_sdk :: sdk
  jb_environment :: environment
  jb_typesafe :: typesafe
  jb_read_text :: "string \<Rightarrow> string option"

definition job_settings :: "'z job_env_scheme \<Rightarrow> exn + settings" where
  "job_settings E = get_settings (jb_pydantic E) (jb_environment E)"

text \<open>The engine is its URL, once \<^verbatim>\<open>create_engine\<close> has accepted it.\<close>

definition get_engine :: "sdk \<Rightarrow> settings \<Rightarrow> exn + string" where
  "get_engine K s =
     (case st_database s of
        None \<Rightarrow> Inl (ValueError ''Database is not configured; set CLASSIFIER__DATABASE_URL.'')
      | Some d \<Rightarrow> (case db_url d of
            None \<Rightarrow> Inl (ValueError ''Database is not configured; set CLASSIFIER__DATABASE_URL.'')
          | Some u \<Rightarrow> bind_result (sdk_engine K u) (\<lambda>_. Inr u)))"

text \<open>\<^verbatim>\<open>with create_message_queue() as queue, get_sessionmaker()() as session\<close>.\<close>

definition with_queue_and_session :: "sdk \<Rightarrow> settings \<Rightarrow> 'a job \<Rightarrow> 'a job" where
  "with_queue_and_session K s body =
     then_op (lift_op (create_message_queue K s)) (then_op (lift_op (get_engine K s)) (with_session body))"

definition filesystem_root :: "settings \<Rightarrow> exn + ppath" where
  "filesystem_root s =
     (case st_filesystem s of
        None \<Rightarrow> Inl (ValueError ''Filesystem source is not configured; set CLASSIFIER__FILESYSTEM_ROOT.'')
      | Some f \<Rightarrow> (case fs_root f of
            None \<Rightarrow> Inl (ValueError ''Filesystem source is not configured; set CLASSIFIER__FILESYSTEM_ROOT.'')
          | Some r \<Rightarrow> Inr r))"

definition blob_unconfigured_message :: string where
  "blob_unconfigured_message =
     ''Blob source is not configured; set CLASSIFIER__BLOB_ACCOUNT_URL and CLASSIFIER__BLOB_CONTAINER.''"

definition blob_location_of :: "settings \<Rightarrow> exn + blob_location" where
  "blob_location_of s =
     (case st_blob s of
        None \<Rightarrow> Inl (ValueError blob_unconfigured_message)
      | Some b \<Rightarrow> (case (bl_account_url b, bl_container b) of
            (Some u, Some c) \<Rightarrow> Inr \<lparr>lo_account_url = u, lo_container = c, lo_prefix = bl_prefix b\<rparr>
          | _ \<Rightarrow> Inl (ValueError blob_unconfigured_message)))"

subsection \<open>The walker job\<close>

definition walk_request_of :: "settings \<Rightarrow> exn + walk_request" where
  "walk_request_of s =
     (case st_walker s of
        None \<Rightarrow> Inl (ValueError ''Walker is not configured; set CLASSIFIER__WALKER_DRIVE_ID.'')
      | Some wk \<Rightarrow> (case wk_drive_id wk of
            None \<Rightarrow> Inl (ValueError ''Walker is not configured; set CLASSIFIER__WALKER_DRIVE_ID.'')
          | Some d \<Rightarrow> Inr \<lparr>wr_drive_id = d, wr_root_path = wk_root_path wk, wr_budget_seconds = wk_time_budget_seconds wk\<rparr>))"

definition run_sharepoint_walk :: "'z job_env_scheme \<Rightarrow> settings \<Rightarrow> nat \<Rightarrow> (walk_status \<times> string) option job" where
  "run_sharepoint_walk E s fuel =
     bind_op (lift_op (walk_request_of s)) (\<lambda>rq.
     bind_op (lift_op (create_graph_client (jb_sdk E) s)) (\<lambda>(_, g).
     bind_op (with_queue_and_session (jb_sdk E) s (walk E g rq fuel)) (\<lambda>r.
     ret (map_option (\<lambda>st. (st, ''drive='' @ wr_drive_id rq)) r))))"

definition run_filesystem_walk :: "'z job_env_scheme \<Rightarrow> settings \<Rightarrow> (walk_status \<times> string) job" where
  "run_filesystem_walk E s =
     bind_op (lift_op (filesystem_root s)) (\<lambda>r.
     bind_op (with_queue_and_session (jb_sdk E) s (fs_walk E r)) (\<lambda>st. ret (st, ''root='' @ path_str r)))"

definition run_blob_walk :: "'z job_env_scheme \<Rightarrow> settings \<Rightarrow> (walk_status \<times> string) job" where
  "run_blob_walk E s =
     bind_op (lift_op (blob_location_of s)) (\<lambda>loc.
     then_op (lift_op (create_container_client (jb_sdk E) (lo_account_url loc) (lo_container loc)))
     (bind_op (with_queue_and_session (jb_sdk E) s (blob_walk E loc)) (\<lambda>st. ret (st, ''container='' @ location_drive_id loc))))"

text \<open>The body of the \<^verbatim>\<open>try\<close> and the exit code; \<open>None\<close> when the fuel of the SharePoint walk ran out.\<close>

definition walker_body :: "'z job_env_scheme \<Rightarrow> nat \<Rightarrow> (walk_status \<times> string) option job" where
  "walker_body E fuel = bind_op (lift_op (job_settings E)) (\<lambda>s.
     case st_source s of
       Filesystem \<Rightarrow> bind_op (run_filesystem_walk E s) (\<lambda>r. ret (Some r))
     | Blob \<Rightarrow> bind_op (run_blob_walk E s) (\<lambda>r. ret (Some r))
     | SharePoint \<Rightarrow> run_sharepoint_walk E s fuel)"

definition walker_run :: "'z job_env_scheme \<Rightarrow> nat \<Rightarrow> int option job" where
  "walker_run E fuel = catch_op
     (bind_op (walker_body E fuel) (\<lambda>r. ret (map_option (\<lambda>_. 0) r)))
     (\<lambda>e. if is_app_error e \<or> is_validation_error e then ret (Some 1) else throw e)"

subsection \<open>The processor job\<close>

definition process_via_sharepoint :: "'z job_env_scheme \<Rightarrow> settings \<Rightarrow> jev_classifier \<Rightarrow> unit job" where
  "process_via_sharepoint E s jc =
     bind_op (lift_op (create_graph_client (jb_sdk E) s)) (\<lambda>(_, g). with_queue_and_session (jb_sdk E) s (run_once E (GraphContentSource g) jc))"

definition process_via_filesystem :: "'z job_env_scheme \<Rightarrow> settings \<Rightarrow> jev_classifier \<Rightarrow> unit job" where
  "process_via_filesystem E s jc =
     bind_op (lift_op (filesystem_root s)) (\<lambda>r. with_queue_and_session (jb_sdk E) s (run_once E (FilesystemContentSource r) jc))"

definition process_via_blob :: "'z job_env_scheme \<Rightarrow> settings \<Rightarrow> jev_classifier \<Rightarrow> unit job" where
  "process_via_blob E s jc =
     bind_op (lift_op (blob_location_of s)) (\<lambda>loc.
     then_op (lift_op (create_container_client (jb_sdk E) (lo_account_url loc) (lo_container loc)))
     (with_queue_and_session (jb_sdk E) s (run_once E (BlobContentSource (lo_prefix loc)) jc)))"

definition category_file_of :: "settings \<Rightarrow> exn + ppath" where
  "category_file_of s =
     (case st_processor s of
        None \<Rightarrow> Inl (ValueError ''Processor is not configured; set CLASSIFIER__PROCESSOR_CATEGORY_FILE.'')
      | Some p \<Rightarrow> (case pr_category_file p of
            None \<Rightarrow> Inl (ValueError ''Processor is not configured; set CLASSIFIER__PROCESSOR_CATEGORY_FILE.'')
          | Some f \<Rightarrow> Inr f))"

definition processor_body :: "'z job_env_scheme \<Rightarrow> unit job" where
  "processor_body E =
     bind_op (lift_op (job_settings E)) (\<lambda>s.
     bind_op (lift_op (category_file_of s)) (\<lambda>f.
     bind_op (lift_op (parse_category_file (jb_read_text E) (path_str f))) (\<lambda>cs.
     bind_op (lift_op (create_classifier (jb_typesafe E) cs s)) (\<lambda>jc.
     case st_source s of
       Filesystem \<Rightarrow> process_via_filesystem E s jc
     | Blob \<Rightarrow> process_via_blob E s jc
     | SharePoint \<Rightarrow> process_via_sharepoint E s jc))))"

definition processor_run :: "'z job_env_scheme \<Rightarrow> int job" where
  "processor_run E = exit_code (processor_body E)"

section \<open>Loaded settings\<close>

text \<open>A section that loaded is complete: its client builds, and only an absent one raises \<^verbatim>\<open>ValueError\<close>.\<close>

lemma loaded_sections:
  assumes "job_settings E = Inr s"
  shows "st_jev s = Some j \<Longrightarrow> jev_is_configured j" "st_queue s = Some q \<Longrightarrow> queue_is_configured q"
    "st_database s = Some d \<Longrightarrow> database_is_configured d" "st_graph s = Some g \<Longrightarrow> graph_is_configured g"
    "st_walker s = Some wk \<Longrightarrow> walker_is_configured wk" "st_processor s = Some p \<Longrightarrow> processor_is_configured p"
    "st_filesystem s = Some f \<Longrightarrow> filesystem_is_configured f" "st_blob s = Some b \<Longrightarrow> blob_is_configured b"
  using get_settings_Inr [OF assms [unfolded job_settings_def]] jev_section.loaded_configured queue_section.loaded_configured
    database_section.loaded_configured graph_section.loaded_configured walker_section.loaded_configured
    processor_section.loaded_configured filesystem_section.loaded_configured blob_section.loaded_configured
  by fastforce+

lemma section_results:
  assumes "job_settings E = Inr s"
  shows "filesystem_root s = (case st_filesystem s of None \<Rightarrow> Inl (ValueError ''Filesystem source is not configured; set CLASSIFIER__FILESYSTEM_ROOT.'')
      | Some f \<Rightarrow> Inr (the (fs_root f)))"
    and "blob_location_of s = (case st_blob s of None \<Rightarrow> Inl (ValueError blob_unconfigured_message)
      | Some b \<Rightarrow> Inr \<lparr>lo_account_url = the (bl_account_url b), lo_container = the (bl_container b), lo_prefix = bl_prefix b\<rparr>)"
    and "walk_request_of s = (case st_walker s of None \<Rightarrow> Inl (ValueError ''Walker is not configured; set CLASSIFIER__WALKER_DRIVE_ID.'')
      | Some wk \<Rightarrow> Inr \<lparr>wr_drive_id = the (wk_drive_id wk), wr_root_path = wk_root_path wk, wr_budget_seconds = wk_time_budget_seconds wk\<rparr>)"
    and "category_file_of s = (case st_processor s of None \<Rightarrow> Inl (ValueError ''Processor is not configured; set CLASSIFIER__PROCESSOR_CATEGORY_FILE.'')
      | Some p \<Rightarrow> Inr (the (pr_category_file p)))"
  using loaded_sections [OF assms]
  by (auto simp: filesystem_root_def filesystem_is_configured_def blob_location_of_def blob_is_configured_def walk_request_of_def
      walker_is_configured_def category_file_of_def processor_is_configured_def split: option.splits)

text \<open>The clients of a loaded configuration, in the order the code builds them.\<close>

definition service_clients :: "sdk \<Rightarrow> settings \<Rightarrow> exn + unit" where
  "service_clients K s = bind_result (queue_constructor K (the (st_queue s))) (\<lambda>_. sdk_engine K (the (db_url (the (st_database s)))))"

definition container_constructor :: "sdk \<Rightarrow> blob_settings \<Rightarrow> exn + unit" where
  "container_constructor K b = bind_result (sdk_default_credential K) (\<lambda>_. sdk_container_client K (the (bl_account_url b)) (the (bl_container b)))"

text \<open>A constructor refuses the values of a section that is present.\<close>

definition refused :: "sdk \<Rightarrow> settings \<Rightarrow> exn \<Rightarrow> bool" where
  "refused K s e \<longleftrightarrow> (\<exists>q. st_queue s = Some q \<and> queue_constructor K q = Inl e)
     \<or> (\<exists>d u. st_database s = Some d \<and> db_url d = Some u \<and> sdk_engine K u = Inl e)
     \<or> (\<exists>g. st_graph s = Some g \<and> graph_constructor K g = Inl e)
     \<or> (\<exists>b. st_blob s = Some b \<and> container_constructor K b = Inl e)"

lemma service_clients_refuse:
  assumes "job_settings E = Inr s" and "st_queue s \<noteq> None" and "st_database s \<noteq> None" and "service_clients K s = Inl e"
  shows "refused K s e"
proof -
  obtain d u where "st_database s = Some d" "db_url d = Some u"
    using assms(3) loaded_sections(3) [OF assms(1)] by (auto simp: database_is_configured_def)
  then show ?thesis using assms(2,4) by (auto simp: service_clients_def bind_result_Inl_iff refused_def)
qed

lemma queue_result:
  assumes "job_settings E = Inr s"
  shows "case st_queue s of
      None \<Rightarrow> \<exists>m. create_message_queue K s = Inl (ValueError m)
    | Some q \<Rightarrow> (case queue_constructor K q of Inl e \<Rightarrow> create_message_queue K s = Inl e | Inr _ \<Rightarrow> \<exists>c. create_message_queue K s = Inr c)"
proof (cases "st_queue s")
  case None
  then show ?thesis by (simp add: create_message_queue_def)
next
  case (Some q)
  then have "create_message_queue K s = build_backend K q" by (simp add: create_message_queue_def)
  with configured_queue_builds [OF loaded_sections(2) [OF assms Some], of K] Some show ?thesis by (simp split: sum.splits)
qed

lemma engine_result:
  assumes "job_settings E = Inr s"
  shows "get_engine K s = (case st_database s of None \<Rightarrow> Inl (ValueError ''Database is not configured; set CLASSIFIER__DATABASE_URL.'')
      | Some d \<Rightarrow> bind_result (sdk_engine K (the (db_url d))) (\<lambda>_. Inr (the (db_url d))))"
  using loaded_sections(3) [OF assms] by (auto simp: get_engine_def database_is_configured_def split: option.splits)

lemma graph_result:
  assumes "job_settings E = Inr s"
  shows "case st_graph s of
      None \<Rightarrow> \<exists>m. create_graph_client K s = Inl (ValueError m)
    | Some g \<Rightarrow> (case graph_constructor K g of Inl e \<Rightarrow> create_graph_client K s = Inl e
        | Inr _ \<Rightarrow> \<exists>c. create_graph_client K s = Inr (c, graph_client_init (gr_token_scope g) (gr_base_url g)))"
proof (cases "st_graph s")
  case None
  then show ?thesis by (simp add: create_graph_client_def)
next
  case (Some g)
  with configured_graph_builds [OF loaded_sections(4) [OF assms Some] Some, of K] show ?thesis by simp
qed

lemma container_result:
  "create_container_client K (the (bl_account_url b)) (the (bl_container b)) =
     (case container_constructor K b of Inl e \<Rightarrow> Inl e | Inr _ \<Rightarrow> Inr (ContainerClient (the (bl_account_url b)) (the (bl_container b))))"
  by (auto simp: create_container_client_def container_constructor_def bind_result_def split: sum.split)

lemma classifier_result:
  assumes "job_settings E = Inr s" and "create_classifier T cs s = Inl e"
  shows "(st_jev s = None \<and> (\<exists>m. e = ValueError m))
    \<or> (\<exists>j k u. st_jev s = Some j \<and> jev_api_key j = Some k \<and> jev_base_url j = Some u \<and> ts_connect T k u = Inl e)"
  using loaded_sections(1) [OF assms(1)] assms(2)
  by (auto simp: create_classifier_def build_jev_classifier_def jev_http_client_init_def jev_is_configured_def bind_result_Inl_iff
      split: option.splits)

text \<open>The queue and the database: the body in its session, or what kept a client from being built, and nothing done.\<close>

lemma services:
  assumes "job_settings E = Inr s"
  shows "if st_queue s \<noteq> None \<and> st_database s \<noteq> None
    then with_queue_and_session K s body w = (case service_clients K s of Inl e \<Rightarrow> (Inl e, w) | Inr _ \<Rightarrow> with_session body w)
    else \<exists>e. with_queue_and_session K s body w = (Inl e, w) \<and> ((\<exists>m. e = ValueError m) \<or> refused K s e)"
proof (cases "st_queue s")
  case None
  with queue_result [OF assms, of K] show ?thesis by (auto simp: with_queue_and_session_def then_op_def throw_def)
next
  case q: (Some q)
  show ?thesis
  proof (cases "queue_constructor K q")
    case (Inl e)
    then have "refused K s e" using q by (simp add: refused_def)
    with Inl q queue_result [OF assms, of K] show ?thesis
      by (auto simp: with_queue_and_session_def then_op_def throw_def service_clients_def bind_result_def)
  next
    case (Inr y)
    then obtain c where "create_message_queue K s = Inr c" using q queue_result [OF assms, of K] by auto
    with q Inr engine_result [OF assms, of K] show ?thesis
      by (auto simp: with_queue_and_session_def then_op_def throw_def service_clients_def bind_result_def split: option.splits sum.splits)
  qed
qed

lemma services_cases:
  assumes "job_settings E = Inr s"
  shows "with_queue_and_session K s body w = with_session body w
    \<or> (\<exists>e. with_queue_and_session K s body w = (Inl e, w)
         \<and> (refused K s e \<or> (\<exists>m. e = ValueError m) \<and> (st_queue s = None \<or> st_database s = None)))"
  using services [OF assms, of K body w] service_clients_refuse [OF assms]
  by (auto split: if_splits sum.splits)

lemma snd_bind_ret: "snd (bind_op m (\<lambda>x. ret (f x)) w) = snd (m w)"
  by (cases "m w"; cases "fst (m w)") (auto simp: bind_op_def ret_def)

lemma walker_run_effect: "snd (walker_run E n w) = snd (walker_body E n w)"
proof -
  have "snd (catch_op m (\<lambda>e. if is_app_error e \<or> is_validation_error e then ret (Some 1) else throw e) w) = snd (m w)" for m :: "int option job"
    by (cases "m w"; cases "fst (m w)") (auto simp: catch_op_def ret_def throw_def)
  then show ?thesis by (simp add: walker_run_def snd_bind_ret)
qed

text \<open>Each walk: the session of its source, or an exception in the world it started in.\<close>

definition loud :: "sdk \<Rightarrow> settings \<Rightarrow> exn \<Rightarrow> bool" where
  "loud K s e \<longleftrightarrow> (\<exists>m. e = ValueError m) \<or> refused K s e"

definition walker_configured :: "settings \<Rightarrow> bool" where
  "walker_configured s \<longleftrightarrow> st_queue s \<noteq> None \<and> st_database s \<noteq> None
     \<and> (case st_source s of Filesystem \<Rightarrow> st_filesystem s \<noteq> None | Blob \<Rightarrow> st_blob s \<noteq> None
        | SharePoint \<Rightarrow> st_walker s \<noteq> None \<and> st_graph s \<noteq> None)"

definition walker_clients :: "sdk \<Rightarrow> settings \<Rightarrow> exn + unit" where
  "walker_clients K s = bind_result
     (case st_source s of Filesystem \<Rightarrow> Inr () | Blob \<Rightarrow> container_constructor K (the (st_blob s))
      | SharePoint \<Rightarrow> graph_constructor K (the (st_graph s))) (\<lambda>_. service_clients K s)"

definition one_walk :: "'z job_env_scheme \<Rightarrow> settings \<Rightarrow> nat \<Rightarrow> world \<Rightarrow> world" where
  "one_walk E s n w =
     (case st_source s of
        Filesystem \<Rightarrow> snd (with_session (fs_walk E (the (fs_root (the (st_filesystem s))))) w)
      | Blob \<Rightarrow> snd (with_session (blob_walk E \<lparr>lo_account_url = the (bl_account_url (the (st_blob s))),
            lo_container = the (bl_container (the (st_blob s))), lo_prefix = bl_prefix (the (st_blob s))\<rparr>) w)
      | SharePoint \<Rightarrow> snd (with_session (walk E (graph_client_init (gr_token_scope (the (st_graph s))) (gr_base_url (the (st_graph s))))
            \<lparr>wr_drive_id = the (wk_drive_id (the (st_walker s))), wr_root_path = wk_root_path (the (st_walker s)),
             wr_budget_seconds = wk_time_budget_seconds (the (st_walker s))\<rparr> n) w))"

lemma served:
  assumes "job_settings E = Inr s"
  shows "if st_queue s \<noteq> None \<and> st_database s \<noteq> None
    then (case service_clients K s of
        Inl e \<Rightarrow> bind_op (with_queue_and_session K s body) (\<lambda>x. ret (f x)) w = (Inl e, w)
      | Inr _ \<Rightarrow> snd (bind_op (with_queue_and_session K s body) (\<lambda>x. ret (f x)) w) = snd (with_session body w))
    else \<exists>e. bind_op (with_queue_and_session K s body) (\<lambda>x. ret (f x)) w = (Inl e, w) \<and> loud K s e"
  using services [OF assms, of K body w]
  by (auto simp: snd_bind_ret loud_def split: sum.split if_splits) (auto simp: bind_op_def)

text \<open>A walk is named by its body, so that the three sources share their cases.\<close>

definition amounts :: "sdk \<Rightarrow> settings \<Rightarrow> bool \<Rightarrow> exn + unit \<Rightarrow> ('s \<Rightarrow> (exn + 'a) \<times> 's) \<Rightarrow> 's \<Rightarrow> 's \<Rightarrow> bool" where
  "amounts K s configured clients m w effect \<longleftrightarrow>
     (if configured then (case clients of Inl e \<Rightarrow> m w = (Inl e, w) | Inr _ \<Rightarrow> snd (m w) = effect)
      else \<exists>e. m w = (Inl e, w) \<and> loud K s e)"

lemma amounts_map:
  assumes "amounts K s c cl m w v"
  shows "amounts K s c cl (bind_op m (\<lambda>r. ret (f r))) w v"
  using assms by (auto simp: amounts_def snd_bind_ret split: sum.splits if_splits) (auto simp: bind_op_def)

lemma filesystem_walk_amounts:
  assumes "job_settings E = Inr s" and "st_source s = Filesystem"
  shows "amounts (jb_sdk E) s (walker_configured s) (walker_clients (jb_sdk E) s) (run_filesystem_walk E s) w (one_walk E s n w)"
proof (cases "st_filesystem s")
  case None
  then show ?thesis using assms(2)
    by (simp add: amounts_def run_filesystem_walk_def section_results(1) [OF assms(1)] throw_def loud_def walker_configured_def)
next
  case (Some f)
  then show ?thesis using assms(2) served [OF assms(1), of "jb_sdk E" "fs_walk E (the (fs_root f))" "\<lambda>st. (st, ''root='' @ path_str (the (fs_root f)))" w]
    by (auto simp: amounts_def run_filesystem_walk_def section_results(1) [OF assms(1)]
        walker_configured_def walker_clients_def one_walk_def bind_result_def split: sum.splits if_splits)
qed

lemma blob_walk_amounts:
  assumes "job_settings E = Inr s" and "st_source s = Blob"
  shows "amounts (jb_sdk E) s (walker_configured s) (walker_clients (jb_sdk E) s) (run_blob_walk E s) w (one_walk E s n w)"
proof (cases "st_blob s")
  case None
  then show ?thesis using assms(2)
    by (simp add: amounts_def run_blob_walk_def section_results(2) [OF assms(1)] throw_def loud_def walker_configured_def)
next
  case (Some b)
  let ?loc = "\<lparr>lo_account_url = the (bl_account_url b), lo_container = the (bl_container b), lo_prefix = bl_prefix b\<rparr>"
  show ?thesis
  proof (cases "container_constructor (jb_sdk E) b")
    case (Inl e)
    then show ?thesis using Some assms(2)
      by (auto simp: amounts_def run_blob_walk_def section_results(2) [OF assms(1)] container_result then_op_def throw_def loud_def
          refused_def walker_clients_def bind_result_def)
  next
    case (Inr u)
    then show ?thesis using Some assms(2) served [OF assms(1), of "jb_sdk E" "blob_walk E ?loc" "\<lambda>st. (st, ''container='' @ location_drive_id ?loc)" w]
      by (auto simp: amounts_def run_blob_walk_def section_results(2) [OF assms(1)] container_result then_op_def
          walker_configured_def walker_clients_def one_walk_def bind_result_def split: sum.splits if_splits)
  qed
qed

lemma sharepoint_walk_amounts:
  assumes "job_settings E = Inr s" and "st_source s = SharePoint"
  shows "amounts (jb_sdk E) s (walker_configured s) (walker_clients (jb_sdk E) s) (run_sharepoint_walk E s n) w (one_walk E s n w)"
proof (cases "st_walker s")
  case None
  then show ?thesis using assms(2)
    by (simp add: amounts_def run_sharepoint_walk_def section_results(3) [OF assms(1)] throw_def loud_def walker_configured_def)
next
  case wk: (Some wk)
  note result = graph_result [OF assms(1), of "jb_sdk E"]
  show ?thesis
  proof (cases "st_graph s")
    case None
    with result wk assms(2) show ?thesis
      by (auto simp: amounts_def run_sharepoint_walk_def section_results(3) [OF assms(1)] throw_def loud_def walker_configured_def)
  next
    case g: (Some g)
    show ?thesis
    proof (cases "graph_constructor (jb_sdk E) g")
      case (Inl e)
      with result wk g assms(2) show ?thesis
        by (auto simp: amounts_def run_sharepoint_walk_def section_results(3) [OF assms(1)] throw_def loud_def refused_def walker_clients_def bind_result_def)
    next
      case (Inr u)
      let ?g = "graph_client_init (gr_token_scope g) (gr_base_url g)"
      let ?rq = "\<lparr>wr_drive_id = the (wk_drive_id wk), wr_root_path = wk_root_path wk, wr_budget_seconds = wk_time_budget_seconds wk\<rparr>"
      obtain c where "create_graph_client (jb_sdk E) s = Inr (c, ?g)" using result g Inr by auto
      with wk have "run_sharepoint_walk E s n = bind_op (with_queue_and_session (jb_sdk E) s (walk E ?g ?rq n))
          (\<lambda>r. ret (map_option (\<lambda>st. (st, ''drive='' @ wr_drive_id ?rq)) r))"
        by (simp add: run_sharepoint_walk_def section_results(3) [OF assms(1)])
      with served [OF assms(1), of "jb_sdk E" "walk E ?g ?rq n" "map_option (\<lambda>st. (st, ''drive='' @ wr_drive_id ?rq))" w] wk g Inr assms(2)
      show ?thesis
        by (auto simp: amounts_def walker_configured_def walker_clients_def one_walk_def bind_result_def split: sum.splits if_splits)
    qed
  qed
qed

lemma walker_body_amounts:
  assumes "job_settings E = Inr s"
  shows "amounts (jb_sdk E) s (walker_configured s) (walker_clients (jb_sdk E) s) (walker_body E n) w (one_walk E s n w)"
  using sharepoint_walk_amounts [OF assms] amounts_map [OF filesystem_walk_amounts [OF assms]] amounts_map [OF blob_walk_amounts [OF assms]]
  by (cases "st_source s") (simp_all add: walker_body_def assms)

section \<open>Properties\<close>

text \<open>
  Claim C13. What a walker job does is decided before it touches the database or the queue. When the sections its source
  needs are present and the constructors of the clients accept their values, the job's whole effect is that of one
  walk of that source, in one session. Otherwise nothing is done: when a constructor refuses a value, its
  exception is raised, and when a section is absent, the \<^verbatim>\<open>ValueError\<close> of a section or the
  exception of a constructor that comes before; only an \<^verbatim>\<open>AppError\<close> or \<^verbatim>\<open>ValidationError\<close> would become exit code 1.
\<close>

theorem configuration_decides:
  assumes "job_settings E = Inr s"
  shows "if st_queue s \<noteq> None \<and> st_database s \<noteq> None
      \<and> (case st_source s of Filesystem \<Rightarrow> st_filesystem s \<noteq> None | Blob \<Rightarrow> st_blob s \<noteq> None
         | SharePoint \<Rightarrow> st_walker s \<noteq> None \<and> st_graph s \<noteq> None)
    then (case walker_clients (jb_sdk E) s of
        Inr _ \<Rightarrow> snd (walker_run E n w) =
          (case st_source s of
             Filesystem \<Rightarrow> snd (with_session (fs_walk E (the (fs_root (the (st_filesystem s))))) w)
           | Blob \<Rightarrow> snd (with_session (blob_walk E \<lparr>lo_account_url = the (bl_account_url (the (st_blob s))),
                 lo_container = the (bl_container (the (st_blob s))), lo_prefix = bl_prefix (the (st_blob s))\<rparr>) w)
           | SharePoint \<Rightarrow> snd (with_session (walk E (graph_client_init (gr_token_scope (the (st_graph s))) (gr_base_url (the (st_graph s))))
                 \<lparr>wr_drive_id = the (wk_drive_id (the (st_walker s))), wr_root_path = wk_root_path (the (st_walker s)),
                  wr_budget_seconds = wk_time_budget_seconds (the (st_walker s))\<rparr> n) w))
      | Inl e \<Rightarrow> refused (jb_sdk E) s e
          \<and> walker_run E n w = (if is_app_error e \<or> is_validation_error e then Inr (Some 1) else Inl e, w))
    else \<exists>e. ((\<exists>m. e = ValueError m) \<or> refused (jb_sdk E) s e)
      \<and> walker_run E n w = (if is_app_error e \<or> is_validation_error e then Inr (Some 1) else Inl e, w)"
proof -
  note body = walker_body_amounts [OF assms, of n w, unfolded amounts_def]
  have raised: "walker_run E n w = (if is_app_error e \<or> is_validation_error e then Inr (Some 1) else Inl e, w)"
    if "walker_body E n w = (Inl e, w)" for e
    using that by (simp add: walker_run_def catch_op_def bind_op_def throw_def ret_def)
  show ?thesis
  proof (cases "walker_configured s")
    case False
    with body obtain e where e: "walker_body E n w = (Inl e, w)" "(\<exists>m. e = ValueError m) \<or> refused (jb_sdk E) s e"
      by (auto simp: loud_def)
    from False raised [OF e(1)] e(2) show ?thesis unfolding walker_configured_def by (simp only: if_False) blast
  next
    case conf: True
    show ?thesis
    proof (cases "walker_clients (jb_sdk E) s")
      case (Inl e)
      then have "refused (jb_sdk E) s e"
        using conf service_clients_refuse [OF assms] unfolding walker_configured_def
        by (cases "st_source s") (auto simp: walker_clients_def bind_result_Inl_iff refused_def)
      with Inl conf body raised [of e] show ?thesis by (auto simp: walker_configured_def)
    next
      case (Inr u)
      with conf body have "snd (walker_run E n w) = one_walk E s n w" by (simp add: walker_run_effect)
      with Inr conf show ?thesis by (simp add: walker_configured_def one_walk_def)
    qed
  qed
qed

text \<open>The ways the processor job fails before it opens its session.\<close>

definition processor_unconfigured :: "settings \<Rightarrow> bool" where
  "processor_unconfigured s \<longleftrightarrow> st_processor s = None \<or> st_jev s = None \<or> st_queue s = None
     \<or> st_database s = None \<or> (st_source s = Filesystem \<and> st_filesystem s = None)
     \<or> (st_source s = Blob \<and> st_blob s = None) \<or> (st_source s = SharePoint \<and> st_graph s = None)"

definition unstarted :: "'z job_env_scheme \<Rightarrow> settings \<Rightarrow> exn \<Rightarrow> bool" where
  "unstarted E s e \<longleftrightarrow> (\<exists>m. e = ValueError m) \<and> processor_unconfigured s \<or> refused (jb_sdk E) s e
     \<or> (\<exists>j k u. st_jev s = Some j \<and> jev_api_key j = Some k \<and> jev_base_url j = Some u \<and> ts_connect (jb_typesafe E) k u = Inl e)"

lemma source_cases:
  assumes "job_settings E = Inr s"
    and "(case st_source s of Filesystem \<Rightarrow> process_via_filesystem E s jc | Blob \<Rightarrow> process_via_blob E s jc
            | SharePoint \<Rightarrow> process_via_sharepoint E s jc) w = (r, v)"
  shows "(\<exists>src. with_session (run_once E src jc) w = (r, v)) \<or> (v = w \<and> (\<exists>e. r = Inl e \<and> unstarted E s e))"
proof -
  have serve: "(\<exists>src. with_session (run_once E src jc) w = (r, v)) \<or> (v = w \<and> (\<exists>e. r = Inl e \<and> unstarted E s e))"
    if "with_queue_and_session (jb_sdk E) s (run_once E src jc) w = (r, v)" for src
    using that services_cases [OF assms(1), of "jb_sdk E" "run_once E src jc" w] unfolding unstarted_def processor_unconfigured_def by auto
  show ?thesis
  proof (cases "st_source s")
    case SharePoint
    show ?thesis
    proof (cases "st_graph s")
      case None
      with graph_result [OF assms(1), of "jb_sdk E"] SharePoint assms(2) show ?thesis
        by (auto simp: process_via_sharepoint_def throw_def unstarted_def processor_unconfigured_def)
    next
      case (Some g)
      show ?thesis
      proof (cases "graph_constructor (jb_sdk E) g")
        case (Inl e)
        then have "create_graph_client (jb_sdk E) s = Inl e" "refused (jb_sdk E) s e"
          using graph_result [OF assms(1), of "jb_sdk E"] Some by (simp_all add: refused_def)
        moreover from this(1) have "r = Inl e" "v = w" using SharePoint assms(2) by (simp_all add: process_via_sharepoint_def throw_def)
        ultimately show ?thesis by (simp add: unstarted_def)
      next
        case (Inr u)
        with graph_result [OF assms(1), of "jb_sdk E"] Some SharePoint assms(2) serve show ?thesis
          by (auto simp: process_via_sharepoint_def)
      qed
    qed
  next
    case Filesystem
    with assms(2) serve show ?thesis
      by (cases "st_filesystem s")
        (auto simp: process_via_filesystem_def section_results(1) [OF assms(1)] throw_def unstarted_def processor_unconfigured_def)
  next
    case Blob
    show ?thesis
    proof (cases "st_blob s")
      case None
      with Blob assms(2) show ?thesis
        by (auto simp: process_via_blob_def section_results(2) [OF assms(1)] throw_def unstarted_def processor_unconfigured_def)
    next
      case (Some b)
      show ?thesis
      proof (cases "container_constructor (jb_sdk E) b")
        case (Inl e)
        then have "refused (jb_sdk E) s e" using Some by (simp add: refused_def)
        moreover have "r = Inl e" "v = w"
          using Some Inl Blob assms(2) by (simp_all add: process_via_blob_def section_results(2) [OF assms(1)] container_result then_op_def throw_def)
        ultimately show ?thesis by (simp add: unstarted_def)
      next
        case (Inr u)
        with Some Blob assms(2) serve show ?thesis
          by (simp add: process_via_blob_def section_results(2) [OF assms(1)] container_result then_op_def)
      qed
    qed
  qed
qed

lemma processor_body_cases:
  assumes "validation_ok (jb_pydantic E)" and "typesafe_ok (jb_typesafe E)" and "processor_body E w = (r, v)"
  shows "(\<exists>src jc. jev_client_ok jc \<and> with_session (run_once E src jc) w = (r, v))
      \<or> (v = w \<and> (\<exists>e. r = Inl e \<and> (is_app_error e \<or> is_validation_error e \<or> (\<exists>s. job_settings E = Inr s \<and> unstarted E s e))))"
proof (cases "job_settings E")
  case (Inl e)
  with assms(3) settings_failure [OF assms(1), of "jb_environment E" e] show ?thesis
    by (auto simp: processor_body_def throw_def job_settings_def)
next
  case s: (Inr s)
  show ?thesis
  proof (cases "st_processor s")
    case None
    with assms(3) s show ?thesis
      by (auto simp: processor_body_def section_results(4) [OF s] throw_def unstarted_def processor_unconfigured_def)
  next
    case p: (Some p)
    show ?thesis
    proof (cases "parse_category_file (jb_read_text E) (path_str (the (pr_category_file p)))")
      case (Inl e)
      with assms(3) s p category_file_error [OF Inl] show ?thesis
        by (auto simp: processor_body_def section_results(4) [OF s] throw_def)
    next
      case cs: (Inr cs)
      show ?thesis
      proof (cases "create_classifier (jb_typesafe E) cs s")
        case (Inl e)
        with assms(3) s p cs classifier_result [OF s Inl] show ?thesis
          by (auto simp: processor_body_def section_results(4) [OF s] throw_def unstarted_def processor_unconfigured_def)
      next
        case jc: (Inr jc)
        have "jev_client_ok jc" using build_jev_classifier_client_ok [OF assms(2)] jc by (simp add: create_classifier_def)
        moreover have "(case st_source s of Filesystem \<Rightarrow> process_via_filesystem E s jc | Blob \<Rightarrow> process_via_blob E s jc
            | SharePoint \<Rightarrow> process_via_sharepoint E s jc) w = (r, v)"
          using assms(3) s p cs jc by (simp add: processor_body_def section_results(4) [OF s])
        ultimately show ?thesis using source_cases [OF s] s by blast
      qed
    qed
  qed
qed

lemma run_once_keeps_clean:
  assumes "world_ok w" and "with_session (run_once E src jc) w = (res, w')"
  shows "world_ok w' \<and> w_work w' = w_durable w'"
proof -
  have "world_ok w'" using evolvesD [OF ok_session [OF ok_frame.run_once_frame] assms(2)] assms(1) by (simp add: keeps_def)
  moreover have "w' = snd (rollback (snd (run_once E src jc w)))"
    using assms(2) snd_with_session [of "run_once E src jc" w] by simp
  ultimately show ?thesis by (simp add: rollback_def modify_op_def)
qed

lemma session_result: "with_session body w = (res, w') \<Longrightarrow> \<exists>v. body w = (res, v) \<and> w_trace w' = w_trace v @ [RolledBack]"
  by (auto simp: with_session_def rollback_def modify_op_def split: prod.splits)


section \<open>Instances\<close>

definition full_environment :: environment where
  "full_environment = [''CLASSIFIER_SOURCE'' \<mapsto> ''filesystem'', ''CLASSIFIER__FILESYSTEM_ROOT'' \<mapsto> ''/data'',
     ''CLASSIFIER__JEV_API_KEY'' \<mapsto> ''k'', ''CLASSIFIER__JEV_BASE_URL'' \<mapsto> ''https://jev'',
     ''CLASSIFIER__QUEUE_NAME'' \<mapsto> ''work'', ''CLASSIFIER__QUEUE_CONNECTION_STRING'' \<mapsto> ''UseDevelopmentStorage=true'',
     ''CLASSIFIER__DATABASE_URL'' \<mapsto> ''postgresql://db'', ''CLASSIFIER__PROCESSOR_CATEGORY_FILE'' \<mapsto> ''c.md'']"

definition sample_job :: "environment \<Rightarrow> job_env" where
  "sample_job env = process_env.extend proc_env \<lparr>jb_pydantic = sample_pydantic, jb_sdk = sample_sdk, jb_environment = env,
     jb_typesafe = sample_typesafe, jb_read_text = (\<lambda>_. Some invoice_markdown)\<rparr>"

lemma full_settings:
  "\<exists>s. job_settings (sample_job full_environment) = Inr s \<and> st_source s = Filesystem \<and> st_filesystem s = Some \<lparr>fs_root = Some (parse_path ''/data'')\<rparr>
     \<and> st_queue s = Some \<lparr>qs_name = Some ''work'', qs_connection_string = Some ''UseDevelopmentStorage=true'', qs_account_url = None,
         qs_use_managed_identity = False\<rparr>
     \<and> st_database s = Some \<lparr>db_url = Some ''postgresql://db''\<rparr> \<and> st_processor s \<noteq> None \<and> st_jev s \<noteq> None"
  by (simp add: job_settings_def sample_job_def process_env.defs full_environment_def settings_eval sample_pydantic_def source_of_def)

text \<open>The queue section with an empty name counts as present, and the SDK refuses it.\<close>

definition blank_queue_environment :: environment where
  "blank_queue_environment = full_environment(''CLASSIFIER__QUEUE_NAME'' \<mapsto> [])"

lemma blank_queue_settings:
  "\<exists>s. job_settings (sample_job blank_queue_environment) = Inr s \<and> st_source s = Filesystem \<and> st_filesystem s \<noteq> None
     \<and> st_queue s = Some \<lparr>qs_name = Some [], qs_connection_string = Some ''UseDevelopmentStorage=true'', qs_account_url = None,
         qs_use_managed_identity = False\<rparr>
     \<and> st_database s = Some \<lparr>db_url = Some ''postgresql://db''\<rparr>"
  by (simp add: job_settings_def sample_job_def process_env.defs blank_queue_environment_def full_environment_def settings_eval
      sample_pydantic_def source_of_def)

lemma sample_clients:
  "jb_sdk (sample_job env) = sample_sdk"
  "sdk_queue_from_connection_string sample_sdk c n = not_blank n" "sdk_engine sample_sdk u = not_blank u"
  by (simp_all add: sample_job_def process_env.defs sample_sdk_def)

lemma empty_settings: "\<exists>s. job_settings (sample_job Map.empty) = Inr s \<and> st_queue s = None"
  by (simp add: job_settings_def sample_job_def process_env.defs settings_eval)

theorem configuration_decides_witness:
  "snd (walker_run (sample_job full_environment) 3 tree_world) = snd (with_session (fs_walk (sample_job full_environment) (parse_path ''/data'')) tree_world)
   \<and> walker_run (sample_job blank_queue_environment) 3 tree_world = (Inl (ValueError ''Please specify a name''), tree_world)
   \<and> (\<exists>e. walker_run (sample_job Map.empty) 3 tree_world = (e, tree_world))"
proof (intro conjI)
  obtain s where s: "job_settings (sample_job full_environment) = Inr s" "st_source s = Filesystem"
    "st_filesystem s = Some \<lparr>fs_root = Some (parse_path ''/data'')\<rparr>"
    "st_queue s = Some \<lparr>qs_name = Some ''work'', qs_connection_string = Some ''UseDevelopmentStorage=true'', qs_account_url = None,
         qs_use_managed_identity = False\<rparr>"
    "st_database s = Some \<lparr>db_url = Some ''postgresql://db''\<rparr>"
    using full_settings by blast
  have "walker_clients (jb_sdk (sample_job full_environment)) s = Inr ()"
    by (simp add: walker_clients_def service_clients_def queue_constructor_def bind_result_def s sample_clients not_blank_def)
  with configuration_decides [OF s(1), where n = 3 and w = tree_world] s(2-5)
  show "snd (walker_run (sample_job full_environment) 3 tree_world) = snd (with_session (fs_walk (sample_job full_environment) (parse_path ''/data'')) tree_world)"
    by simp
  obtain b where b: "job_settings (sample_job blank_queue_environment) = Inr b" "st_source b = Filesystem" "st_filesystem b \<noteq> None"
    "st_queue b = Some \<lparr>qs_name = Some [], qs_connection_string = Some ''UseDevelopmentStorage=true'', qs_account_url = None,
         qs_use_managed_identity = False\<rparr>"
    "st_database b = Some \<lparr>db_url = Some ''postgresql://db''\<rparr>"
    using blank_queue_settings by blast
  have "walker_clients (jb_sdk (sample_job blank_queue_environment)) b = Inl (ValueError ''Please specify a name'')"
    by (simp add: walker_clients_def service_clients_def queue_constructor_def bind_result_def b sample_clients not_blank_def)
  with configuration_decides [OF b(1), where n = 3 and w = tree_world] b(2-5)
  show "walker_run (sample_job blank_queue_environment) 3 tree_world = (Inl (ValueError ''Please specify a name''), tree_world)"
    by simp
  obtain t where t: "job_settings (sample_job Map.empty) = Inr t" "st_queue t = None" using empty_settings by blast
  from configuration_decides [OF t(1), where n = 3 and w = tree_world] t(2)
  show "\<exists>e. walker_run (sample_job Map.empty) 3 tree_world = (e, tree_world)" by auto
qed

lemma sample_job_ok:
  "validation_ok (jb_pydantic (sample_job env))" "typesafe_ok (jb_typesafe (sample_job env))" "queue_ok (sample_job env)"
  "content_ok (sample_job env)" "libs_ok (pe_libs (sample_job env))"
  using cli_environment_ok [of env]
  by (auto simp: cli_sample_def sample_job_def process_env.defs content_ok_def graph_ok_def queue_ok_def proc_env_def content_env.defs
      content_env_eval split: if_splits)

lemma sample_job_services: "m_validate (sample_job env) c = Inr (rc_message proc_item)" "db_fault (sample_job env) t = None"
  by (simp_all add: sample_job_def process_env.defs proc_env_def content_env.defs content_env_eval)

lemma full_clients:
  assumes "job_settings (sample_job full_environment) = Inr s"
  shows "\<not> refused sample_sdk s e" "ts_connect (jb_typesafe (sample_job full_environment)) k u \<noteq> Inl e"
proof -
  have none: "st_graph s = None" "st_blob s = None"
    using assms by (auto simp: job_settings_def sample_job_def process_env.defs full_environment_def settings_eval sample_pydantic_def source_of_def)
  show "\<not> refused sample_sdk s e"
    using assms full_settings by (auto simp: none refused_def queue_constructor_def sample_clients not_blank_def)
  show "ts_connect (jb_typesafe (sample_job full_environment)) k u \<noteq> Inl e"
    by (simp add: sample_job_def process_env.defs sample_typesafe_def)
qed


end
