(* ===== verification/Deployment.thy ===== *)
theory Deployment
  imports Jobs
begin

text \<open>
  The deployment: runs of the walker job (\<^verbatim>\<open>src/walker.py\<close>) and of the processor job
  (\<^verbatim>\<open>src/processor.py\<close>), each in an environment of its own, follow one another on one state store and
  one queue, with the operators' edits between them. A step is a whole run, which ends anywhere its
  environment makes it fail; transactions of two runs are not interleaved.
\<close>

section \<open>Steps\<close>

text \<open>
  What the jobs rely on in the queue service and in the codec they share: an item it hands out has a body
  that was sent before, in any order and any number of times, and a body parses to what was dumped.
\<close>

definition delivers :: "(message \<Rightarrow> string) \<Rightarrow> 'z queue_env_scheme \<Rightarrow> world \<Rightarrow> bool" where
  "delivers codec E w \<longleftrightarrow> m_dump E = codec \<and> (\<forall>m. m_validate E (codec m) = Inr m)
     \<and> (\<forall>t v raw. q_receive E t v = Inr (Some raw) \<longrightarrow> Sent (rm_content raw) \<in> set (w_trace w))"

inductive job_run :: "(message \<Rightarrow> string) \<Rightarrow> world \<Rightarrow> world \<Rightarrow> bool" for codec :: "message \<Rightarrow> string" where
  walker: "m_dump E = codec \<Longrightarrow> job_run codec w (snd (walker_run (E :: job_env) fuel w))"
| processor: "delivers codec E w \<Longrightarrow> job_run codec w (snd (processor_run (E :: job_env) w))"

text \<open>An operator labels a document, lifts a label, or resets a document to \<open>pending\<close>.\<close>

definition operator_edit :: "int \<Rightarrow> (document \<Rightarrow> document) \<Rightarrow> world \<Rightarrow> world" where
  "operator_edit i f w =
     (let s = (w_durable w)\<lparr>t_documents := update_where (\<lambda>d. d_id d = i) f (t_documents (w_durable w))\<rparr>
      in w\<lparr>w_durable := s, w_work := s\<rparr>)"

inductive deployment_step :: "(message \<Rightarrow> string) \<Rightarrow> world \<Rightarrow> world \<Rightarrow> bool" for codec :: "message \<Rightarrow> string" where
  job: "job_run codec w w' \<Longrightarrow> deployment_step codec w w'"
| label: "deployment_step codec w (operator_edit i (\<lambda>d. d\<lparr>d_classification_override := v\<rparr>) w)"
| reset: "deployment_step codec w (operator_edit i (\<lambda>d. d\<lparr>d_status := Ds_pending\<rparr>) w)"

definition reachable :: "(message \<Rightarrow> string) \<Rightarrow> world \<Rightarrow> bool" where
  "reachable codec = (deployment_step codec)\<^sup>*\<^sup>* empty_world"

section \<open>A job is a session\<close>

lemma snd_bind_lift: "snd (bind_op (lift_op x) f w) = (case x of Inl _ \<Rightarrow> w | Inr a \<Rightarrow> snd (f a w))"
  by (cases x) (simp_all add: throw_def)

lemma snd_with_queue_and_session:
  "snd (with_queue_and_session K s body w) = w \<or> snd (with_queue_and_session K s body w) = snd (with_session body w)"
  by (auto simp: with_queue_and_session_def then_op_def snd_bind_lift split: sum.split)

lemma walk_sessions:
  "snd (run_sharepoint_walk E s n w) = w \<or> (\<exists>g rq. snd (run_sharepoint_walk E s n w) = snd (with_session (walk E g rq n) w))"
  "snd (run_filesystem_walk E s w) = w \<or> (\<exists>r. snd (run_filesystem_walk E s w) = snd (with_session (fs_walk E r) w))"
  "snd (run_blob_walk E s w) = w \<or> (\<exists>loc. snd (run_blob_walk E s w) = snd (with_session (blob_walk E loc) w))"
proof -
  note one = snd_with_queue_and_session [where 'a = "walk_status option"] and two = snd_with_queue_and_session [where 'a = walk_status]
  show "snd (run_sharepoint_walk E s n w) = w \<or> (\<exists>g rq. snd (run_sharepoint_walk E s n w) = snd (with_session (walk E g rq n) w))"
    unfolding run_sharepoint_walk_def using one
    by (cases "walk_request_of s"; cases "create_graph_client (jb_sdk E) s") (auto simp: snd_bind_lift snd_bind_ret throw_def split: prod.split, blast+)
  show "snd (run_filesystem_walk E s w) = w \<or> (\<exists>r. snd (run_filesystem_walk E s w) = snd (with_session (fs_walk E r) w))"
    unfolding run_filesystem_walk_def using two by (cases "filesystem_root s") (auto simp: snd_bind_lift snd_bind_ret throw_def, blast)
  show "snd (run_blob_walk E s w) = w \<or> (\<exists>loc. snd (run_blob_walk E s w) = snd (with_session (blob_walk E loc) w))"
    unfolding run_blob_walk_def using two
    by (cases "blob_location_of s") (auto simp: then_op_def snd_bind_lift snd_bind_ret throw_def split: sum.split, blast)
qed

lemma walker_session:
  "snd (walker_run E n w) = w \<or> (\<exists>g rq. snd (walker_run E n w) = snd (with_session (walk E g rq n) w))
    \<or> (\<exists>r. snd (walker_run E n w) = snd (with_session (fs_walk E r) w))
    \<or> (\<exists>loc. snd (walker_run E n w) = snd (with_session (blob_walk E loc) w))"
proof (cases "job_settings E")
  case (Inr s)
  then have "snd (walker_run E n w) \<in> {snd (run_sharepoint_walk E s n w), snd (run_filesystem_walk E s w), snd (run_blob_walk E s w)}"
    by (cases "st_source s") (simp_all add: walker_run_effect walker_body_def snd_bind_lift snd_bind_ret)
  then show ?thesis using walk_sessions [of E s] by (elim insertE emptyE) metis+
qed (simp add: walker_run_effect walker_body_def snd_bind_lift snd_bind_ret throw_def)

lemma exit_code_effect: "snd (exit_code m w) = snd (m w)"
  by (cases "m w"; cases "fst (m w)") (auto simp: exit_code_def catch_op_def then_op_def bind_op_def ret_def throw_def)

lemma processor_session:
  "snd (processor_run E w) = w \<or> (\<exists>src jc. snd (processor_run E w) = snd (with_session (run_once E src jc) w))"
  unfolding processor_run_def exit_code_effect processor_body_def process_via_sharepoint_def process_via_filesystem_def process_via_blob_def
  using snd_with_queue_and_session
  by (auto simp: then_op_def snd_bind_lift throw_def split: sum.split source.split prod.split) blast+

section \<open>What was sent is on record\<close>

text \<open>
  Every body ever sent is the dump of a message whose row is durable under the message's key. A walk
  keeps this, with the working store leading from the durable one; a run of the processor sends nothing
  and loses no row.
\<close>

definition on_record :: "store \<Rightarrow> message \<Rightarrow> bool" where
  "on_record s m \<longleftrightarrow> (\<exists>d \<in> set (t_documents s). d_id d = ms_document_id m \<and> doc_key d = (ms_sync_state_id m, ms_drive_item_id m))"

definition sent_on_record :: "(message \<Rightarrow> string) \<Rightarrow> world \<Rightarrow> bool" where
  "sent_on_record codec w \<longleftrightarrow> (\<forall>body. Sent body \<in> set (w_trace w) \<longrightarrow> (\<exists>m. body = codec m \<and> on_record (w_durable w) m))"

definition walking_inv :: "(message \<Rightarrow> string) \<Rightarrow> world \<Rightarrow> bool" where
  "walking_inv codec w \<longleftrightarrow> world_ok w \<and> docs_keep verdict (w_durable w) (w_work w) \<and> sent_on_record codec w"

lemma on_record_kept: "docs_keep view s t \<Longrightarrow> on_record s m \<Longrightarrow> on_record t m"
  unfolding docs_keep_def on_record_def by metis

lemma sent_filter: "Sent body \<in> set tr \<longleftrightarrow> Sent body \<in> set (filter is_sent tr)"
  by simp

lemma sent_on_record_kept:
  assumes "adds_none is_sent w w'" and "docs_keep view (w_durable w) (w_durable w')" and "sent_on_record codec w"
  shows "sent_on_record codec w'"
proof -
  have "Sent body \<in> set (w_trace w') \<longleftrightarrow> Sent body \<in> set (w_trace w)" for body
    using assms(1) sent_filter [of body] unfolding adds_none_def by metis
  with assms(2,3) on_record_kept show ?thesis unfolding sent_on_record_def by metis
qed

lemma walking_quiet:
  assumes "evolves (keeps world_ok) m" and "evolves (store_rel (docs_keep verdict)) m" and "evolves (adds_none is_sent) m"
  shows "evolves (keeps (walking_inv codec)) m"
proof (rule evolvesI, unfold keeps_def, intro impI)
  fix w assume w: "walking_inv codec w"
  from assms have "keeps world_ok w (snd (m w))" "store_rel (docs_keep verdict) w (snd (m w))" "adds_none is_sent w (snd (m w))"
    by (simp_all add: evolves_def)
  with w sent_on_record_kept [of w "snd (m w)" verdict codec] show "walking_inv codec (snd (m w))"
    by (simp add: walking_inv_def keeps_def store_rel_def)
qed

lemma queuing_on_record:
  assumes "queuing_outcome E sync d src c prior w r w'" and "m_dump E = codec" and "docs_keep verdict (w_durable w) (w_durable w')"
    and "sent_on_record codec w"
  shows "sent_on_record codec w'"
proof -
  have kept: "\<exists>m. body = codec m \<and> on_record (w_durable w') m" if "Sent body \<in> set (w_trace w)" for body
    using that assms(4) on_record_kept [OF assms(3)] unfolding sent_on_record_def by metis
  have "on_record (w_durable w') (work_item row d src c t)"
    if "lookup_document (w_durable w') sync (ca_drive_item_id c) = Some row" for row t
    using lookup_document_Some [OF that] by (auto simp: on_record_def work_item_def doc_key_def)
  then have "\<exists>m. body = codec m \<and> on_record (w_durable w') m" if "Sent body \<in> set (w_trace w')" for body
    using that kept [of body] assms(1,2) unfolding queuing_outcome_def by auto blast+
  then show ?thesis by (simp add: sent_on_record_def)
qed

lemma enqueue_walking_inv:
  assumes "m_dump E = codec"
  shows "evolves (keeps (walking_inv codec)) (enqueue_if_needed E sync d src c)"
proof (rule evolvesI, unfold keeps_def, intro impI)
  fix w assume w: "walking_inv codec w"
  obtain r w' where run: "enqueue_if_needed E sync d src c w = (r, w')" by fastforce
  have "keeps world_ok w w'" "store_rel (docs_keep verdict) w w'"
    using evolvesD [OF enqueue_keeps_world_ok run] evolvesD [OF enqueue_keeps_verdicts run] by blast+
  then have kept: "world_ok w'" "docs_keep verdict (w_durable w) (w_durable w')" "docs_keep verdict (w_durable w') (w_work w')"
    using w by (simp_all add: keeps_def store_rel_def walking_inv_def)
  have "store_ok (w_work w)" using w by (simp add: walking_inv_def world_ok_def)
  note out = enqueue_outcome [OF this refl run]
  have "sent_on_record codec w'"
  proof (cases "w_trace w' = w_trace w")
    case True
    then show ?thesis using sent_on_record_kept [of w w' verdict] kept w by (simp add: walking_inv_def adds_none_def)
  next
    case False
    with out queuing_on_record [OF _ assms kept(2)] w show ?thesis by (auto simp: walking_inv_def split: if_splits)
  qed
  with kept run show "walking_inv codec (snd (enqueue_if_needed E sync d src c w))" by (simp add: walking_inv_def)
qed

lemma sync_sends_none: "evolves (adds_none is_sent) (set_sync E i f)" "evolves (adds_none is_sent) (insert_sync E r)"
  unfolding insert_sync_def
  by (simp add: evolves_def set_sync_eq adds_none_def)
    (intro evolve_intros preorder_adds_none evolvesI, simp add: Let_def adds_none_def)

lemma walking_frame: "m_dump E = codec \<Longrightarrow> walk_frame E (keeps (walking_inv codec))"
proof unfold_locales
  show "only_reads w w' \<Longrightarrow> keeps (walking_inv codec) w w'" for w w'
    by (auto simp: keeps_def walking_inv_def sent_on_record_def only_reads_def same_stores_def intro: world_ok_same)
  show "(\<And>r. ss_id (f r) = ss_id r \<and> ss_drive_id (f r) = ss_drive_id r) \<Longrightarrow> evolves (keeps (walking_inv codec)) (set_sync E i f)" for f i
    by (intro walking_quiet ok_set_sync keeps_setting_sync sync_sends_none)
  show "evolves (keeps (walking_inv codec)) (insert_sync E r)" for r
    by (intro walking_quiet ok_insert_sync keeps_inserting_sync sync_sends_none)
  show "evolves (keeps (walking_inv codec)) (commit E)"
    by (intro walking_quiet ok_commit keep.committing adds_none_commit) simp
qed (auto intro: enqueue_walking_inv)

section \<open>Every reachable deployment\<close>

text \<open>Between runs no transaction is open: the working store is the durable one.\<close>

definition between_runs :: "(message \<Rightarrow> string) \<Rightarrow> world \<Rightarrow> bool" where
  "between_runs codec w \<longleftrightarrow> world_ok w \<and> w_work w = w_durable w \<and> sent_on_record codec w"

lemma walk_session_keeps:
  assumes "evolves (keeps (walking_inv codec)) body" and "between_runs codec w"
  shows "between_runs codec (snd (with_session body w))"
proof -
  let ?u = "snd (body w)"
  have "walking_inv codec w" using assms(2) docs_keep_refl by (simp add: between_runs_def walking_inv_def)
  then have u: "walking_inv codec ?u" using assms(1) by (simp add: evolves_def keeps_def)
  then have "world_ok (snd (rollback ?u))" using ok_rollback by (simp add: evolves_def keeps_def walking_inv_def)
  with u show ?thesis
    by (auto simp: snd_with_session between_runs_def walking_inv_def sent_on_record_def rollback_def modify_op_def)
qed

lemma run_session_keeps:
  assumes "between_runs codec w"
  shows "between_runs codec (snd (with_session (run_once E src jc) w))"
proof -
  let ?u = "snd (run_once E src jc w)" and ?w = "snd (with_session (run_once E src jc) w)"
  have clean: "w_work w = w_durable w" "world_ok w" using assms by (simp_all add: between_runs_def)
  have "docs_keep human_view (w_durable w) (w_durable ?u)"
    by (rule keep.session_outcome [OF human_frame.run_once_frame clean(1)])
  moreover have "adds_none is_sent w ?u" using unsent_frame.run_once_frame [of E src jc] by (simp add: evolves_def)
  ultimately have "sent_on_record codec ?u" using assms sent_on_record_kept by (simp add: between_runs_def) blast
  moreover have "world_ok ?w" using ok_session [OF ok_frame.run_once_frame [of E src jc]] clean(2) by (simp add: evolves_def keeps_def)
  ultimately show ?thesis
    by (auto simp: snd_with_session between_runs_def sent_on_record_def rollback_def modify_op_def)
qed

lemma operator_edit_keeps:
  assumes "between_runs codec w" and "\<And>d. d_id (f d) = d_id d \<and> doc_key (f d) = doc_key d"
  shows "between_runs codec (operator_edit i f w)"
proof -
  let ?s = "(w_durable w)\<lparr>t_documents := update_where (\<lambda>d. d_id d = i) f (t_documents (w_durable w))\<rparr>"
  have "docs_keep doc_key (w_durable w) ?s" by (rule docs_keep_update) (simp add: assms(2))
  moreover have "store_ok ?s"
    using assms(1) by (intro store_ok_set_document [OF assms(2)]) (simp add: between_runs_def world_ok_def)
  moreover have "below_sequences (operator_edit i f w) ?s"
    using assms by (auto simp: between_runs_def world_ok_def below_sequences_def operator_edit_def Let_def set_update_where)
  ultimately show ?thesis using assms(1) on_record_kept
    by (fastforce simp: between_runs_def world_ok_def sent_on_record_def operator_edit_def Let_def)
qed

lemma job_keeps: "job_run codec w w' \<Longrightarrow> between_runs codec w \<Longrightarrow> between_runs codec w'"
proof (induction rule: job_run.induct)
  case (walker E w n)
  note frame = walking_frame [OF walker(1)]
  from walker_session [of E n w] show ?case
    using walk_session_keeps [OF walk_frame.walk_frame [OF frame] walker(2)]
      walk_session_keeps [OF walk_frame.fs_walk_frame [OF frame] walker(2)]
      walk_session_keeps [OF walk_frame.blob_walk_frame [OF frame] walker(2)] walker(2) by metis
next
  case (processor E w)
  with processor_session [of E w] run_session_keeps show ?case by metis
qed

lemma reachable_between_runs: "reachable codec w \<Longrightarrow> between_runs codec w"
  unfolding reachable_def
proof (induction rule: rtranclp_induct)
  case base
  show ?case
    by (simp add: between_runs_def world_ok_def store_ok_def below_sequences_def sent_on_record_def empty_world_def empty_store_def)
next
  case (step v w)
  from step(2,3) show ?case
    by (cases rule: deployment_step.cases) (auto simp: doc_key_def intro: job_keeps operator_edit_keeps)
qed

text \<open>An item the queue hands out was sent, so its row is on record.\<close>

lemma delivered_on_record:
  assumes "delivers codec E w" and "sent_on_record codec w" and "receive E v w = (Inr (Some r), u)"
  shows "on_record (w_durable w) (rc_message r)"
proof -
  obtain raw where raw: "q_receive E (w_tick w) v = Inr (Some raw)" "m_validate E (rm_content raw) = Inr (rc_message r)"
    using assms(3) by (auto simp: receive_def next_tick_def record_event_def op_simps split: sum.splits option.splits)
  then obtain m where "rm_content raw = codec m" "on_record (w_durable w) m"
    using assms(1,2) unfolding delivers_def sent_on_record_def by blast
  with raw(2) assms(1) show ?thesis by (auto simp: delivers_def)
qed

lemma on_record_row:
  assumes "on_record s m" and "store_ok s"
  shows "\<exists>d. row_of s (ms_document_id m) = Some d \<and> doc_key d = (ms_sync_state_id m, ms_drive_item_id m)"
proof -
  obtain d where d: "d \<in> set (t_documents s)" "d_id d = ms_document_id m" "doc_key d = (ms_sync_state_id m, ms_drive_item_id m)"
    using assms(1) by (auto simp: on_record_def)
  with row_of_member [OF assms(2) d(1)] show ?thesis by simp
qed

lemma lookup_distinct:
  assumes "store_ok s" and "d \<in> set (t_documents s)" and "doc_key d = (sync, item)"
  shows "lookup_document s sync item = Some d"
  using find_key_member [of doc_key "t_documents s" d] assms by (simp add: lookup_document_def store_ok_def)

section \<open>The life of a document\<close>

text \<open>
  The abstract machines: what a document shows is its status, its label and its category. A walker may
  discover a document and queue one again unless it is in flight. A processor may take up one document unless it
  is labelled, classify or give up what it took up, and mark a labelled document completed. Neither may do
  anything else.
\<close>

type_synonym shown = "document_status \<times> string option \<times> string option"

definition shown :: "document \<Rightarrow> shown" where
  "shown d = (d_status d, d_classification_override d, d_category d)"

definition documents_shown :: "store \<Rightarrow> int \<rightharpoonup> shown" where
  "documents_shown s i = map_option shown (row_of s i)"

inductive produces :: "(int \<rightharpoonup> shown) \<Rightarrow> (int \<rightharpoonup> shown) \<Rightarrow> bool" where
  discover: "\<sigma> i = None \<Longrightarrow> produces \<sigma> (\<sigma>(i \<mapsto> (Ds_queued, None, None)))"
| requeue: "\<sigma> i = Some (st, h, c) \<Longrightarrow> st \<notin> {Ds_queued, Ds_processing} \<Longrightarrow> produces \<sigma> (\<sigma>(i \<mapsto> (Ds_queued, h, c)))"

inductive consumes :: "int \<Rightarrow> (int \<rightharpoonup> shown) \<Rightarrow> (int \<rightharpoonup> shown) \<Rightarrow> bool" for i :: int where
  take_up: "\<sigma> i = Some (st, None, c) \<Longrightarrow> consumes i \<sigma> (\<sigma>(i \<mapsto> (Ds_processing, None, c)))"
| classify: "\<sigma> i = Some (Ds_processing, None, c) \<Longrightarrow> consumes i \<sigma> (\<sigma>(i \<mapsto> (Ds_completed, None, Some c')))"
| give_up: "\<sigma> i = Some (Ds_processing, None, c) \<Longrightarrow> st \<in> {Ds_skipped, Ds_failed} \<Longrightarrow> consumes i \<sigma> (\<sigma>(i \<mapsto> (st, None, c)))"
| respect: "\<sigma> i = Some (st, Some h, c) \<Longrightarrow> consumes i \<sigma> (\<sigma>(i \<mapsto> (Ds_completed, Some h, c)))"

definition lives :: "store \<Rightarrow> store \<Rightarrow> bool" where
  "lives s t \<longleftrightarrow> produces\<^sup>*\<^sup>* (documents_shown s) (documents_shown t)"

interpretation lives: store_preorder lives
  by unfold_locales (auto simp: lives_def)

lemma documents_shown_same: "t_documents t = t_documents s \<Longrightarrow> documents_shown t = documents_shown s"
  by (simp add: documents_shown_def [abs_def] row_of_def)

lemma lives_same: "t_documents t = t_documents s \<Longrightarrow> lives s t"
  by (simp add: lives_def documents_shown_same [of t s])

lemma lives_step: "produces (documents_shown s) (documents_shown t) \<Longrightarrow> lives s t"
  by (simp add: lives_def)

text \<open>A document handled in at most \<open>n\<close> steps.\<close>

definition handled :: "int \<Rightarrow> nat \<Rightarrow> store \<Rightarrow> store \<Rightarrow> bool" where
  "handled i n s t \<longleftrightarrow> (\<exists>k \<le> n. (consumes i ^^ k) (documents_shown s) (documents_shown t))"

lemma handled_same: "t_documents t = t_documents s \<Longrightarrow> handled i n s t"
  unfolding handled_def by (rule exI [of _ 0]) (simp add: documents_shown_same [of t s])

lemma handled_step: "consumes i (documents_shown s) (documents_shown t) \<Longrightarrow> handled i 1 s t"
  unfolding handled_def by (rule exI [of _ 1]) (simp add: eq_OO)

lemma handled_trans: "handled i m s t \<Longrightarrow> handled i n t u \<Longrightarrow> handled i (m + n) s u"
proof -
  assume "handled i m s t" and "handled i n t u"
  then obtain j k where "j \<le> m" "k \<le> n" "(consumes i ^^ j) (documents_shown s) (documents_shown t)"
      "(consumes i ^^ k) (documents_shown t) (documents_shown u)"
    by (auto simp: handled_def)
  then have "j + k \<le> m + n \<and> (consumes i ^^ (j + k)) (documents_shown s) (documents_shown u)"
    by (auto simp: relpowp_add intro: relcomppI)
  then show ?thesis unfolding handled_def by blast
qed

lemma documents_shown_update:
  assumes "\<And>d. d_id (f d) = d_id d" and "row_of s i = Some d"
  shows "documents_shown (s\<lparr>t_documents := update_where (\<lambda>d. d_id d = i) f (t_documents s)\<rparr>) = (documents_shown s)(i \<mapsto> shown (f d))"
proof
  fix j
  have "d_id x = j" if "find (\<lambda>d. d_id d = j) (t_documents s) = Some x" for x
    using find_key_Some [where key = d_id, OF that] by simp
  then show "documents_shown (s\<lparr>t_documents := update_where (\<lambda>d. d_id d = i) f (t_documents s)\<rparr>) j = ((documents_shown s)(i \<mapsto> shown (f d))) j"
    using assms(2)
    by (cases "find (\<lambda>d. d_id d = j) (t_documents s)")
      (auto simp: documents_shown_def row_of_def find_update_key [where key = d_id, OF assms(1)])
qed

lemma documents_shown_insert:
  assumes "\<forall>d \<in> set (t_documents s). d_id d \<noteq> d_id r"
  shows "documents_shown (s\<lparr>t_documents := t_documents s @ [r]\<rparr>) = (documents_shown s)(d_id r \<mapsto> shown r)"
    and "documents_shown s (d_id r) = None"
proof -
  have append: "find p (xs @ [y]) = (case find p xs of None \<Rightarrow> if p y then Some y else None | Some z \<Rightarrow> Some z)" for p xs and y :: document
    by (induction xs) auto
  have none: "find (\<lambda>d. d_id d = d_id r) (t_documents s) = None"
    using assms by (auto simp: find_None_iff)
  then show "documents_shown s (d_id r) = None" by (simp add: documents_shown_def row_of_def)
  show "documents_shown (s\<lparr>t_documents := t_documents s @ [r]\<rparr>) = (documents_shown s)(d_id r \<mapsto> shown r)"
    using none by (auto simp: documents_shown_def row_of_def append fun_eq_iff split: option.split)
qed

lemma shown_stampless: "stampless a = stampless b \<Longrightarrow> shown a = shown b"
  by (cases a; cases b) (simp add: stampless_def shown_def)

lemma row_step_shown:
  assumes "row_step i f ls s t" and "row_of s i = Some d"
  shows "documents_shown t = (documents_shown s)(i \<mapsto> shown (f d))"
proof
  fix j
  obtain d' where d': "row_of t i = Some d'" "stampless d' = stampless (f d)"
    and others: "filter (\<lambda>d. d_id d \<noteq> i) (t_documents t) = filter (\<lambda>d. d_id d \<noteq> i) (t_documents s)"
    using assms by (auto simp: row_step_def)
  have other: "find (\<lambda>d. d_id d = j) xs = find (\<lambda>d. d_id d = j) (filter (\<lambda>d. d_id d \<noteq> i) xs)" if "j \<noteq> i" for xs :: "document list"
    using that by (induction xs) auto
  have "shown d' = shown (f d)" by (rule shown_stampless [OF d'(2)])
  then show "documents_shown t j = ((documents_shown s)(i \<mapsto> shown (f d))) j"
    using d'(1) other [of "t_documents s"] other [of "t_documents t"] unfolding others
    by (cases "j = i") (simp_all add: documents_shown_def row_of_def)
qed

text \<open>A walk only discovers and queues again.\<close>

lemma upsert_lives:
  assumes "world_ok w" and prior: "prior = lookup_document (w_work w) sync (ca_drive_item_id c)" and "should_enqueue prior h"
    and "upsert_queued_row E sync c prior w = (r, w')"
  shows "w_durable w' = w_durable w \<and> lives (w_work w) (w_work w')"
proof (cases prior)
  case None
  let ?d = "queued_fields c (new_document sync (ca_drive_item_id c))"
  obtain res u where ins: "insert_document E ?d w = (res, u)" by fastforce
  have w': "w' = u" using assms(4) ins None by (cases res) (auto simp: upsert_queued_row_def Let_def bind_op_def ret_def)
  note i = insert_document_result [OF ins]
  show ?thesis
  proof (cases res)
    case (Inl e)
    with i w' show ?thesis by (simp add: lives_same)
  next
    case (Inr n)
    let ?r = "?d\<lparr>d_id := n, d_created_at := db_now E (w_txn w), d_updated_at := db_now E (w_txn w)\<rparr>"
    have work: "w_work u = (w_work w)\<lparr>t_documents := t_documents (w_work w) @ [?r]\<rparr>" and n: "n = w_next_doc w"
      using i Inr by simp_all
    have "\<forall>d \<in> set (t_documents (w_work w)). d_id d \<noteq> d_id ?r"
      using assms(1) n by (auto simp: world_ok_def below_sequences_def)
    note ins' = documents_shown_insert [OF this]
    have "shown ?r = (Ds_queued, None, None)" by (simp add: shown_def queued_fields_def new_document_def)
    then have "produces (documents_shown (w_work w)) (documents_shown (w_work u))"
      unfolding work ins'(1) using produces.discover [of "documents_shown (w_work w)" "d_id ?r"] ins'(2) by simp
    with i Inr w' show ?thesis by (simp add: lives_step)
  qed
next
  case (Some p)
  let ?f = "touch_document (db_now E (w_txn w)) (\<lambda>r. queued_fields c (rotate_hash c r))"
  let ?s = "(w_work w)\<lparr>t_documents := update_where (\<lambda>d. d_id d = d_id p) ?f (t_documents (w_work w))\<rparr>"
  have p: "p \<in> set (t_documents (w_work w))" using prior Some lookup_document_Some by metis
  then have row: "row_of (w_work w) (d_id p) = Some p" using assms(1) by (simp add: row_of_member world_ok_def)
  have id: "d_id (?f d) = d_id d" for d by (simp add: touch_document_def queued_fields_def rotate_hash_def)
  have "shown (?f p) = (Ds_queued, d_classification_override p, d_category p)"
    using touch_cases [of "db_now E (w_txn w)" "\<lambda>r. queued_fields c (rotate_hash c r)" p]
    by (auto simp: shown_def queued_fields_def rotate_hash_def)
  moreover have "documents_shown (w_work w) (d_id p) = Some (d_status p, d_classification_override p, d_category p)"
    using row by (simp add: documents_shown_def shown_def)
  moreover have "d_status p \<notin> {Ds_queued, Ds_processing}" using assms(3) Some by (simp add: IN_FLIGHT_def split: if_splits)
  ultimately have "produces (documents_shown (w_work w)) (documents_shown ?s)"
    unfolding documents_shown_update [OF id row] using produces.requeue by metis
  moreover have "w_durable w' = w_durable w \<and> w_work w' = ?s"
    using assms(4) Some by (cases rule: db_call_cases [of E "w\<lparr>w_work := ?s\<rparr>"])
      (auto simp: upsert_queued_row_def then_op_def bind_op_def set_document_eq flush_def ret_def)
  ultimately show ?thesis by (simp add: lives_step)
qed

text \<open>A consistent world stays one, and its store only lives on.\<close>

definition lives_on :: "world \<Rightarrow> world \<Rightarrow> bool" where
  "lives_on w w' \<longleftrightarrow> (world_ok w \<longrightarrow> world_ok w' \<and> store_rel lives w w')"

lemma preorder_lives_on: "preorder_rel lives_on"
  using lives.wpre unfolding preorder_rel_def lives_on_def by blast

lemma lives_onI: "evolves (keeps world_ok) m \<Longrightarrow> evolves (store_rel lives) m \<Longrightarrow> evolves lives_on m"
  by (simp add: evolves_def lives_on_def keeps_def)

lemma enqueue_lives_on: "evolves lives_on (enqueue_if_needed E sync d src c)"
proof (rule evolvesI, unfold lives_on_def, intro impI conjI)
  fix w assume ok: "world_ok w"
  show "world_ok (snd (enqueue_if_needed E sync d src c w))"
    using enqueue_keeps_world_ok [of E sync d src c] ok by (simp add: evolves_def keeps_def)
  obtain r w' where run: "enqueue_if_needed E sync d src c w = (r, w')" by fastforce
  obtain q u where ex: "existing_document E sync (ca_drive_item_id c) w = (q, u)" by fastforce
  note e = existing_document_result [OF ex]
  have wu: "store_rel lives w u" and uok: "world_ok u"
    using e ok by (auto simp: only_reads_def same_stores_def intro: lives.same world_ok_same)
  have "store_rel lives u w'"
  proof (cases "\<exists>p. q = Inr p \<and> should_enqueue p (ca_content_hash c)")
    case False
    then have "w' = u" using run ex by (cases q) (auto simp: enqueue_if_needed_def bind_op_def ret_def)
    then show ?thesis by (simp add: lives.same)
  next
    case True
    then obtain p where p: "q = Inr p" "should_enqueue p (ca_content_hash c)" by blast
    then have pu: "p = lookup_document (w_work u) sync (ca_drive_item_id c)"
      using e by (simp add: only_reads_def same_stores_def)
    obtain x v where up: "upsert_queued_row E sync c p u = (x, v)" by fastforce
    have uv: "store_rel lives u v"
      using upsert_lives [OF uok pu p(2) up] store_rel_work [OF lives.pre] by blast
    show ?thesis
    proof (cases x)
      case (Inl err)
      then have "w' = v" using run ex p up by (simp add: enqueue_if_needed_def queue_document_def bind_op_def)
      with uv show ?thesis by simp
    next
      case (Inr row)
      let ?rest = "bind_op (utc_now E) (\<lambda>t. let m = build_message row d src t in then_op (commit E) (enqueue E m))"
      have "?rest v = (r, w')" using run ex p up Inr by (simp add: enqueue_if_needed_def queue_document_def bind_op_def)
      moreover have "evolves (store_rel lives) ?rest"
        unfolding Let_def by (intro evolve_intros lives.wpre lives.clock lives.committing channel.send_rel lives.pre)
      ultimately have "store_rel lives v w'" by (rule evolvesD [rotated])
      with uv show ?thesis by (rule preorder_trans [OF lives.wpre])
    qed
  qed
  with wu run show "store_rel lives w (snd (enqueue_if_needed E sync d src c w))"
    by (simp add: preorder_trans [OF lives.wpre])
qed

interpretation living: walk_frame E lives_on for E
proof unfold_locales
  show "only_reads w w' \<Longrightarrow> lives_on w w'" for w w'
    by (auto simp: lives_on_def only_reads_def same_stores_def intro: world_ok_same lives.same)
  show "(\<And>r. ss_id (f r) = ss_id r \<and> ss_drive_id (f r) = ss_drive_id r) \<Longrightarrow> evolves lives_on (set_sync E i f)" for f i
    by (intro lives_onI ok_set_sync lives.setting_sync lives_same) simp_all
  show "evolves lives_on (insert_sync E r)" for r
    by (intro lives_onI ok_insert_sync lives.inserting_sync lives_same) simp
qed (intro preorder_lives_on enqueue_lives_on lives_onI ok_commit lives.committing)+

text \<open>A work item only takes up, classifies, gives up or respects its own row, in at most two steps.\<close>

lemma shown_Some: "row_of s i = Some d \<Longrightarrow> documents_shown s i = Some (d_status d, d_classification_override d, d_category d)"
  by (simp add: documents_shown_def shown_def)

lemma settled_handled:
  assumes "settles i f ls w res w'"
    and "\<And>d. row_of (w_durable w) i = Some d \<Longrightarrow> consumes i (documents_shown (w_durable w)) ((documents_shown (w_durable w))(i \<mapsto> shown (f d)))"
  shows "handled i 1 (w_durable w) (w_durable w')"
proof -
  have "handled i 1 (w_durable w) (w_durable w')" if step: "row_step i f ls (w_durable w) (w_durable w')"
  proof -
    obtain d where d: "row_of (w_durable w) i = Some d" using step by (auto simp: row_step_def)
    from assms(2) [OF d] show ?thesis unfolding row_step_shown [OF step d, symmetric] by (rule handled_step)
  qed
  with assms(1) handled_same show ?thesis unfolding settles_def by metis
qed

lemma pipeline_handled:
  assumes "pipeline_outcome E src jc i m r w res w'" and row: "row_of (w_durable w) i = Some d"
    and "d_status d = Ds_processing" and "d_classification_override d = None"
  shows "handled i 1 (w_durable w) (w_durable w')"
proof -
  let ?\<sigma> = "documents_shown (w_durable w)"
  have \<sigma>: "?\<sigma> i = Some (Ds_processing, None, d_category d)" using shown_Some [OF row] assms(3,4) by simp
  have given_up: "handled i 1 (w_durable v) (w_durable w')"
    if "settles i f ls v q w'" "w_durable v = w_durable w" "d_status (f d) \<in> {Ds_skipped, Ds_failed}"
      "shown (f d) = (d_status (f d), None, d_category d)" for f ls v q
    using that row \<sigma> by (intro settled_handled [OF that(1)]) (auto intro: consumes.give_up)
  have skipped: "handled i 1 (w_durable v) (w_durable w')" if "settles i skipped_row ls v q w'" "w_durable v = w_durable w" for ls v q
    using given_up [OF that] assms(4) by (simp add: skipped_row_def shown_def)
  have failed: "handled i 1 (w_durable v) (w_durable w')" if "failure_recorded E i r e v res w'" "w_durable v = w_durable w" for e v
    using that given_up [where f = "failed_row e" and v = v, OF _ that(2)] assms(4)
    by (auto simp: failure_recorded_def failed_row_def shown_def)
  note po = assms(1) [unfolded pipeline_outcome_def]
  show ?thesis
  proof (cases "decide E src jc m w")
    case (Classified c)
    let ?f = "excluded_onto (classification_record m c) (db_now E (w_txn w))"
    have "handled i 1 (w_durable w) (w_durable w')" if step: "row_step i ?f ls (w_durable w) (w_durable w')" for ls
    proof (rule handled_step)
      have "shown (?f d) = (Ds_completed, None, Some (cl_category c))"
        by (simp add: shown_def excluded_onto_def classification_record_def assms(4))
      then show "consumes i ?\<sigma> (documents_shown (w_durable w'))"
        unfolding row_step_shown [OF step row] using consumes.classify [of ?\<sigma> i] \<sigma> by simp
    qed
    then show ?thesis using po Classified handled_same [of "w_durable w'" "w_durable w"] unfolding success_recorded_def Let_def by auto
  next
    case (Skip reason)
    with po skipped [of _ w] failed show ?thesis unfolding skip_recorded_def skip_failed_def by (auto simp: handled_same)
  next
    case (Fail e)
    with po failed [of e w] show ?thesis by simp
  next
    case (Escape e)
    with po show ?thesis by (simp add: handled_same)
  qed
qed

lemma process_handled:
  assumes "process E src jc r w = (res, w')" and "world_ok w" and "w_work w = w_durable w" and "agrees (w_durable w) (rc_message r)"
  shows "handled (ms_document_id (rc_message r)) 2 (w_durable w) (w_durable w')"
  using assms
proof (cases rule: process_cases)
  case (unread e)
  then show ?thesis using only_reads_stores [of w w'] by (simp add: handled_same)
next
  case (human d)
  have "handled (ms_document_id (rc_message r)) 1 (w_durable w) (w_durable w')"
  proof (rule settled_handled [OF human(3)])
    fix x assume "row_of (w_durable w) (ms_document_id (rc_message r)) = Some x"
    with human(1,2) show "consumes (ms_document_id (rc_message r)) (documents_shown (w_durable w))
        ((documents_shown (w_durable w))(ms_document_id (rc_message r) \<mapsto> shown (completed_row x)))"
      by (auto simp: completed_row_def shown_def intro!: consumes.respect dest: shown_Some)
  qed
  then show ?thesis using handled_trans [of _ 1 _ _ 1, OF _ handled_same] by (simp add: numeral_2_eq_2)
next
  case (attempted d u)
  let ?i = "ms_document_id (rc_message r)"
  obtain d' where d': "row_of (w_durable u) ?i = Some d'" "stampless d' = stampless (processing_row d)"
    using attempted(1,3) by (auto simp: row_step_def)
  note f = stampless_fields [OF d'(2)]
  have "consumes ?i (documents_shown (w_durable w)) (documents_shown (w_durable u))"
    unfolding row_step_shown [OF attempted(3,1)] using shown_Some [OF attempted(1)] attempted(2)
    by (simp add: processing_row_def shown_def consumes.take_up)
  then have "handled ?i 1 (w_durable w) (w_durable u)" by (rule handled_step)
  moreover have "handled ?i 1 (w_durable u) (w_durable w')"
    using pipeline_handled [OF attempted(8) d'(1)] f attempted(2) by (simp add: processing_row_def)
  ultimately show ?thesis using handled_trans [of ?i 1 _ _ 1] by (auto simp: numeral_2_eq_2)
qed (simp add: handled_same)

lemma run_once_handled:
  assumes "between_runs codec w" and "delivers codec E w"
  shows "\<exists>i. handled i 2 (w_durable w) (w_durable (snd (with_session (run_once E src jc) w)))"
proof -
  have start: "world_ok w" "w_work w = w_durable w" "sent_on_record codec w" using assms(1) by (simp_all add: between_runs_def)
  obtain q u where rc: "receive E None w = (q, u)" by fastforce
  have u: "same_stores w u" by (rule evolvesD [OF receive_same_stores rc])
  have "\<exists>i. handled i 2 (w_durable w) (w_durable (snd (run_once E src jc w)))"
  proof (cases "\<exists>r. q = Inr (Some r)")
    case False
    then have "snd (run_once E src jc w) = u" using rc by (auto simp: run_once_def bind_op_def ret_def split: sum.splits option.splits)
    with u show ?thesis by (simp add: same_stores_def handled_same)
  next
    case True
    then obtain r where r: "q = Inr (Some r)" by blast
    obtain d where d: "row_of (w_durable w) (ms_document_id (rc_message r)) = Some d" "doc_key d = (ms_sync_state_id (rc_message r), ms_drive_item_id (rc_message r))"
      using on_record_row [OF delivered_on_record [OF assms(2) start(3) rc [unfolded r]]] start(1) by (auto simp: world_ok_def)
    then have ag: "agrees (w_durable u) (rc_message r)" using u by (simp add: agrees_def same_stores_def)
    obtain x v where pr: "process E src jc r u = (x, v)" by fastforce
    have "handled (ms_document_id (rc_message r)) 2 (w_durable u) (w_durable v)"
      using u start by (intro process_handled [OF pr _ _ ag]) (auto simp: same_stores_def intro: world_ok_same)
    moreover have "w_durable (snd (run_once E src jc w)) = w_durable v"
    proof (cases x)
      case (Inl e)
      then show ?thesis using rc r pr by (simp add: run_once_def bind_op_def then_op_def)
    next
      case (Inr y)
      then have "snd (run_once E src jc w) = snd (delete E r v)" using rc r pr by (simp add: run_once_def bind_op_def then_op_def)
      then show ?thesis using delete_same_stores [of E r] by (simp add: evolves_def same_stores_def)
    qed
    ultimately show ?thesis using u by (auto simp: same_stores_def)
  qed
  then show ?thesis by (simp add: snd_with_session rollback_def modify_op_def)
qed

lemma walk_session_lives:
  assumes "evolves lives_on body" and "between_runs codec w"
  shows "lives (w_durable w) (w_durable (snd (with_session body w)))"
  using assms lives.S_refl by (simp add: evolves_def lives_on_def between_runs_def store_rel_def snd_with_session rollback_def modify_op_def)

lemma walker_lives:
  assumes "between_runs codec w"
  shows "lives (w_durable w) (w_durable (snd (walker_run E n w)))"
  using walker_session [of E n w] walk_session_lives [OF living.walk_frame assms, of E] walk_session_lives [OF living.fs_walk_frame assms, of E]
    walk_session_lives [OF living.blob_walk_frame assms, of E] lives.S_refl by metis

lemma processor_handled:
  assumes "between_runs codec w" and "delivers codec E w"
  shows "\<exists>i. handled i 2 (w_durable w) (w_durable (snd (processor_run E w)))"
  using processor_session [of E w] run_once_handled [OF assms] handled_same by metis

section \<open>Properties\<close>

text \<open>
  Every reachable deployment is consistent: after any sequence of walker runs, processor runs and
  operators' edits, each in an environment of its own that may fail it at any call, the schema's
  constraints hold, no transaction is open, and an item the queue can hand out names a row that exists
  and carries the item's key, so the processor's lookups by identifier and by key find the same row.
\<close>

lemma deployment_consistent:
  assumes "(deployment_step codec)\<^sup>*\<^sup>* empty_world w"
  shows "store_ok (w_durable w) \<and> w_work w = w_durable w
    \<and> (\<forall>(E :: job_env) r u. delivers codec E w \<and> receive E None w = (Inr (Some r), u) \<longrightarrow>
         (\<exists>d. row_of (w_durable w) (ms_document_id (rc_message r)) = Some d
            \<and> doc_key d = (ms_sync_state_id (rc_message r), ms_drive_item_id (rc_message r))))"
proof -
  have w: "between_runs codec w" using assms reachable_between_runs by (simp add: reachable_def)
  then have "store_ok (w_durable w)" by (simp add: between_runs_def world_ok_def)
  with w on_record_row [OF delivered_on_record] show ?thesis unfolding between_runs_def by blast
qed

text \<open>
  Claim C4. The jobs refine the life cycle of documents. In a reachable deployment a walker run, wherever it
  fails, amounts to steps that discover documents and queue again those that are not in flight; a
  processor run amounts to at most two steps, both of one document: taking it up and then classifying it or giving it
  up, or marking a labelled one completed. So no walker takes a document out of flight, no run changes the label or
  the category of a labelled document, and none classifies or gives up a document it did not take up.
\<close>

theorem jobs_refine_lifecycle:
  assumes "(deployment_step codec)\<^sup>*\<^sup>* empty_world w" and "delivers codec E w"
  shows "produces\<^sup>*\<^sup>* (documents_shown (w_durable w)) (documents_shown (w_durable (snd (walker_run (W :: job_env) fuel w))))
    \<and> (\<exists>i. \<exists>k \<le> 2. (consumes i ^^ k) (documents_shown (w_durable w)) (documents_shown (w_durable (snd (processor_run (E :: job_env) w)))))"
proof -
  have w: "between_runs codec w" using assms(1) reachable_between_runs by (simp add: reachable_def)
  from walker_lives [OF w] processor_handled [OF w assms(2)] show ?thesis by (simp add: lives_def handled_def)
qed

section \<open>Instances\<close>

text \<open>A codec: a string is preceded by its length in strokes, an integer is a sign and strokes.\<close>

definition put_string :: "string \<Rightarrow> string" where
  "put_string s = replicate (length s) CHR ''|'' @ CHR '','' # s"

definition get_string :: "string \<Rightarrow> string \<times> string" where
  "get_string c = (let n = length (takeWhile (\<lambda>x. x = CHR ''|'') c); rest = drop (n + 1) c in (take n rest, drop n rest))"

lemma get_put_string [simp]: "get_string (put_string s @ c) = (s, c)"
proof -
  have "takeWhile (\<lambda>x. x = CHR ''|'') (replicate n CHR ''|'' @ CHR '','' # d) = replicate n CHR ''|''" for n d
    by (induction n) auto
  then show ?thesis by (simp add: get_string_def put_string_def)
qed

definition put_int :: "int \<Rightarrow> string" where
  "put_int i = put_string ((if i < 0 then CHR ''-'' else CHR ''+'') # replicate (nat \<bar>i\<bar>) CHR ''1'')"

definition get_int :: "string \<Rightarrow> int \<times> string" where
  "get_int c = (case get_string c of (d, rest) \<Rightarrow> (if hd d = CHR ''-'' then - int (length d - 1) else int (length d - 1), rest))"

lemma get_put_int [simp]: "get_int (put_int i @ c) = (i, c)"
  by (simp add: get_int_def put_int_def)

fun source_number :: "message_source \<Rightarrow> int" where
  "source_number Ms_sharepoint = 0"
| "source_number Ms_filesystem = 1"
| "source_number Ms_blob = 2"

definition source_numbered :: "int \<Rightarrow> message_source" where
  "source_numbered i = (if i = 0 then Ms_sharepoint else if i = 1 then Ms_filesystem else Ms_blob)"

lemma source_numbered [simp]: "source_numbered (source_number s) = s"
  by (cases s) (simp_all add: source_numbered_def)

definition sample_codec :: "message \<Rightarrow> string" where
  "sample_codec m = put_int (source_number (ms_source m)) @ put_int (ms_document_id m) @ put_int (ms_sync_state_id m)
     @ put_string (ms_drive_id m) @ put_string (ms_drive_item_id m) @ put_string (ms_file_name m) @ put_string (ms_mime_type m)
     @ put_string (ms_content_hash m) @ put_int (ms_enqueued_at m) @ []"

definition sample_parse :: "string \<Rightarrow> message" where
  "sample_parse c0 = (let (src, c1) = get_int c0; (i, c2) = get_int c1; (sync, c3) = get_int c2; (drive, c4) = get_string c3;
     (item, c5) = get_string c4; (name, c6) = get_string c5; (mime, c7) = get_string c6; (h, c8) = get_string c7; (t, _) = get_int c8
   in \<lparr>ms_source = source_numbered src, ms_document_id = i, ms_sync_state_id = sync, ms_drive_id = drive, ms_drive_item_id = item,
       ms_file_name = name, ms_mime_type = mime, ms_content_hash = h, ms_enqueued_at = t\<rparr>)"

lemma sample_parse_codec: "sample_parse (sample_codec m) = m"
  unfolding sample_codec_def sample_parse_def Let_def using get_put_int [of "ms_enqueued_at m" "[]"] by simp

text \<open>A walker job over the sample tree, and a processor job that is handed a given body.\<close>

definition tree_job :: "string option \<Rightarrow> job_env" where
  "tree_job body = (sample_job full_environment)\<lparr>c_fs := (\<lambda>_. tree_files), m_dump := sample_codec, m_validate := (\<lambda>c. Inr (sample_parse c)),
     q_receive := (\<lambda>_ _. Inr (map_option (\<lambda>c. \<lparr>rm_id = ''m1'', rm_pop_receipt = ''p1'', rm_dequeue_count = 1, rm_content = c\<rparr>) body))\<rparr>"

lemma tree_job_services:
  "c_fs (tree_job b) = (\<lambda>_. tree_files)" "m_dump (tree_job b) = sample_codec" "db_fault (tree_job b) t = None"
  "q_send (tree_job b) t c = None" "q_delete (tree_job b) t i p = None" "db_now (tree_job b) = int" "py_now (tree_job b) = int"
  "pe_libs (tree_job b) = sample_libs" "m_validate (tree_job b) c = Inr (sample_parse c)"
  by (simp_all add: tree_job_def sample_job_def process_env.defs proc_env_def content_env.defs content_env_eval)

lemma tree_drive: "fs_drive_id tree_files (parse_path ''/data'') = ''filesystem:/data''"
  by (simp add: fs_drive_id_def tree_files_def tree_paths path_str_def)

definition tree_message :: message where
  "tree_message = \<lparr>ms_source = Ms_filesystem, ms_document_id = 1, ms_sync_state_id = 1, ms_drive_id = ''filesystem:/data'',
     ms_drive_item_id = ''a.txt'', ms_file_name = ''a.txt'', ms_mime_type = ''text/plain'', ms_content_hash = hash_bytes [104, 105],
     ms_enqueued_at = 9\<rparr>"

definition tree_found :: document_candidate where
  "tree_found = \<lparr>ca_drive_item_id = ''a.txt'', ca_content_hash = hash_bytes [104, 105], ca_file_name = Some ''a.txt'',
     ca_mime_type = Some ''text/plain'', ca_folder_path = None\<rparr>"

lemma tree_candidate:
  "fs_candidate (tree_job b) (parse_path ''/data'') (parse_path ''/data/a.txt'') w = (Inr tree_found, w\<lparr>w_tick := Suc (w_tick w)\<rparr>)"
  by (simp add: fs_candidate_def relative_to_def tree_paths read_file_def next_tick_def op_simps path_str_def tree_found_def
      tree_job_services tree_files_def parent_folder_def path_eval text_eval mime_type_for_suffix_def SUFFIX_TO_MIME_def empty_path_def)

lemma tree_walk:
  "\<exists>w'. fs_walk (tree_job b) (parse_path ''/data'') empty_world = (Inr Ws_completed, w')
    \<and> Sent (sample_codec tree_message) \<in> set (w_trace w') \<and> documents_shown (w_durable w') 1 = Some (Ds_queued, None, None)"
  by (simp add: fs_walk_def begin_walk_def insert_sync_def fs_process_def finish_walk_def set_sync_eq next_tick_def
      tree_job_services tree_documents tree_drive tree_candidate enqueue_eval empty_world_def empty_store_def new_sync_state_def
      queued_fields_def new_document_def tree_found_def build_message_def or_empty_def tree_message_def insert_document_def doc_key_def
      documents_shown_def shown_def row_of_def)

definition tree_walked :: world where
  "tree_walked = snd (walker_run (tree_job None) 0 empty_world)"

lemma tree_walked:
  "Sent (sample_codec tree_message) \<in> set (w_trace tree_walked)" "documents_shown (w_durable tree_walked) 1 = Some (Ds_queued, None, None)"
proof -
  let ?E = "tree_job None" and ?r = "parse_path ''/data''"
  obtain s where s: "job_settings ?E = Inr s" "st_source s = Filesystem" "st_filesystem s = Some \<lparr>fs_root = Some ?r\<rparr>"
    "st_queue s = Some \<lparr>qs_name = Some ''work'', qs_connection_string = Some ''UseDevelopmentStorage=true'', qs_account_url = None,
         qs_use_managed_identity = False\<rparr>" "st_database s = Some \<lparr>db_url = Some ''postgresql://db''\<rparr>"
    using full_settings by (auto simp: tree_job_def job_settings_def)
  have K: "jb_sdk ?E = sample_sdk" using sample_clients(1) by (simp add: tree_job_def)
  have clients: "walker_clients (jb_sdk ?E) s = Inr ()"
    by (simp add: K walker_clients_def service_clients_def queue_constructor_def bind_result_def s sample_clients not_blank_def)
  have "tree_walked = snd (with_session (fs_walk ?E ?r) empty_world)"
    using walker_body_amounts [OF s(1), of 0 empty_world] clients s(2-5)
    by (simp add: tree_walked_def walker_run_effect amounts_def walker_configured_def one_walk_def)
  moreover obtain w' where "fs_walk ?E ?r empty_world = (Inr Ws_completed, w')" and
    w': "Sent (sample_codec tree_message) \<in> set (w_trace w')" "documents_shown (w_durable w') 1 = Some (Ds_queued, None, None)"
    using tree_walk [of None] by blast
  ultimately have tw: "tree_walked = snd (rollback w')" by (simp add: snd_with_session)
  have "w_trace tree_walked = w_trace w' @ [RolledBack]" "w_durable tree_walked = w_durable w'"
    unfolding tw by (simp_all add: rollback_def modify_op_def)
  with w' show "Sent (sample_codec tree_message) \<in> set (w_trace tree_walked)"
    "documents_shown (w_durable tree_walked) 1 = Some (Ds_queued, None, None)" by simp_all
qed

lemma tree_run: "job_run sample_codec empty_world tree_walked"
  unfolding tree_walked_def by (rule job_run.walker) (simp add: tree_job_services)

lemma tree_delivers: "delivers sample_codec (tree_job (Some (sample_codec tree_message))) tree_walked"
  using tree_walked(1) by (auto simp: delivers_def tree_job_services sample_parse_codec) (auto simp: tree_job_def)

lemma deployment_consistent_example:
  "\<exists>d. row_of (w_durable tree_walked) 1 = Some d \<and> doc_key d = (1, ''a.txt'')"
proof -
  let ?E = "tree_job (Some (sample_codec tree_message))"
  have reach: "(deployment_step sample_codec)\<^sup>*\<^sup>* empty_world tree_walked"
    using deployment_step.job [OF tree_run] by (rule r_into_rtranclp)
  have "\<exists>r u. receive ?E None tree_walked = (Inr (Some r), u) \<and> rc_message r = tree_message"
    by (simp add: receive_def next_tick_def record_event_def op_simps tree_job_services sample_parse_codec)
      (simp add: tree_job_def record_event_def op_simps sample_parse_codec)
  with deployment_consistent [OF reach] tree_delivers show ?thesis
    by (fastforce simp: tree_message_def)
qed

theorem jobs_refine_lifecycle_witness:
  "documents_shown (w_durable tree_walked) 1 = Some (Ds_queued, None, None)
   \<and> (\<exists>i. \<exists>k \<le> 2. (consumes i ^^ k) (documents_shown (w_durable tree_walked))
        (documents_shown (w_durable (snd (processor_run (tree_job (Some (sample_codec tree_message))) tree_walked)))))"
proof -
  have "(deployment_step sample_codec)\<^sup>*\<^sup>* empty_world tree_walked"
    using deployment_step.job [OF tree_run] by (rule r_into_rtranclp)
  with jobs_refine_lifecycle [OF _ tree_delivers] tree_walked(2) show ?thesis by blast
qed

end
