(* ===== verification/EndToEnd.thy ===== *)
theory EndToEnd
  imports Deployment
begin

text \<open>
  From discovery to classification: a file the walker finds changed is queued, and the processor that is
  handed its message classifies it, when the services answer and the file stays as it is.
\<close>

section \<open>Queuing on services that answer\<close>

lemma healthy_query:
  assumes "healthy E" and "distinct (map key (table (w_work w)))"
  shows "\<exists>r. one_or_none E table (\<lambda>x. key x = k) w = (Inr r, w\<lparr>w_tick := Suc (w_tick w)\<rparr>)
    \<and> (r = None \<longrightarrow> k \<notin> key ` set (table (w_work w)))"
  using filter_key_cases [OF assms(2), of k] healthy_call [OF assms(1), of w]
  by (auto simp: one_or_none_def then_op_def bind_op_def gets_op_def ret_def filter_empty_conv)

lemma existing_returns:
  assumes "healthy E" and "world_ok w" and "sync \<in> ss_id ` set (t_sync_state (w_work w))"
  shows "\<exists>u. existing_document E sync item w = (Inr (lookup_document (w_work w) sync item), u)"
proof -
  have ok: "store_ok (w_work w)" using assms(2) by (simp add: world_ok_def)
  then obtain s where s: "one_or_none E t_sync_state (\<lambda>x. ss_id x = sync) w = (Inr (Some s), w\<lparr>w_tick := Suc (w_tick w)\<rparr>)"
    using healthy_query [OF assms(1), of ss_id t_sync_state w sync] assms(3) by (auto simp: store_ok_def)
  then have "load_sync E sync w = (Inr s, w\<lparr>w_tick := Suc (w_tick w)\<rparr>)"
    by (simp add: load_sync_def load_row_def bind_op_def ret_def)
  moreover from this have "ss_id s = sync" using load_row_Inr unfolding load_sync_def by metis
  ultimately obtain p u where "existing_document E sync item w = (Inr p, u)"
    using healthy_query [OF assms(1), of doc_key t_documents "w\<lparr>w_tick := Suc (w_tick w)\<rparr>" "(sync, item)"] ok
    by (auto simp: existing_document_def bind_op_def doc_key_def store_ok_def)
  with existing_document_result [OF this] show ?thesis by auto
qed

lemma enqueue_returns:
  assumes "healthy E" and "\<forall>t c. q_send E t c = None" and "world_ok w" and "sync \<in> ss_id ` set (t_sync_state (w_work w))"
  shows "\<exists>u. enqueue_if_needed E sync drive src c w = (Inr (), u)"
proof -
  note call = healthy_call [OF assms(1)]
  have "\<exists>x. commit E v = (Inr (), x)" for v using call by (simp add: commit_def then_op_def bind_op_def)
  moreover have "\<exists>x. enqueue E m v = (Inr (), x)" for m v
    using assms(2) by (simp add: enqueue_def next_tick_def record_event_def op_simps)
  ultimately have rest: "\<exists>x. bind_op (utc_now E) (\<lambda>t. let m = build_message d drive src t in then_op (commit E) (enqueue E m)) v = (Inr (), x)" for d v
    by (simp add: bind_op_def then_op_def utc_now_eq Let_def split: prod.split sum.split) (metis Inr_Inl_False prod.inject sum.inject(2))
  obtain u where ex: "existing_document E sync (ca_drive_item_id c) w = (Inr (lookup_document (w_work w) sync (ca_drive_item_id c)), u)"
    using existing_returns [OF assms(1,3,4)] by blast
  let ?p = "lookup_document (w_work w) sync (ca_drive_item_id c)"
  have u: "w_work u = w_work w" using existing_document_result [OF ex] by (simp add: only_reads_def same_stores_def)
  have "\<exists>d v. upsert_queued_row E sync c ?p u = (Inr d, v)"
  proof (cases ?p)
    case None
    let ?d = "queued_fields c (new_document sync (ca_drive_item_id c))"
    have "doc_key ?d \<notin> doc_key ` set (t_documents (w_work u))" "d_sync_state_id ?d \<in> ss_id ` set (t_sync_state (w_work u))"
      using None u assms(4) by (auto simp: lookup_document_def find_None_iff queued_fields_def new_document_def doc_key_def)
    then have "\<exists>i v. insert_document E ?d u = (Inr i, v)"
      using call [of u] by (simp add: insert_document_def then_op_def bind_op_def Let_def)
    then show ?thesis using None by (auto simp: upsert_queued_row_def Let_def bind_op_def ret_def)
  next
    case (Some p)
    then show ?thesis using call by (simp add: upsert_queued_row_def then_op_def bind_op_def set_document_eq flush_def ret_def)
  qed
  then obtain d v where "upsert_queued_row E sync c ?p u = (Inr d, v)" by blast
  with ex rest [of d v] show ?thesis
    by (cases "should_enqueue ?p (ca_content_hash c)") (simp_all add: enqueue_if_needed_def queue_document_def bind_op_def ret_def)
qed

text \<open>Queuing writes nothing to the audit log.\<close>

definition same_log :: "store \<Rightarrow> store \<Rightarrow> bool" where
  "same_log s t \<longleftrightarrow> t_processing_log t = t_processing_log s"

interpretation logged: store_preorder same_log
  by unfold_locales (simp_all add: same_log_def)

lemma enqueue_same_log: "evolves (store_rel same_log) (enqueue_if_needed E sync drive src c)"
  by (intro logged.enqueuing logged.setting_document logged.inserting_document) (simp_all add: same_log_def)

section \<open>Processing on services that answer\<close>

lemma classified_run:
  assumes healthy: "healthy P" "\<forall>t i p. q_delete P t i p = None"
    and w: "world_ok w" "w_work w = w_durable w" and rc: "receive P None w = (Inr (Some r), u)"
    and row: "row_of (w_durable w) (ms_document_id (rc_message r)) = Some d" "doc_key d = (ms_sync_state_id (rc_message r), ms_drive_item_id (rc_message r))"
      "d_classification_override d = None"
    and decided: "\<And>v. decide P src jc (rc_message r) v = Classified cls"
  shows "\<exists>v now. run_once P src jc w = (Inr (), v) \<and> Deleted (rc_message_id r) (rc_pop_receipt r) \<in> set (w_trace v) \<and> world_ok v
    \<and> row_step (ms_document_id (rc_message r)) (classified_row cls now) [completed_log (ms_document_id (rc_message r)) r cls] (w_durable w) (w_durable v)"
proof -
  let ?i = "ms_document_id (rc_message r)"
  have "same_stores w u" by (rule evolvesD [OF receive_same_stores rc])
  then have u: "world_ok u" "w_work u = w_durable u" "w_durable u = w_durable w"
    using w by (auto simp: same_stores_def intro: world_ok_same)
  have ag: "agrees (w_durable u) (rc_message r)" using row u by (simp add: agrees_def)
  obtain x v where pr: "process P src jc r u = (x, v)" by fastforce
  have "x = Inr () \<and> (\<exists>now. row_step ?i (classified_row cls now) [completed_log ?i r cls] (w_durable w) (w_durable v))"
    using pr u(1,2) ag
  proof (cases rule: process_cases)
    case (attempted d' y)
    note po = attempted(8) [unfolded pipeline_outcome_def decided]
    then have x: "x = Inr ()" using healthy(1) attempted(7) by simp
    then have "row_step ?i (excluded_onto (classification_record (rc_message r) cls) (db_now P (w_txn y))) [completed_log ?i r cls] (w_durable y) (w_durable v)"
      using po by (simp add: success_recorded_def Let_def)
    from classified_from [OF attempted(3) this] x u show ?thesis by auto
  qed (use healthy row u in auto)
  then obtain now where x: "x = Inr ()" and st: "row_step ?i (classified_row cls now) [completed_log ?i r cls] (w_durable w) (w_durable v)" by blast
  obtain z where del: "delete P r v = (Inr (), z)" "same_stores v z" "Deleted (rc_message_id r) (rc_pop_receipt r) \<in> set (w_trace z)"
    using healthy(2) by (simp add: delete_def next_tick_def record_event_def op_simps same_stores_def)
  have run: "run_once P src jc w = (Inr (), z)" using rc pr x del(1) by (simp add: run_once_def run_simps)
  have "world_ok z" using evolvesD [OF ok_frame.run_once_frame run] w(1) by (simp add: keeps_def)
  with run st del show ?thesis by (auto simp: same_stores_def)
qed

lemma decided_from_file:
  assumes "\<And>v. fs_download P r m v = (Inr data, v\<lparr>w_tick := Suc (w_tick v)\<rparr>)" and "ms_content_hash m = hash_bytes data"
    and "extract_text_from_bytes (pe_libs P) data (ms_mime_type m) = Inr t" and "jev_classify (float_repr P) jc t = Inr cls"
  shows "decide P (FilesystemContentSource r) jc m w = Classified cls"
  using assms by (simp add: decide_def fs_fetch_content_hash_def bind_op_def ret_def)

lemma classified_fields:
  assumes "stampless d' = stampless (classified_row c now d)"
  shows "doc_key d' = doc_key d" "d_status d' = Ds_completed" "d_category d' = Some (cl_category c)"
    "d_confidence d' = Some (cl_confidence c)" "d_content_hash d' = d_content_hash d"
  using assms by (cases d'; cases d; simp add: stampless_def classified_row_def doc_key_def)+

lemma completed_log_fields:
  assumes "unstamped k = unstamped (completed_log i r c)"
  shows "pl_document_id k = i" "pl_status k = ''completed''" "pl_category k = Some (cl_category c)"
    "pl_confidence k = Some (cl_confidence c)" "pl_error k = None"
  using assms by (cases k; simp add: unstamped_def completed_log_def new_processing_log_def LOG_COMPLETED_def)+

section \<open>Properties\<close>

text \<open>
  Claim C5. A discovered file is classified: when a walk comes to a file of the mounted directory that
  has no row, or one that is neither in flight nor labelled and is \<open>pending\<close> or shows another content, and the
  database and the queue answer, the step of the walk for that file queues it and returns; and the processor
  that is handed what this step sent, with services that answer and the file unchanged, returns, leaving the file's
  row completed under the file's hash with the category and the confidence of the classification, exactly
  one new audit row, which records this completion, and the message deleted.
\<close>

theorem discovered_file_classified:
  assumes walker: "\<forall>t. db_fault E t = None" "\<forall>t c. q_send E t c = None" "\<forall>t. c_fs E t = F"
    and processor: "\<forall>t. db_fault P t = None" "\<forall>t i p. q_delete P t i p = None" "\<forall>t. c_fs P t = F"
    and path: "path = path_join r relative" "\<not> is_absolute relative" "\<forall>x \<in> set (path_parts relative). proper_part x"
    and resolved: "fs_resolve F path = fs_resolve F r \<or> in_parents (fs_resolve F r) (fs_resolve F path)"
      "fs_read_bytes F (fs_resolve F path) = fs_read_bytes F path" "fs_read_bytes F path = Inr data"
    and start: "world_ok w" "w_work w = w_durable w" "sync \<in> ss_id ` set (t_sync_state (w_durable w))"
    and wanted: "case lookup_document (w_durable w) sync (path_str relative) of None \<Rightarrow> True
      | Some p \<Rightarrow> d_status p \<notin> {Ds_queued, Ds_processing} \<and> (d_status p = Ds_pending \<or> d_content_hash p \<noteq> Some (hash_bytes data))
          \<and> d_classification_override p = None"
    and classifies: "extract_text_from_bytes (pe_libs P) data (or_empty (mime_type_for_suffix (path_suffix path))) = Inr t"
      "jev_classify (float_repr P) jc t = Inr cls"
    and walked: "fs_process E r drive sync path w = (res, u)"
    and handed: "\<forall>m. m_validate P (m_dump E m) = Inr m"
      "\<forall>t v. \<exists>raw. q_receive P t v = Inr (Some raw) \<and> Sent (rm_content raw) \<in> set (drop (length (w_trace w)) (w_trace u))"
    and ran: "with_session (run_once P (FilesystemContentSource r) jc) u = (res', v)"
  shows "res = Inr () \<and> res' = Inr () \<and> (\<exists>d i p. lookup_document (w_durable v) sync (path_str relative) = Some d
    \<and> d_status d = Ds_completed \<and> d_category d = Some (cl_category cls) \<and> d_confidence d = Some (cl_confidence cls)
    \<and> d_content_hash d = Some (hash_bytes data) \<and> Deleted i p \<in> set (w_trace v)
    \<and> (\<exists>k. t_processing_log (w_durable v) = t_processing_log (w_durable w) @ [k] \<and> pl_document_id k = d_id d \<and> pl_status k = ''completed''
        \<and> pl_category k = Some (cl_category cls) \<and> pl_confidence k = Some (cl_confidence cls) \<and> pl_error k = None))"
proof -
  let ?item = "path_str relative"
  let ?c = "\<lparr>ca_drive_item_id = ?item, ca_content_hash = hash_bytes data, ca_file_name = Some (path_name path),
    ca_mime_type = mime_type_for_suffix (path_suffix path), ca_folder_path = parent_folder relative\<rparr>"
  let ?w = "w\<lparr>w_tick := Suc (w_tick w)\<rparr>" and ?prior = "lookup_document (w_durable w) sync ?item"
  note seen = fs_file_seen [OF _ path resolved]
  have enq: "enqueue_if_needed E sync drive Ms_filesystem ?c ?w = (res, u)"
    using walked by (simp add: fs_process_def bind_op_def seen(1) [OF walker(3)])
  have "world_ok ?w" using start(1) by (auto intro: world_ok_same)
  then have w: "world_ok ?w" "store_ok (w_work ?w)" "sync \<in> ss_id ` set (t_sync_state (w_work ?w))"
    using start by (simp_all add: world_ok_def)
  have res: "res = Inr ()"
    using enqueue_returns [OF _ walker(2) w(1,3), of drive Ms_filesystem ?c] walker(1) enq by (simp add: healthy_def)
  have "needs_queuing ?prior (hash_bytes data)" using wanted by (auto simp: needs_queuing_def split: option.splits)
  then have "queuing_outcome E sync drive Ms_filesystem ?c ?prior ?w (Inr ()) u"
    using enqueue_outcome [OF w(2) refl enq] start(2) res by simp
  then obtain row s where row: "lookup_document (w_durable u) sync ?item = Some row" "queued_from sync ?c ?prior row"
      "w_work u = w_durable u" "w_trace u = w_trace w @ [Committed (w_durable u), Sent (m_dump E (work_item row drive Ms_filesystem ?c s))]"
    by (auto simp: queuing_outcome_def)
  let ?m = "work_item row drive Ms_filesystem ?c s"
  have u: "world_ok u" using evolvesD [OF enqueue_keeps_world_ok enq] w(1) by (simp add: keeps_def)
  have rowf: "row \<in> set (t_documents (w_durable u))" "doc_key row = (sync, ?item)" "d_content_hash row = Some (hash_bytes data)"
    "d_classification_override row = None"
    using lookup_document_Some [OF row(1)] row(2) wanted by (auto simp: queued_from_def split: option.splits)
  obtain raw where raw: "q_receive P (w_tick u) None = Inr (Some raw)" "rm_content raw = m_dump E ?m"
    using handed(2) row(4) by fastforce
  obtain rc x where rc: "receive P None u = (Inr (Some rc), x)" "rc_message rc = ?m"
    using raw handed(1) by (simp add: receive_def next_tick_def record_event_def op_simps)
  have m: "ms_document_id ?m = d_id row" "ms_sync_state_id ?m = sync" "ms_drive_item_id ?m = ?item" "ms_content_hash ?m = hash_bytes data"
    "ms_mime_type ?m = or_empty (mime_type_for_suffix (path_suffix path))"
    using rowf(2) by (simp_all add: work_item_def doc_key_def)
  have "row_of (w_durable u) (d_id row) = Some row"
    using u rowf(1) by (simp add: world_ok_def row_of_member)
  moreover have "decide P (FilesystemContentSource r) jc ?m v = Classified cls" for v
    using seen(2) [OF processor(3) m(3)] classifies m(4,5) by (intro decided_from_file) simp_all
  ultimately obtain z now where z: "run_once P (FilesystemContentSource r) jc u = (Inr (), z)"
      "Deleted (rc_message_id rc) (rc_pop_receipt rc) \<in> set (w_trace z)" "world_ok z"
    and st: "row_step (d_id row) (classified_row cls now) [completed_log (d_id row) rc cls] (w_durable u) (w_durable z)"
    using classified_run [OF _ processor(2) u row(3) rc(1), of row "FilesystemContentSource r" jc cls] rc(2) m rowf processor(1)
    by (auto simp: healthy_def)
  obtain d' where d': "row_of (w_durable z) (d_id row) = Some d'" "stampless d' = stampless (classified_row cls now row)"
    using st \<open>row_of (w_durable u) (d_id row) = Some row\<close> by (auto simp: row_step_def)
  note f = classified_fields [OF d'(2)]
  have "d' \<in> set (t_documents (w_durable z))" using d'(1) find_key_Some [where key = d_id] unfolding row_of_def by blast
  then have "lookup_document (w_durable z) sync ?item = Some d'"
    using z(3) f(1) rowf(2) by (intro lookup_distinct) (simp_all add: world_ok_def)
  moreover have "res' = Inr ()" "w_durable v = w_durable z" "Deleted (rc_message_id rc) (rc_pop_receipt rc) \<in> set (w_trace v)"
    using ran z(1,2) by (auto simp: with_session_def rollback_def modify_op_def)
  moreover have "t_processing_log (w_durable u) = t_processing_log (w_durable w)"
    using evolvesD [OF enqueue_same_log enq] start(2) by (auto simp: store_rel_def same_log_def)
  then obtain k where k: "t_processing_log (w_durable z) = t_processing_log (w_durable w) @ [k]"
      "unstamped k = unstamped (completed_log (d_id row) rc cls)"
    using st by (auto simp: row_step_def)
  moreover have "d_id d' = d_id row" using d'(1) find_key_Some [where key = d_id] \<open>row_of (w_durable u) (d_id row) = Some row\<close>
    unfolding row_of_def by metis
  ultimately show ?thesis using res f rowf(3) completed_log_fields [OF k(2)] by auto
qed

text \<open>The sample tree, whose file an operator reset.\<close>

definition reset_store :: store where
  "reset_store = tree_store\<lparr>t_documents := [(new_document 1 ''a.txt'')\<lparr>d_id := 1, d_content_hash := Some ''h0'', d_status := Ds_pending\<rparr>]\<rparr>"

definition reset_world :: world where
  "reset_world = tree_world\<lparr>w_durable := reset_store, w_work := reset_store\<rparr>"

lemma reset_world_ok: "world_ok reset_world" "w_work reset_world = w_durable reset_world"
  by (simp_all add: reset_world_def reset_store_def tree_world_def tree_store_def empty_world_def world_ok_def store_ok_def
      below_sequences_def new_sync_state_def new_document_def doc_key_def)

lemma reset_log: "t_processing_log (w_durable reset_world) = []"
  by (simp add: reset_world_def reset_store_def tree_store_def)

lemma tree_mime: "or_empty (mime_type_for_suffix (path_suffix (parse_path ''/data/a.txt''))) = ''text/plain''"
  by (simp add: tree_paths path_eval text_eval mime_type_for_suffix_def SUFFIX_TO_MIME_def or_empty_def)

lemma reset_enqueued:
  "\<exists>u body. fs_process (tree_job None) (parse_path ''/data'') ''filesystem:/data'' 1 (parse_path ''/data/a.txt'') reset_world = (Inr (), u)
     \<and> Sent body \<in> set (drop (length (w_trace reset_world)) (w_trace u))"
  by (simp add: fs_process_def tree_candidate bind_op_def tree_found_def tree_job_services reset_world_def reset_store_def tree_world_def
      tree_store_def empty_world_def new_sync_state_def new_document_def enqueue_eval)

theorem discovered_file_classified_witness:
  "\<exists>body u v d. fs_process (tree_job None) (parse_path ''/data'') ''filesystem:/data'' 1 (parse_path ''/data/a.txt'') reset_world = (Inr (), u)
    \<and> with_session (run_once (tree_job (Some body)) (FilesystemContentSource (parse_path ''/data'')) proc_classifier) u = (Inr (), v)
    \<and> lookup_document (w_durable v) 1 ''a.txt'' = Some d \<and> d_category d = Some ''Invoice'' \<and> d_content_hash d = Some (hash_bytes [104, 105])
    \<and> map pl_category (t_processing_log (w_durable v)) = [Some ''Invoice'']"
proof -
  obtain u body where run: "fs_process (tree_job None) (parse_path ''/data'') ''filesystem:/data'' 1 (parse_path ''/data/a.txt'') reset_world = (Inr (), u)"
    and body: "Sent body \<in> set (drop (length (w_trace reset_world)) (w_trace u))" using reset_enqueued by blast
  let ?E = "tree_job None" and ?P = "tree_job (Some body)" and ?q = "PPath [] [''a.txt'']"
  obtain res' v where ran: "with_session (run_once ?P (FilesystemContentSource (parse_path ''/data'')) proc_classifier) u = (res', v)" by fastforce
  have item: "path_str ?q = ''a.txt''" by (simp add: path_str_def)
  have path: "parse_path ''/data/a.txt'' = path_join (parse_path ''/data'') ?q" "\<not> is_absolute ?q" "\<forall>x \<in> set (path_parts ?q). proper_part x"
    by (simp_all add: tree_paths path_join_def is_absolute_def proper_part_def)
  have resolved: "fs_resolve tree_files (parse_path ''/data/a.txt'') = fs_resolve tree_files (parse_path ''/data'')
      \<or> in_parents (fs_resolve tree_files (parse_path ''/data'')) (fs_resolve tree_files (parse_path ''/data/a.txt''))"
    "fs_read_bytes tree_files (fs_resolve tree_files (parse_path ''/data/a.txt'')) = fs_read_bytes tree_files (parse_path ''/data/a.txt'')"
    "fs_read_bytes tree_files (parse_path ''/data/a.txt'') = Inr [104, 105]"
    by (simp_all add: tree_files_def tree_paths in_parents_def)
  have sync: "1 \<in> ss_id ` set (t_sync_state (w_durable reset_world))"
    by (simp add: reset_world_def reset_store_def tree_store_def new_sync_state_def)
  have wanted: "case lookup_document (w_durable reset_world) 1 (path_str ?q) of None \<Rightarrow> True
      | Some p \<Rightarrow> d_status p \<notin> {Ds_queued, Ds_processing} \<and> (d_status p = Ds_pending \<or> d_content_hash p \<noteq> Some (hash_bytes [104, 105]))
          \<and> d_classification_override p = None"
    by (simp add: item reset_world_def reset_store_def lookup_document_def new_document_def doc_key_def)
  have classifies: "extract_text_from_bytes (pe_libs ?P) [104, 105] (or_empty (mime_type_for_suffix (path_suffix (parse_path ''/data/a.txt'')))) = Inr [104, 105]"
    by (simp add: tree_job_services tree_mime proc_extracts)
  have handed: "\<forall>m. m_validate ?P (m_dump ?E m) = Inr m"
    "\<forall>t v. \<exists>raw. q_receive ?P t v = Inr (Some raw) \<and> Sent (rm_content raw) \<in> set (drop (length (w_trace reset_world)) (w_trace u))"
    using body by (simp_all add: tree_job_services sample_parse_codec) (simp add: tree_job_def)
  from discovered_file_classified [OF _ _ _ _ _ _ path resolved reset_world_ok sync wanted classifies proc_classifies run handed ran]
  obtain d where "res' = Inr ()" "lookup_document (w_durable v) 1 ''a.txt'' = Some d" "d_category d = Some ''Invoice''"
      "d_content_hash d = Some (hash_bytes [104, 105])" "map pl_category (t_processing_log (w_durable v)) = [Some ''Invoice'']"
    by (auto simp: tree_job_services item reset_log)
  with run ran show ?thesis
    by (intro exI [of _ body] exI [of _ u] exI [of _ v] exI [of _ d]) simp
qed

end
