(* ===== verification/Transactions.thy ===== *)
theory Transactions
  imports Deployment
begin

text \<open>
  Jobs at the same time. A job acts on the store by transactions; between two of them any other job and
  any operator may act. The code's runs are cut at their commits: a walk (\<^verbatim>\<open>src/walker.py\<close>,
  \<^verbatim>\<open>src/filesystem_walker.py\<close>, \<^verbatim>\<open>src/blob_walker.py\<close>) begins, enqueues item by item and ends, and a run of the
  processor (\<^verbatim>\<open>src/processor.py\<close>) goes through stages. A run may also crash between two of its transactions.
  Each transaction is atomic, as under serializable isolation.
\<close>

section \<open>The stages of a processor run\<close>

text \<open>The first transaction of \<^verbatim>\<open>process\<close>: a labelled row is settled at once, another one is marked.\<close>

definition take_up :: "'z process_env_scheme \<Rightarrow> received_message \<Rightarrow> int option job" where
  "take_up E r = bind_op (document_of_message E (rc_message r)) (\<lambda>d.
     if d_classification_override d \<noteq> None then then_op (record_override E d r) (ret None)
     else then_op (set_document E (d_id d) (\<lambda>x. x\<lparr>d_status := Ds_processing\<rparr>))
       (then_op (commit_state E []) (ret (Some (d_id d)))))"

text \<open>The \<^verbatim>\<open>try\<close> of \<^verbatim>\<open>_run_pipeline\<close>, with its handlers.\<close>

definition classify_item ::
  "'z process_env_scheme \<Rightarrow> content_source \<Rightarrow> jev_classifier \<Rightarrow> int \<Rightarrow> received_message \<Rightarrow> classification option job" where
  "classify_item E src jc i r = catch_op (attempt E src jc i (rc_message r) r) (\<lambda>err.
     if is_unsupported err then then_op (record_skipped E i r (unsupported_reason (rc_message r) err)) (ret None)
     else if is_attempt_failure err then then_op (record_failure E i r err) (throw err)
     else throw err)"

text \<open>The second transaction of \<^verbatim>\<open>_record_success\<close>.\<close>

definition log_success :: "'z process_env_scheme \<Rightarrow> int \<Rightarrow> received_message \<Rightarrow> classification \<Rightarrow> unit job" where
  "log_success E i r c = bind_op (load_document E i) (\<lambda>d.
     then_op (commit_state E [completed_log (d_id d) r c]) (log_document E i))"

datatype stage = Fresh | Marked int | Labelled int classification | Written int classification | Settled

record run =
  rn_env :: job_env
  rn_source :: content_source
  rn_classifier :: jev_classifier
  rn_item :: received_message
  rn_stage :: stage

definition next_stage :: "run \<Rightarrow> stage option job" where
  "next_stage p = (let E = rn_env p; r = rn_item p in
     case rn_stage p of
       Fresh \<Rightarrow> bind_op (take_up E r) (\<lambda>i. ret (Some (case i of None \<Rightarrow> Settled | Some i \<Rightarrow> Marked i)))
     | Marked i \<Rightarrow> bind_op (classify_item E (rn_source p) (rn_classifier p) i r) (\<lambda>c.
         ret (Some (case c of None \<Rightarrow> Settled | Some c \<Rightarrow> Labelled i c)))
     | Labelled i c \<Rightarrow> then_op (db_write E (classification_record (rc_message r) c)) (ret (Some (Written i c)))
     | Written i c \<Rightarrow> then_op (log_success E i r c) (ret (Some Settled))
     | Settled \<Rightarrow> then_op (delete E r) (ret None))"

text \<open>The stages one after another; a run has at most five.\<close>

fun carry_on :: "nat \<Rightarrow> run \<Rightarrow> unit job" where
  "carry_on 0 p = ret ()"
| "carry_on (Suc n) p = bind_op (next_stage p) (\<lambda>s.
     case s of None \<Rightarrow> ret () | Some s' \<Rightarrow> carry_on n (p\<lparr>rn_stage := s'\<rparr>))"

lemma record_success_stages:
  "record_success E i (rc_message r) r c = then_op (db_write E (classification_record (rc_message r) c)) (log_success E i r c)"
  by (simp add: record_success_def log_success_def)

lemma run_pipeline_stages:
  "run_pipeline E src jc i (rc_message r) r = bind_op (classify_item E src jc i r) (\<lambda>c.
     case c of None \<Rightarrow> ret () | Some c \<Rightarrow> record_success E i (rc_message r) r c)"
  by (simp add: run_pipeline_def classify_item_def)

lemma bind_unit: "bind_op m (\<lambda>_. ret ()) = m"
  by (auto simp: bind_op_def ret_def fun_eq_iff split: prod.splits sum.splits)

lemma process_stages:
  "process E src jc r = bind_op (take_up E r) (\<lambda>i. case i of None \<Rightarrow> ret () | Some i \<Rightarrow> run_pipeline E src jc i (rc_message r) r)"
proof -
  have "bind_op (if b then m else n) f = (if b then bind_op m f else bind_op n f)" for b and m n :: "int option job" and f :: "_ \<Rightarrow> unit job"
    by simp
  then show ?thesis by (simp add: process_def take_up_def Let_def bind_op_assoc then_op_def bind_unit cong: if_cong)
qed

text \<open>A run left alone is the run of the code.\<close>

lemma carry_on_stages:
  fixes E src jc r
  defines "run \<equiv> \<lambda>st. \<lparr>rn_env = E, rn_source = src, rn_classifier = jc, rn_item = r, rn_stage = st\<rparr>"
  shows "carry_on (Suc n) (run Settled) = delete E r"
    and "carry_on (Suc n) (run (Written i c)) = then_op (log_success E i r c) (carry_on n (run Settled))"
    and "carry_on (Suc n) (run (Labelled i c)) = then_op (db_write E (classification_record (rc_message r) c)) (carry_on n (run (Written i c)))"
    and "carry_on (Suc n) (run (Marked i)) = bind_op (classify_item E src jc i r) (\<lambda>c. carry_on n (run (case c of None \<Rightarrow> Settled | Some c \<Rightarrow> Labelled i c)))"
    and "carry_on (Suc n) (run Fresh) = bind_op (take_up E r) (\<lambda>i. carry_on n (run (case i of None \<Rightarrow> Settled | Some i \<Rightarrow> Marked i)))"
  by (simp_all add: run_def next_stage_def Let_def then_op_def bind_op_assoc bind_unit)

lemma carry_on_labelled:
  "carry_on 3 \<lparr>rn_env = E, rn_source = src, rn_classifier = jc, rn_item = r, rn_stage = Labelled i c\<rparr>
     = then_op (record_success E i (rc_message r) r c) (delete E r)"
  unfolding record_success_stages numeral_3_eq_3 by (simp add: carry_on_stages then_op_def bind_op_assoc del: carry_on.simps)

lemma run_once_stages:
  "run_once E src jc = bind_op (receive E None) (\<lambda>received. case received of None \<Rightarrow> ret ()
     | Some r \<Rightarrow> carry_on 5 \<lparr>rn_env = E, rn_source = src, rn_classifier = jc, rn_item = r, rn_stage = Fresh\<rparr>)"
proof -
  let ?run = "\<lambda>r st. \<lparr>rn_env = E, rn_source = src, rn_classifier = jc, rn_item = r, rn_stage = st\<rparr>"
  note labelled = carry_on_labelled
  have marked: "carry_on 4 (?run r (Marked i)) = then_op (run_pipeline E src jc i (rc_message r) r) (delete E r)" for r i
  proof -
    have "carry_on 3 (?run r (case c of None \<Rightarrow> Settled | Some c \<Rightarrow> Labelled i c))
        = then_op (case c of None \<Rightarrow> ret () | Some c \<Rightarrow> record_success E i (rc_message r) r c) (delete E r)" for c
      using labelled carry_on_stages(1) [of 2] by (cases c) (simp_all add: then_op_def numeral_3_eq_3 numeral_2_eq_2 del: carry_on.simps)
    then show ?thesis
      using carry_on_stages(4) [of 3] by (simp add: run_pipeline_stages then_op_def bind_op_assoc del: carry_on.simps)
  qed
  have "carry_on 5 (?run r Fresh) = then_op (process E src jc r) (delete E r)" for r
  proof -
    have "carry_on 4 (?run r (case i of None \<Rightarrow> Settled | Some i \<Rightarrow> Marked i))
        = then_op (case i of None \<Rightarrow> ret () | Some i \<Rightarrow> run_pipeline E src jc i (rc_message r) r) (delete E r)" for i
      using marked carry_on_stages(1) [of 3] by (cases i) (simp_all add: then_op_def del: carry_on.simps)
    then show ?thesis
      using carry_on_stages(5) [of 4] by (simp add: process_stages then_op_def bind_op_assoc del: carry_on.simps)
  qed
  then show ?thesis by (simp add: run_once_def cong: option.case_cong)
qed

section \<open>What a transaction leaves\<close>

text \<open>
  Between transactions the session has nothing pending: its working store is the durable one. \<open>cleans P m\<close>:
  from a world with \<open>P\<close>, \<open>m\<close> leaves it so whenever it returns. When it raises, the session is closed.
\<close>

definition clean :: "world \<Rightarrow> bool" where
  "clean w \<longleftrightarrow> w_work w = w_durable w"

definition cleans :: "(world \<Rightarrow> bool) \<Rightarrow> 'a job \<Rightarrow> bool" where
  "cleans P m \<longleftrightarrow> (\<forall>w x u. P w \<longrightarrow> m w = (Inr x, u) \<longrightarrow> clean u)"

definition transaction :: "'a job \<Rightarrow> world \<Rightarrow> world" where
  "transaction m w = (case m w of (Inl e, u) \<Rightarrow> snd (rollback u) | (Inr x, u) \<Rightarrow> u)"

abbreviation anywhere :: "world \<Rightarrow> bool" where "anywhere \<equiv> \<lambda>_. True"

named_theorems clean_intros "introduction rules for operations that leave nothing pending"

lemma cleansD: "cleans P m \<Longrightarrow> P w \<Longrightarrow> m w = (Inr x, u) \<Longrightarrow> clean u"
  by (auto simp: cleans_def)

lemma clean_rollback: "clean (snd (rollback w))"
  by (simp add: clean_def rollback_def modify_op_def)

lemma cleans_anywhere: "cleans anywhere m \<Longrightarrow> cleans P m"
  by (auto simp: cleans_def)

lemma cleans_commit [clean_intros]: "cleans P (commit E)"
  unfolding cleans_def clean_def
proof (intro allI impI)
  fix w u :: world and x assume "commit E w = (Inr x, u)"
  from commit_result [OF this] show "w_work u = w_durable u" by auto
qed

lemma cleans_reads: "evolves only_reads m \<Longrightarrow> cleans clean m"
  unfolding cleans_def clean_def by (metis evolvesD only_reads_stores)

lemma cleans_ret [clean_intros]: "cleans clean (ret x)"
  by (rule cleans_reads) (rule evolves_ret [OF preorder_only_reads])

lemma cleans_throw [clean_intros]: "cleans P (throw e)"
  by (simp add: cleans_def throw_def)

lemma cleans_bind [clean_intros]:
  assumes "cleans P m" and "\<And>x. cleans clean (f x)"
  shows "cleans P (bind_op m f)"
  using assms unfolding cleans_def by (fastforce elim: bind_op_eqE)

lemma cleans_bind_last:
  assumes "\<And>x. cleans anywhere (f x)"
  shows "cleans P (bind_op m f)"
  using assms unfolding cleans_def by (fastforce elim: bind_op_eqE)

lemma cleans_then [clean_intros]: "cleans P m \<Longrightarrow> cleans clean n \<Longrightarrow> cleans P (then_op m n)"
  unfolding then_op_def by (rule cleans_bind)

lemma cleans_then_last: "cleans anywhere n \<Longrightarrow> cleans P (then_op m n)"
  unfolding then_op_def by (rule cleans_bind_last)

lemma cleans_catch [clean_intros]:
  assumes "cleans P m" and "\<And>e. cleans anywhere (h e)"
  shows "cleans P (catch_op m h)"
  unfolding cleans_def
proof (intro allI impI)
  fix w x u assume "P w" and "catch_op m h w = (Inr x, u)"
  then show "clean u" using assms unfolding cleans_def by (cases "m w"; cases "fst (m w)") (auto simp: catch_op_def)
qed

lemma cleans_if [clean_intros]: "cleans P m \<Longrightarrow> cleans P n \<Longrightarrow> cleans P (if b then m else n)"
  by simp

lemma cleans_rollback [clean_intros]: "cleans anywhere rollback"
  unfolding cleans_def by (metis clean_rollback snd_conv)

lemma cleans_persistence [clean_intros]: "cleans anywhere (rollback_to_persistence m e)"
  unfolding rollback_to_persistence_def by (intro cleans_if cleans_then_last cleans_throw)

lemma cleans_commit_state [clean_intros]: "cleans P (commit_state E ls)"
  unfolding commit_state_def by (intro cleans_catch cleans_then_last cleans_commit cleans_persistence)

lemma cleans_db_write [clean_intros]: "cleans P (db_write E r)"
  unfolding db_write_def by (intro cleans_catch cleans_then_last cleans_commit cleans_persistence)

lemma cleans_enqueue: "cleans clean (enqueue E m)"
proof -
  have "same_stores w u" if "enqueue E m w = (Inr x, u)" for w x u
    using that by (auto simp: enqueue_def next_tick_def record_event_def op_simps same_stores_def split: option.splits)
  then show ?thesis unfolding cleans_def clean_def same_stores_def by metis
qed

text \<open>The stages of the processor and the pieces of a walk leave nothing pending.\<close>

lemma reads_log_document: "evolves only_reads (log_document E i)"
  unfolding log_document_def by (intro evolve_intros preorder_only_reads)

lemma cleans_log_document [clean_intros]: "cleans clean (log_document E i)"
  by (rule cleans_reads [OF reads_log_document])

lemma cleans_recording [clean_intros]:
  "cleans P (record_override E d r)" "cleans P (record_skipped E i r reason)" "cleans P (record_failure E i r err)" "cleans P (log_success E i r c)"
  unfolding record_override_def record_skipped_def record_failure_def log_success_def
  by (rule cleans_then_last cleans_bind_last cleans_then clean_intros)+

lemma cleans_take_up: "cleans clean (take_up E r)"
proof -
  have "evolves only_reads (document_of_message E m)" for m
    unfolding document_of_message_def by (intro evolve_intros preorder_only_reads)
  then show ?thesis unfolding take_up_def
    by (intro cleans_bind [OF cleans_reads] cleans_if cleans_then [OF cleans_recording(1) cleans_ret]
        cleans_then_last [OF cleans_then [OF cleans_commit_state cleans_ret]])
qed

lemma cleans_classify_item: "cleans clean (classify_item E src jc i r)"
proof -
  have "cleans clean (attempt E src jc i m r)" for m
    unfolding attempt_def
    by (intro cleans_bind cleans_if cleans_then cleans_reads [OF retrieval.fetch_reads] cleans_reads [OF retrieval.load_reads]
        cleans_reads [OF evolves_lift [OF preorder_only_reads]] cleans_recording cleans_ret)
  then show ?thesis unfolding classify_item_def
    by (intro cleans_catch cleans_if cleans_then cleans_recording cleans_ret cleans_throw)
qed

lemma cleans_next_stage: "cleans clean (next_stage p)"
proof -
  have "cleans clean (delete E r)" for E :: job_env and r
    unfolding cleans_def clean_def by (metis delete_same_stores evolvesD same_stores_def)
  then show ?thesis unfolding next_stage_def Let_def
    by (cases "rn_stage p")
      (auto intro!: cleans_bind cleans_then cleans_take_up cleans_classify_item clean_intros)
qed

lemma cleans_enqueue_if_needed: "cleans clean (enqueue_if_needed E sync d src c)"
proof -
  have "evolves only_reads (existing_document E sync i)" for i
    unfolding existing_document_def by (intro evolve_intros preorder_only_reads)
  then show ?thesis unfolding enqueue_if_needed_def queue_document_def Let_def
    by (intro cleans_bind cleans_reads cleans_if cleans_ret cleans_bind_last [of "\<lambda>d. bind_op (utc_now E) _"] cleans_bind_last
        cleans_then [OF cleans_commit cleans_enqueue])
qed

lemma cleans_walk_pieces:
  "cleans clean (begin_walk E d)" "cleans clean (complete_walk E sync link)" "cleans clean (interrupt_walk E sync link)" "cleans clean (finish_walk E sync)"
  unfolding complete_walk_def interrupt_walk_def finish_walk_def
  by (auto simp: begin_walk_def intro!: cleans_bind cleans_reads [OF reads_query] cleans_bind_last cleans_then_last cleans_then [OF cleans_commit cleans_ret]
      split: option.split)

section \<open>A job is a sequence of its transactions\<close>

text \<open>
  \<open>transacts T m\<close>: with nothing pending, \<open>m\<close> amounts to steps of \<open>T\<close>; when it raises, to steps of \<open>T\<close> up to the
  closing of its session.
\<close>

definition transacts :: "(world \<Rightarrow> world \<Rightarrow> bool) \<Rightarrow> 'a job \<Rightarrow> bool" where
  "transacts T m \<longleftrightarrow> (\<forall>w. clean w \<longrightarrow>
     (case m w of (Inl e, u) \<Rightarrow> T\<^sup>*\<^sup>* w (snd (rollback u)) | (Inr x, u) \<Rightarrow> clean u \<and> T\<^sup>*\<^sup>* w u))"

locale transacting =
  fixes T :: "world \<Rightarrow> world \<Rightarrow> bool"
  assumes reading: "only_reads w w' \<Longrightarrow> T w w'"
    and closing: "T w (snd (rollback w))"
begin

lemma transacts_once: "cleans clean m \<Longrightarrow> (\<And>w. T w (transaction m w)) \<Longrightarrow> transacts T m"
proof (unfold transacts_def, intro allI impI)
  assume m: "cleans clean m" "\<And>w. T w (transaction m w)"
  fix w assume w: "clean w"
  obtain r u where run: "m w = (r, u)" by fastforce
  have "T w (transaction m w)" by (rule m(2))
  with cleansD [OF m(1) w] run
  show "case m w of (Inl e, u) \<Rightarrow> T\<^sup>*\<^sup>* w (snd (rollback u)) | (Inr x, u) \<Rightarrow> clean u \<and> T\<^sup>*\<^sup>* w u"
    by (cases r) (auto simp: transaction_def)
qed

lemma transacts_reads:
  assumes "evolves only_reads m"
  shows "transacts T m"
  unfolding transacts_def
proof (intro allI impI)
  fix w assume w: "clean w"
  obtain r u where m: "m w = (r, u)" by fastforce
  have read: "only_reads w u" by (rule evolvesD [OF assms m])
  then have "T w u" by (rule reading)
  moreover have "clean u" using only_reads_stores [OF read] w by (simp add: clean_def)
  ultimately show "case m w of (Inl e, u) \<Rightarrow> T\<^sup>*\<^sup>* w (snd (rollback u)) | (Inr x, u) \<Rightarrow> clean u \<and> T\<^sup>*\<^sup>* w u"
    using m closing [of u] by (cases r) (auto intro: rtranclp.rtrancl_into_rtrancl)
qed

lemma transacts_bind:
  assumes "transacts T m" and "\<And>x. transacts T (f x)"
  shows "transacts T (bind_op m f)"
  unfolding transacts_def
proof (intro allI impI)
  fix w assume w: "clean w"
  obtain r u where m: "m w = (r, u)" by fastforce
  show "case bind_op m f w of (Inl e, v) \<Rightarrow> T\<^sup>*\<^sup>* w (snd (rollback v)) | (Inr x, v) \<Rightarrow> clean v \<and> T\<^sup>*\<^sup>* w v"
  proof (cases r)
    case (Inl e)
    with assms(1) w m show ?thesis by (auto simp: transacts_def bind_op_def)
  next
    case (Inr x)
    with assms(1) w m have u: "clean u" "T\<^sup>*\<^sup>* w u" by (auto simp: transacts_def)
    obtain r' v where f: "f x u = (r', v)" by fastforce
    with assms(2) [of x] u(1) have "case r' of Inl e \<Rightarrow> T\<^sup>*\<^sup>* u (snd (rollback v)) | Inr y \<Rightarrow> clean v \<and> T\<^sup>*\<^sup>* u v"
      by (auto simp: transacts_def split: sum.split)
    with u(2) m f Inr show ?thesis
      by (cases r') (auto simp: bind_op_def elim: rtranclp_trans)
  qed
qed

lemma transacts_then: "transacts T m \<Longrightarrow> transacts T n \<Longrightarrow> transacts T (then_op m n)"
  unfolding then_op_def by (rule transacts_bind)

lemma transacts_simple: "transacts T (ret x)" "transacts T (throw e)" "transacts T (lift_op v)"
  by (intro transacts_reads evolves_ret evolves_throw evolves_lift preorder_only_reads)+

lemma transacts_for_each: "(\<And>x. transacts T (f x)) \<Longrightarrow> transacts T (for_each f xs)"
  by (induction xs) (auto intro: transacts_simple transacts_then)

lemma transacts_session:
  assumes "transacts T m" and "clean w"
  shows "T\<^sup>*\<^sup>* w (snd (with_session m w))"
proof -
  obtain r u where m: "m w = (r, u)" by fastforce
  with assms have "T\<^sup>*\<^sup>* w (snd (rollback u)) \<or> T\<^sup>*\<^sup>* w u"
    by (cases r) (auto simp: transacts_def)
  with closing [of u] have "T\<^sup>*\<^sup>* w (snd (rollback u))"
    by (meson rtranclp.rtrancl_into_rtrancl)
  with m show ?thesis by (simp add: snd_with_session)
qed

end

text \<open>The transactions of a walker, in any order and with any arguments.\<close>

inductive walker_transaction :: "'z content_env_scheme \<Rightarrow> world \<Rightarrow> world \<Rightarrow> bool" for E :: "'z content_env_scheme" where
  begins: "walker_transaction E w (transaction (begin_walk E d) w)"
| enqueues: "walker_transaction E w (transaction (enqueue_if_needed E sync d src c) w)"
| completes: "walker_transaction E w (transaction (complete_walk E sync link) w)"
| interrupts: "walker_transaction E w (transaction (interrupt_walk E sync link) w)"
| finishes: "walker_transaction E w (transaction (finish_walk E sync) w)"
| reads: "only_reads w w' \<Longrightarrow> walker_transaction E w w'"
| closes: "walker_transaction E w (snd (rollback w))"

interpretation walker_steps: transacting "walker_transaction E" for E
  by unfold_locales (rule walker_transaction.intros, assumption?)+

lemma transacts_walk_pieces:
  "transacts (walker_transaction E) (begin_walk E d)" "transacts (walker_transaction E) (complete_walk E sync link)"
  "transacts (walker_transaction E) (interrupt_walk E sync link)" "transacts (walker_transaction E) (finish_walk E sync)"
  "transacts (walker_transaction E) (enqueue_if_needed E sync d src c)"
  by (intro walker_steps.transacts_once cleans_walk_pieces cleans_enqueue_if_needed walker_transaction.intros)+

lemma transacts_walk_loop: "transacts (walker_transaction E) (walk_loop E g d sync deadline n gen)"
proof (induction n arbitrary: gen)
  case 0
  show ?case by (simp add: walker_steps.transacts_simple)
next
  case (Suc n)
  have item: "transacts (walker_transaction E) (process_item E d sync item)" for item
    unfolding process_item_def
    by (intro walker_steps.transacts_bind walker_steps.transacts_simple)
      (simp add: walker_steps.transacts_simple transacts_walk_pieces split: option.split)
  show ?case
    unfolding walk_loop.simps
    by (rule walker_steps.transacts_bind [OF walker_steps.transacts_reads [OF reads_next_page]])
      (auto intro!: walker_steps.transacts_bind walker_steps.transacts_then walker_steps.transacts_for_each walker_steps.transacts_simple
        walker_steps.transacts_reads [OF reads_clock] transacts_walk_pieces item Suc.IH split: sum.split prod.split)
qed

lemma transacts_walk: "transacts (walker_transaction E) (walk E g rq n)"
  unfolding walk_def
  by (intro walker_steps.transacts_bind transacts_walk_pieces transacts_walk_loop
      walker_steps.transacts_reads [OF reads_clock] walker_steps.transacts_reads [OF reads_load_sync])

lemma transacts_fs_walk: "transacts (walker_transaction E) (fs_walk E r)"
  unfolding fs_walk_def fs_process_def Let_def
  by (intro walker_steps.transacts_bind walker_steps.transacts_then walker_steps.transacts_for_each walker_steps.transacts_simple
      walker_steps.transacts_reads [OF reads_tick] walker_steps.transacts_reads [OF reads_fs_candidate] transacts_walk_pieces)

lemma transacts_blob_walk: "transacts (walker_transaction E) (blob_walk E loc)"
proof -
  have "transacts (walker_transaction E) (blob_process E loc sync blob)" for sync blob
    unfolding blob_process_def
    by (intro walker_steps.transacts_bind walker_steps.transacts_reads [OF reads_blob_candidate])
      (simp add: walker_steps.transacts_simple transacts_walk_pieces split: option.split)
  then show ?thesis unfolding blob_walk_def
    by (intro walker_steps.transacts_bind walker_steps.transacts_reads [OF reads_tick] transacts_walk_pieces)
      (auto intro!: walker_steps.transacts_then walker_steps.transacts_for_each walker_steps.transacts_simple transacts_walk_pieces
        split: prod.split option.split)
qed

section \<open>Jobs at the same time\<close>

text \<open>
  The world and the processor runs that are under way. A run is started by the delivery of a message, goes
  from stage to stage, ends, fails or is killed; a queue that has nothing to deliver ends a run before it starts.
\<close>

inductive job_step :: "(message \<Rightarrow> string) \<Rightarrow> world \<times> (nat \<rightharpoonup> run) \<Rightarrow> world \<times> (nat \<rightharpoonup> run) \<Rightarrow> bool"
  for codec :: "message \<Rightarrow> string" where
  walks: "m_dump E = codec \<Longrightarrow> walker_transaction (E :: job_env) w w' \<Longrightarrow> job_step codec (w, ps) (w', ps)"
| starts: "delivers codec E w \<Longrightarrow> receive E None w = (Inr (Some r), u) \<Longrightarrow> ps k = None \<Longrightarrow>
    job_step codec (w, ps) (u, ps(k \<mapsto> \<lparr>rn_env = E, rn_source = src, rn_classifier = jc, rn_item = r, rn_stage = Fresh\<rparr>))"
| idles: "receive (E :: job_env) None w = (res, u) \<Longrightarrow> \<forall>r. res \<noteq> Inr (Some r) \<Longrightarrow> job_step codec (w, ps) (snd (rollback u), ps)"
| advances: "ps k = Some p \<Longrightarrow> next_stage p w = (Inr (Some s), u) \<Longrightarrow> job_step codec (w, ps) (u, ps(k \<mapsto> p\<lparr>rn_stage := s\<rparr>))"
| ends: "ps k = Some p \<Longrightarrow> next_stage p w = (Inr None, u) \<Longrightarrow> job_step codec (w, ps) (snd (rollback u), ps(k := None))"
| fails: "ps k = Some p \<Longrightarrow> next_stage p w = (Inl e, u) \<Longrightarrow> job_step codec (w, ps) (snd (rollback u), ps(k := None))"
| crashes: "ps k = Some p \<Longrightarrow> job_step codec (w, ps) (w, ps(k := None))"

inductive system_step :: "(message \<Rightarrow> string) \<Rightarrow> world \<times> (nat \<rightharpoonup> run) \<Rightarrow> world \<times> (nat \<rightharpoonup> run) \<Rightarrow> bool"
  for codec :: "message \<Rightarrow> string" where
  jobs: "job_step codec c c' \<Longrightarrow> system_step codec c c'"
| labels: "system_step codec (w, ps) (operator_edit i (\<lambda>d. d\<lparr>d_classification_override := v\<rparr>) w, ps)"
| resets: "system_step codec (w, ps) (operator_edit i (\<lambda>d. d\<lparr>d_status := Ds_pending\<rparr>) w, ps)"

text \<open>Every stage leads to a lower one, so the fuel of \<open>carry_on\<close> is enough.\<close>

fun rank :: "stage \<Rightarrow> nat" where
  "rank Fresh = 5"
| "rank (Marked i) = 4"
| "rank (Labelled i c) = 3"
| "rank (Written i c) = 2"
| "rank Settled = 1"

lemma next_stage_rank: "next_stage p w = (Inr (Some s), u) \<Longrightarrow> rank s < rank (rn_stage p)"
  unfolding next_stage_def Let_def
  by (cases "rn_stage p") (auto simp: then_op_def ret_def elim!: bind_op_eqE split: option.splits)

lemma carry_on_steps:
  "rank (rn_stage p) \<le> n \<Longrightarrow> ps k = None \<Longrightarrow>
     (job_step codec)\<^sup>*\<^sup>* (w, ps(k \<mapsto> p)) (snd (rollback (snd (carry_on n p w))), ps)"
proof (induction n arbitrary: p w)
  case 0
  then show ?case by (cases "rn_stage p") simp_all
next
  case (Suc n)
  obtain qs where qs: "qs = ps(k \<mapsto> p)" by simp
  then have p: "qs k = Some p" and gone: "qs(k := None) = ps" and moved: "qs(k \<mapsto> q) = ps(k \<mapsto> q)" for q
    using Suc.prems(2) by auto
  obtain r u where st: "next_stage p w = (r, u)" by fastforce
  show ?case unfolding qs [symmetric]
  proof (cases r)
    case (Inl e)
    with job_step.fails [of qs k p w e u codec] p st show "(job_step codec)\<^sup>*\<^sup>* (w, qs) (snd (rollback (snd (carry_on (Suc n) p w))), ps)"
      unfolding gone by (simp add: bind_op_def r_into_rtranclp)
  next
    case (Inr s)
    show "(job_step codec)\<^sup>*\<^sup>* (w, qs) (snd (rollback (snd (carry_on (Suc n) p w))), ps)"
    proof (cases s)
      case None
      with job_step.ends [of qs k p w u codec] p st Inr show ?thesis
        unfolding gone by (simp add: bind_op_def ret_def r_into_rtranclp)
    next
      case (Some s')
      let ?q = "p\<lparr>rn_stage := s'\<rparr>"
      have "rank (rn_stage ?q) \<le> n" using next_stage_rank [of p w s' u] st Inr Some Suc.prems(1) by simp
      note rest = Suc.IH [OF this Suc.prems(2), of u]
      have "job_step codec (w, qs) (u, ps(k \<mapsto> ?q))"
        using job_step.advances [of qs k p w s' u codec] p st Inr Some unfolding moved by simp
      moreover have "carry_on (Suc n) p w = carry_on n ?q u" using st Inr Some by (simp add: bind_op_def)
      ultimately show ?thesis using rest by (metis converse_rtranclp_into_rtranclp)
    qed
  qed
qed

lemma run_once_steps:
  fixes E :: job_env
  assumes "delivers codec E w" and "ps k = None"
  shows "(job_step codec)\<^sup>*\<^sup>* (w, ps) (snd (with_session (run_once E src jc) w), ps)"
proof -
  obtain res u where rc: "receive E None w = (res, u)" by fastforce
  show ?thesis
  proof (cases "\<exists>r. res = Inr (Some r)")
    case False
    then have "snd (run_once E src jc w) = u" using rc by (auto simp: run_once_def bind_op_def ret_def split: sum.splits option.splits)
    with job_step.idles [OF rc, of codec ps] False show ?thesis by (auto simp: snd_with_session)
  next
    case True
    then obtain r where r: "res = Inr (Some r)" by blast
    let ?p = "\<lparr>rn_env = E, rn_source = src, rn_classifier = jc, rn_item = r, rn_stage = Fresh\<rparr>"
    have "run_once E src jc w = carry_on 5 ?p u" unfolding run_once_stages using rc r by (simp add: run_bind_Inr)
    moreover have "(job_step codec)\<^sup>*\<^sup>* (u, ps(k \<mapsto> ?p)) (snd (rollback (snd (carry_on 5 ?p u))), ps)"
      by (rule carry_on_steps) (simp_all add: assms(2))
    ultimately show ?thesis using job_step.starts [of codec E w r u ps k src jc] assms rc r
      by (simp add: snd_with_session converse_rtranclp_into_rtranclp)
  qed
qed

lemma walker_steps_job:
  "m_dump E = codec \<Longrightarrow> (walker_transaction (E :: job_env))\<^sup>*\<^sup>* w w' \<Longrightarrow> (job_step codec)\<^sup>*\<^sup>* (w, ps) (w', ps)"
proof (rotate_tac, induction rule: rtranclp_induct)
  case (step v u)
  then show ?case using job_step.walks [of E codec v u ps] by (simp add: rtranclp.rtrancl_into_rtrancl)
qed simp

lemma job_run_steps:
  "job_run codec w w' \<Longrightarrow> w_work w = w_durable w \<Longrightarrow> ps k = None \<Longrightarrow> (job_step codec)\<^sup>*\<^sup>* (w, ps) (w', ps)"
proof (induction rule: job_run.induct)
  case (walker E w n)
  have w: "clean w" using walker(2) by (simp add: clean_def)
  note session = walker_steps_job [OF walker(1) walker_steps.transacts_session [OF _ w]]
  from walker_session [of E n w] show ?case
    using session [OF transacts_walk] session [OF transacts_fs_walk] session [OF transacts_blob_walk] rtranclp.rtrancl_refl by metis
next
  case (processor E w)
  from processor_session [of E w] show ?case
    using run_once_steps [of codec E w ps k] processor(1,3) rtranclp.rtrancl_refl by metis
qed

section \<open>Properties\<close>

text \<open>
  Claim C3. The jobs run alone are sequences of transactions: any run of the walker job or of the processor job
  on a store with no open transaction, wherever it fails, is a sequence of steps of the concurrent system, beside
  whatever processor runs are under way. So what holds of every interleaving of transactions holds of the jobs.
\<close>

theorem jobs_are_transactions:
  assumes "job_run codec w w'" and "w_work w = w_durable w" and "ps k = None"
  shows "(job_step codec)\<^sup>*\<^sup>* (w, ps) (w', ps)"
  using assms by (rule job_run_steps)

theorem jobs_are_transactions_witness:
  "(job_step sample_codec)\<^sup>*\<^sup>* (empty_world, Map.empty) (tree_walked, Map.empty)
   \<and> documents_shown (w_durable tree_walked) 1 = Some (Ds_queued, None, None)"
  using jobs_are_transactions [OF tree_run, of Map.empty 0] tree_walked(2) by (simp add: empty_world_def)

end
