(* ===== verification/Interleaving.thy ===== *)
theory Interleaving
  imports Transactions
begin

text \<open>
  What holds however the transactions of concurrent jobs are interleaved: the constraints of the store, the
  rows of the items in hand, the labels operators gave; and what becomes of a label given while a document
  is being processed.
\<close>

section \<open>Frames\<close>

context processing_frame
begin

lemma stage_frames:
  "evolves R (take_up E r)" "evolves R (classify_item E src jc i r)" "evolves R (log_success E i r c)"
proof -
  have "evolves R (document_of_message E m)" for m
    unfolding document_of_message_def by (intro reads evolve_intros preorder_only_reads)
  then show "evolves R (take_up E r)" unfolding take_up_def
    by (intro evolve_intros pre marking marks_setters commit_state_frame recording_frame)
  show "evolves R (classify_item E src jc i r)" unfolding classify_item_def
    by (intro evolve_intros pre attempt_frame recording_frame)
  show "evolves R (log_success E i r c)" unfolding log_success_def
    by (intro evolve_intros pre loading commit_state_frame log_document_frame)
qed

end

lemma next_stage_frame:
  assumes "run_frame (rn_env p) R"
  shows "evolves R (next_stage p)"
proof -
  note frame = run_frame.axioms(1) [OF assms]
  note pre = processing_frame.pre [OF frame] and stages = processing_frame.stage_frames [OF frame]
  show ?thesis unfolding next_stage_def Let_def
    by (cases "rn_stage p")
      (auto intro!: evolves_bind evolves_then evolves_ret pre stages processing_frame.writing [OF frame] run_frame.deleting [OF assms])
qed

lemma walker_transaction_frame:
  assumes "walk_frame E R" and "\<And>w. R w (snd (rollback w))" and "walker_transaction E w w'"
  shows "R w w'"
proof -
  note pre = walk_frame.pre [OF assms(1)]
  have once: "R v (transaction m v)" if "evolves R m" for m :: "'b job" and v
  proof (cases "m v")
    case (Pair r u)
    with that have "R v u" by (metis evolvesD)
    with Pair assms(2) [of u] preorder_trans [OF pre] show ?thesis by (cases r) (auto simp: transaction_def)
  qed
  note ends = walk_frame.walk_end_frame [OF assms(1)]
  have pieces: "R v (transaction (begin_walk E d) v)" "R v (transaction (finish_walk E sync) v)"
    "R v (transaction (enqueue_if_needed E sync d src c) v)" "R v (transaction (complete_walk E sync link) v)"
    "R v (transaction (interrupt_walk E sync link) v)" for v d sync src c link
    by (intro once ends walk_frame.begin_walk_frame [OF assms(1)] walk_frame.finish_walk_frame [OF assms(1)] walk_frame.queuing [OF assms(1)])+
  from assms(3) show ?thesis
    by cases (auto intro: pieces assms(2) walk_frame.reading [OF assms(1)])
qed

text \<open>Queuing keeps what a label protects, and no walk touches the audit trail.\<close>

interpretation walk_labels: walk_frame E "store_rel (docs_keep human_view)" for E
  by (rule walk_keeps_view) (simp_all add: human_view_def queued_fields_def rotate_hash_def)

lemma audit_enqueue: "evolves (store_rel audit_grows) (enqueue_if_needed E sync d src c)"
proof -
  have "evolves (store_rel audit_grows) (upsert_queued_row E sync c prior)" for prior
    unfolding upsert_queued_row_def Let_def
    by (cases prior) (auto intro!: evolve_intros audit.wpre audit.inserting_document audit.setting_document audit.flushing simp: audit_same)
  then show ?thesis
    unfolding enqueue_if_needed_def existing_document_def queue_document_def Let_def
    by (intro evolve_intros audit.wpre audit.loading_sync audit.query audit.clock audit.committing channel.send_rel audit.pre)
qed

interpretation walk_audit: walk_frame E "store_rel audit_grows" for E
proof unfold_locales
  show "only_reads w w' \<Longrightarrow> store_rel audit_grows w w'" for w w'
    by (rule audit.same) (auto dest: only_reads_stores)
  show "evolves (store_rel audit_grows) (set_sync E i f)" for i f
    by (rule audit.setting_sync) (simp add: audit_same)
  show "evolves (store_rel audit_grows) (insert_sync E r)" for r
    by (rule audit.inserting_sync) (simp add: audit_same)
qed (intro audit.wpre audit.committing audit_enqueue)+

section \<open>Every step of a job\<close>

text \<open>What no job undoes: rows and keys, labels and what they protect, audit rows.\<close>

definition preserves :: "world \<Rightarrow> world \<Rightarrow> bool" where
  "preserves w w' \<longleftrightarrow> docs_keep human_view (w_durable w) (w_durable w') \<and> audit_grows (w_durable w) (w_durable w')"

lemma preserves_refl: "w_durable w' = w_durable w \<Longrightarrow> preserves w w'"
  by (simp add: preserves_def docs_keep_refl audit_grows_def)

lemma preserves_trans: "preserves u v \<Longrightarrow> preserves v w \<Longrightarrow> preserves u w"
  unfolding preserves_def using docs_keep_trans audit.S_trans by blast

lemma store_rel_clean: "store_rel S w w' \<Longrightarrow> clean w \<Longrightarrow> (\<And>s. S s s) \<Longrightarrow> S (w_durable w) (w_durable w')"
  by (simp add: store_rel_def clean_def)

lemma between_clean: "between_runs codec w \<Longrightarrow> clean w"
  by (simp add: between_runs_def clean_def)

lemma between_rollback: "world_ok u \<Longrightarrow> sent_on_record codec u \<Longrightarrow> between_runs codec (snd (rollback u))"
  using ok_rollback by (auto simp: between_runs_def sent_on_record_def rollback_def modify_op_def evolves_def keeps_def)

lemma walker_transaction_clean: "walker_transaction E w w' \<Longrightarrow> clean w \<Longrightarrow> clean w'"
proof (induction rule: walker_transaction.induct)
  case (reads w w')
  then show ?case using only_reads_stores [of w w'] by (simp add: clean_def)
qed (auto simp: transaction_def clean_rollback split: prod.split sum.split
    dest: cleansD [OF cleans_enqueue_if_needed] cleansD [OF cleans_walk_pieces(1)] cleansD [OF cleans_walk_pieces(2)]
      cleansD [OF cleans_walk_pieces(3)] cleansD [OF cleans_walk_pieces(4)])

lemma walker_step_keeps:
  assumes "m_dump E = codec" and "walker_transaction E w w'" and "between_runs codec w"
  shows "between_runs codec w' \<and> preserves w w'"
proof -
  have c: "clean w" by (rule between_clean [OF assms(3)])
  note frame = walker_transaction_frame [OF _ _ assms(2)]
  have "store_rel (docs_keep human_view) w w'"
    by (rule frame [OF walk_labels.walk_frame_axioms]) (use keep.rolling_back [of human_view] in \<open>simp add: evolves_def\<close>)
  moreover have "store_rel audit_grows w w'"
    by (rule frame [OF walk_audit.walk_frame_axioms]) (use audit.rolling_back in \<open>simp add: evolves_def\<close>)
  ultimately have "preserves w w'"
    using store_rel_clean [OF _ c] docs_keep_refl audit.S_refl unfolding preserves_def by metis
  moreover have "keeps (walking_inv codec) v (snd (rollback v))" for v
    using ok_rollback by (auto simp: keeps_def walking_inv_def sent_on_record_def rollback_def modify_op_def evolves_def docs_keep_refl)
  with frame [OF walking_frame [OF assms(1)]] have "keeps (walking_inv codec) w w'" by blast
  then have "between_runs codec w'"
    using walker_transaction_clean [OF assms(2) c] assms(3) docs_keep_refl [of verdict "w_durable w"]
    by (simp add: keeps_def walking_inv_def between_runs_def clean_def)
  ultimately show ?thesis by blast
qed

lemma stage_keeps:
  assumes "next_stage p w = (r, u)" and "between_runs codec w"
  shows "world_ok u \<and> sent_on_record codec u \<and> preserves w u \<and> ((\<exists>s. r = Inr s) \<longrightarrow> clean u)"
proof -
  have c: "clean w" by (rule between_clean [OF assms(2)])
  note frame = evolvesD [OF next_stage_frame assms(1)]
  have "keeps world_ok w u" by (rule frame [OF ok_frame.run_frame_axioms])
  then have ok: "world_ok u" using assms(2) by (simp add: keeps_def between_runs_def)
  have kept: "docs_keep human_view (w_durable w) (w_durable u)"
    by (rule store_rel_clean [OF frame [OF human_frame.run_frame_axioms] c docs_keep_refl])
  moreover have "audit_grows (w_durable w) (w_durable u)"
    by (rule store_rel_clean [OF frame [OF audit_frame.run_frame_axioms] c audit.S_refl])
  moreover have "sent_on_record codec u"
    using sent_on_record_kept [OF frame [OF unsent_frame.run_frame_axioms] kept] assms(2) by (simp add: between_runs_def)
  ultimately show ?thesis using ok cleansD [OF cleans_next_stage c] assms(1) by (auto simp: preserves_def)
qed

lemma receive_keeps:
  assumes "receive E v w = (r, u)" and "between_runs codec w"
  shows "between_runs codec u \<and> w_durable u = w_durable w"
proof -
  have u: "same_stores w u" by (rule evolvesD [OF receive_same_stores assms(1)])
  moreover have "adds_none is_sent w u" by (rule evolvesD [OF queue_sends_none(1) assms(1)])
  then have "sent_on_record codec u"
    using sent_on_record_kept [of w u human_view codec] assms(2) u docs_keep_refl [of human_view "w_durable w"] by (simp add: between_runs_def same_stores_def)
  ultimately show ?thesis using assms(2) world_ok_same [of u w] by (auto simp: between_runs_def same_stores_def)
qed

lemma job_step_keeps:
  "job_step codec c c' \<Longrightarrow> between_runs codec (fst c) \<Longrightarrow> between_runs codec (fst c') \<and> preserves (fst c) (fst c')"
proof (induction rule: job_step.induct)
  case (walks E w w' ps)
  then show ?case using walker_step_keeps by simp
next
  case (starts E w r u ps k src jc)
  then show ?case using receive_keeps [of E None w "Inr (Some r)" u codec] preserves_refl [of u w] by simp
next
  case (idles E w res u ps)
  then have "between_runs codec u" "w_durable u = w_durable w" using receive_keeps [of E None w res u] by simp_all
  then show ?case using between_rollback [of u codec] preserves_refl [of "snd (rollback u)" w]
    by (simp add: between_runs_def rollback_def modify_op_def)
next
  case (advances ps k p w s u)
  then show ?case using stage_keeps [of p w "Inr (Some s)" u codec] by (simp add: between_runs_def clean_def)
next
  case (ends ps k p w u)
  then show ?case using stage_keeps [of p w "Inr None" u codec] between_rollback [of u codec]
    by (simp add: preserves_def rollback_def modify_op_def)
next
  case (fails ps k p w e u)
  then show ?case using stage_keeps [of p w "Inl e" u codec] between_rollback [of u codec]
    by (simp add: preserves_def rollback_def modify_op_def)
next
  case (crashes ps k p w)
  then show ?case by (simp add: preserves_refl)
qed

section \<open>The items in hand\<close>

fun stage_row :: "stage \<Rightarrow> int option" where
  "stage_row (Marked i) = Some i"
| "stage_row (Labelled i c) = Some i"
| "stage_row (Written i c) = Some i"
| "stage_row _ = None"

definition in_hand :: "store \<Rightarrow> run \<Rightarrow> bool" where
  "in_hand s p \<longleftrightarrow> on_record s (rc_message (rn_item p))
     \<and> (case stage_row (rn_stage p) of None \<Rightarrow> True | Some i \<Rightarrow> i = ms_document_id (rc_message (rn_item p)))"

definition system_ok :: "(message \<Rightarrow> string) \<Rightarrow> world \<times> (nat \<rightharpoonup> run) \<Rightarrow> bool" where
  "system_ok codec c \<longleftrightarrow> between_runs codec (fst c) \<and> (\<forall>k p. snd c k = Some p \<longrightarrow> in_hand (w_durable (fst c)) p)"

lemma in_hand_kept: "docs_keep view s t \<Longrightarrow> in_hand s p \<Longrightarrow> in_hand t p"
  using on_record_kept by (auto simp: in_hand_def)

lemma next_stage_row:
  assumes "next_stage p w = (Inr (Some s), u)" and "in_hand t p"
  shows "in_hand t (p\<lparr>rn_stage := s\<rparr>)"
proof -
  have row: "i = ms_document_id (rc_message r)" if "take_up E r v = (Inr (Some i), x)" for E :: job_env and r i v x
    using that unfolding take_up_def
  proof (cases rule: bind_op_eqE)
    case (continued d y)
    from continued(1) have "d_id d = ms_document_id (rc_message r)" by (cases rule: document_of_message_cases) simp_all
    with continued(2) show ?thesis by (auto simp: then_op_def ret_def split: if_splits elim!: bind_op_eqE)
  qed simp
  have "case stage_row s of None \<Rightarrow> True | Some i \<Rightarrow> i = ms_document_id (rc_message (rn_item p))"
    using assms unfolding next_stage_def Let_def
    by (cases "rn_stage p") (auto simp: in_hand_def then_op_def ret_def dest: row elim!: bind_op_eqE split: option.splits)
  with assms(2) show ?thesis by (simp add: in_hand_def split: option.splits)
qed

lemma job_step_in_hand:
  assumes "job_step codec c c'" and "system_ok codec c"
  shows "system_ok codec c'"
proof -
  have b: "between_runs codec (fst c)" using assms(2) by (simp add: system_ok_def)
  note kept = job_step_keeps [OF assms(1) b]
  then have d: "docs_keep human_view (w_durable (fst c)) (w_durable (fst c'))" by (simp add: preserves_def)
  have old: "in_hand (w_durable (fst c')) p" if "snd c k = Some p" for k p
    using in_hand_kept [OF d] assms(2) that by (auto simp: system_ok_def)
  have "in_hand (w_durable (fst c')) p" if "snd c' k = Some p" for k p
    using assms(1)
  proof cases
    case (starts E w r u ps j src jc)
    have "on_record (w_durable w) (rc_message r)"
      using delivered_on_record [OF starts(3) _ starts(4)] b starts(1) by (simp add: between_runs_def)
    moreover have "w_durable u = w_durable w" using receive_keeps [OF starts(4), of codec] b starts(1) by simp
    ultimately show ?thesis using that old starts by (auto simp: in_hand_def split: if_splits)
  next
    case (advances ps j q w s u)
    then have "in_hand (w_durable u) q" using old [of j q] by simp
    with next_stage_row [OF advances(4)] that old advances show ?thesis by (auto split: if_splits)
  qed (use that old in \<open>auto split: if_splits\<close>)
  with kept show ?thesis by (simp add: system_ok_def)
qed

lemma operator_edit_in_hand:
  assumes "system_ok codec (w, ps)" and "\<And>d. d_id (f d) = d_id d \<and> doc_key (f d) = doc_key d"
  shows "system_ok codec (operator_edit i f w, ps)"
proof -
  have "docs_keep doc_key (w_durable w) (w_durable (operator_edit i f w))"
    by (simp add: operator_edit_def Let_def) (rule docs_keep_update, simp add: assms(2))
  with in_hand_kept operator_edit_keeps [OF _ assms(2)] assms(1) show ?thesis by (fastforce simp: system_ok_def)
qed

lemma system_reachable:
  "(system_step codec)\<^sup>*\<^sup>* (empty_world, Map.empty) c \<Longrightarrow> system_ok codec c"
proof (induction rule: rtranclp_induct)
  case base
  have "between_runs codec empty_world" by (rule reachable_between_runs) (simp add: reachable_def)
  then show ?case by (simp add: system_ok_def)
next
  case (step c c')
  from step(2,3) show ?case
    by (cases rule: system_step.cases) (auto simp: doc_key_def intro: job_step_in_hand operator_edit_in_hand)
qed

lemma job_steps_keep:
  "(job_step codec)\<^sup>*\<^sup>* c c' \<Longrightarrow> between_runs codec (fst c) \<Longrightarrow> between_runs codec (fst c') \<and> preserves (fst c) (fst c')"
proof (induction rule: rtranclp_induct)
  case (step d e)
  with job_step_keeps [OF step(2)] preserves_trans show ?case by blast
qed (simp add: preserves_refl)

section \<open>A label given while the document is processed\<close>

lemma write_on_labelled:
  assumes "db_write E (classification_record m c) w = (Inr x, v)" and "world_ok w" and "w_work w = w_durable w"
    and "row_of (w_durable w) i = Some d" and "doc_key d = (ms_sync_state_id m, ms_drive_item_id m)" and "d_classification_override d \<noteq> None"
  shows "row_of (w_durable v) i = Some d \<and> t_processing_log (w_durable v) = t_processing_log (w_durable w) \<and> clean v \<and> world_ok v"
proof -
  let ?k = "(ms_sync_state_id m, ms_drive_item_id m)"
  have d: "d \<in> set (t_documents (w_durable w))" "d_id d = i"
    using assms(4) find_key_Some [where key = d_id] unfolding row_of_def by blast+
  have "lookup_document (w_durable w) (fst ?k) (snd ?k) = Some d"
    using d(1) assms(2,5) by (intro lookup_distinct) (simp_all add: world_ok_def)
  moreover from assms(1) obtain y where "execute_upsert E (classification_record m c) w = (Inr (), y)" "w_durable v = w_work y"
    by (cases rule: db_write_cases) simp_all
  ultimately have v: "t_processing_log (w_durable v) = t_processing_log (w_durable w)" "lookup_document (w_durable v) (fst ?k) (snd ?k) = Some d"
    using execute_upsert_result [of E "classification_record m c" w "Inr ()" y] assms(3,6)
    by (auto simp: classification_record_def upserted_row_def)
  have ok: "world_ok v" using evolvesD [OF db_writer.put_ok assms(1)] assms(2) by (simp add: keeps_def)
  have "d \<in> set (t_documents (w_durable v))" using lookup_document_Some [OF v(2)] by simp
  with row_of_member [of "w_durable v" d] ok d(2) have "row_of (w_durable v) i = Some d" by (simp add: world_ok_def)
  moreover have "clean v" by (rule cleansD [OF cleans_db_write [of anywhere] _ assms(1)]) simp
  ultimately show ?thesis using v(1) ok by simp
qed

lemma log_on_labelled:
  assumes "log_success E i r c v = (Inr x, u)" and "clean v" and "row_of (w_durable v) i = Some d"
  shows "row_of (w_durable u) i = Some d
    \<and> (\<exists>k. t_processing_log (w_durable u) = t_processing_log (w_durable v) @ [k] \<and> unstamped k = unstamped (completed_log i r c))"
  using assms(1) unfolding log_success_def
proof (cases rule: load_then_cases)
  case (loads d' y)
  note y = only_reads_stores [OF loads(3)]
  from loads(4) obtain z where cs: "commit_state E [completed_log (d_id d') r c] y = (Inr (), z)" and lg: "log_document E i z = (Inr x, u)"
    by (auto simp: then_op_def elim!: bind_op_eqE)
  have u: "w_durable u = w_durable z" using log_document_result [OF lg] only_reads_stores [of z u] by simp
  from cs show ?thesis
    using u y loads(2) assms(2,3)
    by (cases rule: commit_state_cases) (auto simp: clean_def row_of_def)
qed simp

section \<open>Properties\<close>

text \<open>
  Claim C1. However the transactions of walkers, of any number of processors and of operators are interleaved,
  and wherever runs fail or are killed between them, the store satisfies the schema's constraints,
  nothing uncommitted is left behind, and every item a processor has in hand names a row that exists and carries the
  item's key; the row a run has marked, and will record its outcome in, is that row.
\<close>

theorem interleaved_consistent:
  assumes "(system_step codec)\<^sup>*\<^sup>* (empty_world, Map.empty) (w, ps)"
  shows "store_ok (w_durable w) \<and> w_work w = w_durable w
    \<and> (\<forall>k p. ps k = Some p \<longrightarrow> (let m = rc_message (rn_item p) in
          (\<exists>d. row_of (w_durable w) (ms_document_id m) = Some d \<and> doc_key d = (ms_sync_state_id m, ms_drive_item_id m))
          \<and> (\<forall>i. stage_row (rn_stage p) = Some i \<longrightarrow> i = ms_document_id m)))"
proof -
  have ok: "system_ok codec (w, ps)" by (rule system_reachable [OF assms])
  then have s: "store_ok (w_durable w)" "w_work w = w_durable w" by (simp_all add: system_ok_def between_runs_def world_ok_def)
  have "in_hand (w_durable w) p" if "ps k = Some p" for k p using ok that by (simp add: system_ok_def)
  with s on_record_row [OF _ s(1)] show ?thesis by (fastforce simp: in_hand_def Let_def)
qed

text \<open>
  Claim C2. Concurrent jobs respect what operators and earlier runs recorded: any steps that walkers and
  processors take from a reachable state, in any interleaving and however they fail, lose no row, leave every label
  and everything beside a label as it was, and only append to the audit trail.
\<close>

theorem interleaved_jobs_respect_labels:
  assumes "(system_step codec)\<^sup>*\<^sup>* (empty_world, Map.empty) (w, ps)" and "(job_step codec)\<^sup>*\<^sup>* (w, ps) (w', ps')"
  shows "(\<exists>ls. t_processing_log (w_durable w') = t_processing_log (w_durable w) @ ls)
    \<and> (\<forall>d \<in> set (t_documents (w_durable w)). \<exists>d' \<in> set (t_documents (w_durable w')).
        d_id d' = d_id d \<and> doc_key d' = doc_key d \<and> d_classification_override d' = d_classification_override d
        \<and> (d_classification_override d \<noteq> None \<longrightarrow> d_category d' = d_category d \<and> d_confidence d' = d_confidence d
             \<and> d_classified_by d' = d_classified_by d \<and> d_raw_response d' = d_raw_response d
             \<and> d_classified_at d' = d_classified_at d \<and> d_processed_at d' = d_processed_at d))"
proof -
  have "between_runs codec w" using system_reachable [OF assms(1)] by (simp add: system_ok_def)
  then have "preserves w w'" using job_steps_keep [OF assms(2)] by simp
  then show ?thesis unfolding preserves_def audit_grows_def docs_keep_def human_view_def by fastforce
qed

text \<open>
  Claim C10. A label given while a processor has the document's classification in hand is kept, but the row is left
  as it was found: the guarded UPSERT changes nothing, the audit trail still gains a \<^verbatim>\<open>completed\<close> row
  with the category that was not stored, and the message is deleted. So a row marked \<^verbatim>\<open>processing\<close> stays so, and
  no walk queues the file again, changed or not.
\<close>

theorem label_given_meanwhile:
  assumes "\<forall>t. db_fault E t = None" and "\<forall>t i p. q_delete E t i p = None" and "world_ok w" and "w_work w = w_durable w"
    and "row_of (w_durable w) i = Some d" and "d_classification_override d = Some h" and "d_status d = Ds_processing"
    and "doc_key d = (ms_sync_state_id (rc_message r), ms_drive_item_id (rc_message r))"
  shows "\<exists>u k. carry_on 3 \<lparr>rn_env = E, rn_source = src, rn_classifier = jc, rn_item = r, rn_stage = Labelled i c\<rparr> w = (Inr (), u)
    \<and> row_of (w_durable u) i = Some d
    \<and> t_processing_log (w_durable u) = t_processing_log (w_durable w) @ [k] \<and> pl_status k = ''completed'' \<and> pl_category k = Some (cl_category c)
    \<and> Deleted (rc_message_id r) (rc_pop_receipt r) \<in> set (w_trace u)
    \<and> (\<forall>W drive src' cand res v. ca_drive_item_id cand = ms_drive_item_id (rc_message r)
         \<and> enqueue_if_needed (W :: job_env) (ms_sync_state_id (rc_message r)) drive src' cand u = (res, v)
         \<longrightarrow> w_durable v = w_durable u \<and> w_trace v = w_trace u)"
proof -
  let ?m = "rc_message r"
  have healthy: "healthy E" using assms(1) by (simp add: healthy_def)
  obtain res x where rs: "record_success E i ?m r c w = (res, x)" by fastforce
  have "present i (doc_key d) w" by (rule present_row [OF assms(5,4,3)])
  from returnsD [OF returns_success [OF healthy assms(8)] this rs] have res: "res = Inr ()" by auto
  then obtain v where put: "db_write E (classification_record ?m c) w = (Inr (), v)" and log: "log_success E i r c v = (Inr (), x)"
    using rs unfolding record_success_stages by (auto simp: then_op_def elim!: bind_op_eqE)
  note a = write_on_labelled [OF put assms(3-5,8)]
  with assms(6) have v: "row_of (w_durable v) i = Some d" "t_processing_log (w_durable v) = t_processing_log (w_durable w)" "clean v" "world_ok v"
    by simp_all
  obtain k where k: "row_of (w_durable x) i = Some d" "t_processing_log (w_durable x) = t_processing_log (w_durable v) @ [k]"
      "unstamped k = unstamped (completed_log i r c)"
    using log_on_labelled [OF log v(3,1)] by blast
  have kf: "pl_status k = ''completed''" "pl_category k = Some (cl_category c)"
    using arg_cong [OF k(3), of pl_status] arg_cong [OF k(3), of pl_category]
    by (simp_all add: unstamped_def completed_log_def new_processing_log_def LOG_COMPLETED_def)
  obtain u where del: "delete E r x = (Inr (), u)" and tr: "w_trace u = w_trace x @ [Deleted (rc_message_id r) (rc_pop_receipt r)]"
    using assms(2) by (simp add: delete_def next_tick_def record_event_def op_simps)
  have same: "same_stores x u" by (rule evolvesD [OF delete_same_stores del])
  have "world_ok x" using evolvesD [OF ok_frame.recording_frame(1) rs] assms(3) by (simp add: keeps_def)
  then have ok: "world_ok u" "w_durable u = w_durable x" using same world_ok_same [of u x] by (auto simp: same_stores_def)
  have "clean x" by (rule cleansD [OF cleans_recording(4) _ log, of anywhere]) simp
  then have work: "w_work u = w_durable u" using same by (simp add: clean_def same_stores_def)
  have "d \<in> set (t_documents (w_durable u))" using k(1) ok(2) find_key_Some [where key = d_id] unfolding row_of_def by metis
  then have row: "lookup_document (w_work u) (ms_sync_state_id ?m) (ms_drive_item_id ?m) = Some d"
    using assms(8) ok(1) work by (intro lookup_distinct) (simp_all add: world_ok_def)
  have "w_durable v' = w_durable u \<and> w_trace v' = w_trace u"
    if "ca_drive_item_id cand = ms_drive_item_id ?m" "enqueue_if_needed (W :: job_env) (ms_sync_state_id ?m) drive src' cand u = (res', v')"
    for W drive src' cand res' v'
    using in_flight_silent [OF _ _ _ that(2), of d] ok(1) row that(1) assms(7) by (simp add: world_ok_def)
  moreover have "carry_on 3 \<lparr>rn_env = E, rn_source = src, rn_classifier = jc, rn_item = r, rn_stage = Labelled i c\<rparr> w = (Inr (), u)"
    unfolding carry_on_labelled using rs res del by (simp add: run_then_Inr)
  ultimately show ?thesis using k kf v(2) ok(2) tr by (intro exI [of _ u] exI [of _ k]) auto
qed

section \<open>Instances\<close>

text \<open>The sample tree is walked and its message delivered; a processor has it in hand.\<close>

definition tree_run_at :: "stage \<Rightarrow> run" where
  "tree_run_at st = \<lparr>rn_env = tree_job (Some (sample_codec tree_message)), rn_source = proc_source, rn_classifier = proc_classifier,
     rn_item = \<lparr>rc_message = tree_message, rc_message_id = ''m1'', rc_pop_receipt = ''p1'', rc_dequeue_count = 1\<rparr>, rn_stage = st\<rparr>"

lemma tree_system: "(system_step sample_codec)\<^sup>*\<^sup>* (empty_world, Map.empty) (tree_walked, Map.empty)"
proof -
  have "(job_step sample_codec)\<^sup>*\<^sup>* (empty_world, Map.empty) (tree_walked, Map.empty)"
    by (rule job_run_steps [OF tree_run, of _ 0]) (simp_all add: empty_world_def)
  then show ?thesis by (rule rtranclp_mono [THEN predicate2D, rotated]) (auto intro: system_step.jobs)
qed

lemma tree_started:
  "\<exists>u. w_durable u = w_durable tree_walked \<and> job_step sample_codec (tree_walked, Map.empty) (u, [0 \<mapsto> tree_run_at Fresh])"
proof -
  let ?E = "tree_job (Some (sample_codec tree_message))" and ?r = "rn_item (tree_run_at Fresh)"
  obtain u where u: "receive ?E None tree_walked = (Inr (Some ?r), u)"
    by (simp add: receive_def next_tick_def record_event_def op_simps tree_job_services sample_parse_codec tree_run_at_def)
      (simp add: tree_job_def record_event_def op_simps sample_parse_codec)
  have "same_stores tree_walked u" by (rule evolvesD [OF receive_same_stores u])
  moreover have "job_step sample_codec (tree_walked, Map.empty) (u, [0 \<mapsto> tree_run_at Fresh])"
    using job_step.starts [OF tree_delivers, of ?r u Map.empty 0 proc_source proc_classifier] u by (simp add: tree_run_at_def)
  ultimately show ?thesis by (auto simp: same_stores_def)
qed

theorem interleaved_consistent_witness:
  "\<exists>u d. (system_step sample_codec)\<^sup>*\<^sup>* (empty_world, Map.empty) (u, [0 \<mapsto> tree_run_at Fresh])
     \<and> row_of (w_durable u) 1 = Some d \<and> doc_key d = (1, ''a.txt'')"
proof -
  obtain u where "job_step sample_codec (tree_walked, Map.empty) (u, [0 \<mapsto> tree_run_at Fresh])" using tree_started by blast
  then have reach: "(system_step sample_codec)\<^sup>*\<^sup>* (empty_world, Map.empty) (u, [0 \<mapsto> tree_run_at Fresh])"
    by (rule rtranclp.rtrancl_into_rtrancl [OF tree_system system_step.jobs])
  have hand: "[0 \<mapsto> tree_run_at Fresh] 0 = Some (tree_run_at Fresh)" by simp
  have m: "rc_message (rn_item (tree_run_at Fresh)) = tree_message" by (simp add: tree_run_at_def)
  from interleaved_consistent [OF reach, THEN conjunct2, THEN conjunct2, THEN spec, THEN spec, THEN mp, OF hand]
  obtain d where "row_of (w_durable u) 1 = Some d" "doc_key d = (1, ''a.txt'')"
    unfolding Let_def m by (auto simp: tree_message_def)
  with reach show ?thesis by blast
qed

text \<open>The same, with the document labelled before the message is delivered.\<close>

definition labelled_tree :: world where
  "labelled_tree = operator_edit 1 (\<lambda>d. d\<lparr>d_classification_override := Some ''Contract''\<rparr>) tree_walked"

theorem interleaved_jobs_respect_labels_witness:
  "\<exists>d' \<in> set (t_documents (w_durable (snd (with_session (run_once (tree_job (Some (sample_codec tree_message))) proc_source proc_classifier) labelled_tree)))).
     d_id d' = 1 \<and> d_classification_override d' = Some ''Contract''"
proof -
  let ?E = "tree_job (Some (sample_codec tree_message))"
  have "system_step sample_codec (tree_walked, Map.empty) (labelled_tree, Map.empty)"
    unfolding labelled_tree_def by (rule system_step.labels)
  with tree_system have reach: "(system_step sample_codec)\<^sup>*\<^sup>* (empty_world, Map.empty) (labelled_tree, Map.empty)"
    by (rule rtranclp.rtrancl_into_rtrancl)
  have "delivers sample_codec ?E labelled_tree"
    using tree_delivers by (simp add: delivers_def labelled_tree_def operator_edit_def Let_def)
  then have run: "(job_step sample_codec)\<^sup>*\<^sup>* (labelled_tree, Map.empty) (snd (with_session (run_once ?E proc_source proc_classifier) labelled_tree), Map.empty)"
    by (rule run_once_steps [of _ _ _ _ 0]) simp
  obtain d where "row_of (w_durable tree_walked) 1 = Some d" using tree_walked(2) by (auto simp: documents_shown_def)
  then have "d \<in> set (t_documents (w_durable tree_walked))" "d_id d = 1"
    using find_key_Some [where key = d_id] unfolding row_of_def by blast+
  moreover define x where "x = d\<lparr>d_classification_override := Some ''Contract''\<rparr>"
  ultimately have x: "x \<in> set (t_documents (w_durable labelled_tree))" "d_id x = 1" "d_classification_override x = Some ''Contract''"
    by (auto simp: labelled_tree_def operator_edit_def Let_def set_update_where)
  from interleaved_jobs_respect_labels [OF reach run, THEN conjunct2, THEN bspec, OF x(1)] x(2,3) show ?thesis by auto
qed

text \<open>A document labelled while it is being processed.\<close>

definition busy_document :: document where
  "busy_document = (new_document 1 ''a.txt'')\<lparr>d_id := 1, d_status := Ds_processing, d_classification_override := Some ''Contract''\<rparr>"

definition busy_world :: world where
  "busy_world = (let s = (proc_store None)\<lparr>t_documents := [busy_document]\<rparr> in (proc_world None)\<lparr>w_durable := s, w_work := s\<rparr>)"

lemma busy_world:
  "world_ok busy_world" "w_work busy_world = w_durable busy_world" "row_of (w_durable busy_world) 1 = Some busy_document"
  by (simp_all add: busy_world_def busy_document_def proc_world_def proc_store_def Let_def empty_world_def world_ok_def store_ok_def
      below_sequences_def new_sync_state_def new_document_def doc_key_def row_of_def)

theorem label_given_meanwhile_witness:
  "\<exists>u. carry_on 3 (tree_run_at (Labelled 1 \<lparr>cl_category = ''Invoice'', cl_confidence = Fin (3/4), cl_raw = []\<rparr>)) busy_world = (Inr (), u)
     \<and> row_of (w_durable u) 1 = Some busy_document \<and> d_status busy_document = Ds_processing \<and> d_category busy_document = None"
proof -
  let ?E = "tree_job (Some (sample_codec tree_message))"
  have services: "\<forall>t. db_fault ?E t = None" "\<forall>t i p. q_delete ?E t i p = None" by (simp_all add: tree_job_services)
  have d: "d_classification_override busy_document = Some ''Contract''" "d_status busy_document = Ds_processing" "d_category busy_document = None"
    by (simp_all add: busy_document_def new_document_def)
  have key: "doc_key busy_document = (ms_sync_state_id (rc_message (rn_item (tree_run_at Fresh))), ms_drive_item_id (rc_message (rn_item (tree_run_at Fresh))))"
    by (simp add: busy_document_def new_document_def doc_key_def tree_run_at_def tree_message_def)
  from label_given_meanwhile [OF services busy_world d(1,2) key, of proc_source proc_classifier] d show ?thesis
    by (fastforce simp: tree_run_at_def)
qed

end
