(* ===== verification/Migrations.thy ===== *)
theory Migrations
  imports Database AppConfig
begin

text \<open>
  The schema migrations, \<^verbatim>\<open>alembic/versions\<close>, their environment \<^verbatim>\<open>alembic/env.py\<close>, and the declarative
  schema of \<^verbatim>\<open>src/db.py\<close>. A migration is the list of the DDL operations its \<^verbatim>\<open>upgrade\<close> issues; their
  effect on a schema is PostgreSQL's, with its refusals: a table or a column that exists or is missing,
  and a \<^verbatim>\<open>NOT NULL\<close> column without a default on a table that holds rows.
\<close>

section \<open>Schemas\<close>

text \<open>\<^verbatim>\<open>sa.Enum\<close> names a database type and lists its values; a column of the database has the type by name.\<close>

datatype column_type = T_BigInteger | T_Integer | T_String | T_Float | T_Numeric nat nat | T_DateTimeTz | T_JSONB
  | T_Enum string "string list"

datatype server_default = Literal string | Now

datatype column_def = Column string column_type bool "server_default option"

fun column_name :: "column_def \<Rightarrow> string" where
  "column_name (Column n t nullable d) = n"

datatype key_constraint =
    PrimaryKey "string list"
  | UniqueKey "string list" "string option"
  | ForeignKey "string list" string "string list"

record table_def =
  ta_columns :: "column_def list"
  ta_constraints :: "key_constraint list"
  ta_indexes :: "(string \<times> string list) list"

record schema =
  sc_tables :: "string \<rightharpoonup> table_def"
  sc_enums :: "string \<rightharpoonup> string list"

definition empty_schema :: schema where
  "empty_schema = \<lparr>sc_tables = Map.empty, sc_enums = Map.empty\<rparr>"

datatype ddl =
    CreateTable string "column_def list" "key_constraint list"
  | CreateIndex string string "string list"
  | AddColumn string column_def
  | DropColumn string string
  | AddEnumValue string string

section \<open>Running DDL\<close>

definition refuse :: "string \<Rightarrow> exn + 'a" where
  "refuse m = Inl (SQLAlchemyError m)"

text \<open>Creating a table creates the enumeration types its columns name, unless they exist.\<close>

fun create_enum :: "column_def \<Rightarrow> (string \<rightharpoonup> string list) \<Rightarrow> (string \<rightharpoonup> string list)" where
  "create_enum (Column n (T_Enum e vs) nullable d) enums = (if enums e = None then enums(e \<mapsto> vs) else enums)"
| "create_enum _ enums = enums"

fun by_name :: "column_def \<Rightarrow> column_def" where
  "by_name (Column n (T_Enum e vs) nullable d) = Column n (T_Enum e []) nullable d"
| "by_name c = c"

fun admits_rows :: "column_def \<Rightarrow> bool" where
  "admits_rows (Column n t nullable d) \<longleftrightarrow> nullable \<or> d \<noteq> None"

fun mentions :: "string \<Rightarrow> key_constraint \<Rightarrow> bool" where
  "mentions c (PrimaryKey cs) \<longleftrightarrow> c \<in> set cs"
| "mentions c (UniqueKey cs n) \<longleftrightarrow> c \<in> set cs"
| "mentions c (ForeignKey cs t cs') \<longleftrightarrow> c \<in> set cs"

definition with_table :: "string \<Rightarrow> schema \<Rightarrow> (table_def \<Rightarrow> exn + table_def) \<Rightarrow> exn + schema" where
  "with_table t s f =
     (case sc_tables s t of None \<Rightarrow> refuse (''relation does not exist: '' @ t)
      | Some d \<Rightarrow> bind_result (f d) (\<lambda>d'. Inr (s\<lparr>sc_tables := (sc_tables s)(t \<mapsto> d')\<rparr>)))"

text \<open>\<open>populated\<close> says which tables hold rows.\<close>

fun run_ddl :: "(string \<Rightarrow> bool) \<Rightarrow> ddl \<Rightarrow> schema \<Rightarrow> exn + schema" where
  "run_ddl populated (CreateTable t cs ks) s =
     (if sc_tables s t \<noteq> None then refuse (''relation already exists: '' @ t)
      else Inr \<lparr>sc_tables = (sc_tables s)(t \<mapsto> \<lparr>ta_columns = map by_name cs, ta_constraints = ks, ta_indexes = []\<rparr>),
                sc_enums = fold create_enum cs (sc_enums s)\<rparr>)"
| "run_ddl populated (CreateIndex i t cs) s = with_table t s (\<lambda>d.
     if set cs \<subseteq> column_name ` set (ta_columns d) then Inr (d\<lparr>ta_indexes := ta_indexes d @ [(i, cs)]\<rparr>)
     else refuse ''column does not exist'')"
| "run_ddl populated (AddColumn t c) s = with_table t s (\<lambda>d.
     if column_name c \<in> column_name ` set (ta_columns d) then refuse (''column already exists: '' @ column_name c)
     else if populated t \<and> \<not> admits_rows c then refuse (''column contains null values: '' @ column_name c)
     else Inr (d\<lparr>ta_columns := ta_columns d @ [by_name c]\<rparr>))"
| "run_ddl populated (DropColumn t n) s = with_table t s (\<lambda>d.
     if n \<notin> column_name ` set (ta_columns d) then refuse (''column does not exist: '' @ n)
     else Inr (d\<lparr>ta_columns := filter (\<lambda>c. column_name c \<noteq> n) (ta_columns d),
                 ta_constraints := filter (\<lambda>k. \<not> mentions n k) (ta_constraints d),
                 ta_indexes := filter (\<lambda>(i, cs). n \<notin> set cs) (ta_indexes d)\<rparr>))"
| "run_ddl populated (AddEnumValue e v) s =
     (case sc_enums s e of None \<Rightarrow> refuse (''type does not exist: '' @ e)
      | Some vs \<Rightarrow> Inr (if v \<in> set vs then s else s\<lparr>sc_enums := (sc_enums s)(e \<mapsto> vs @ [v])\<rparr>))"

fun run_all :: "(string \<Rightarrow> bool) \<Rightarrow> ddl list \<Rightarrow> schema \<Rightarrow> exn + schema" where
  "run_all populated [] s = Inr s"
| "run_all populated (op # ops) s = bind_result (run_ddl populated op s) (run_all populated ops)"

section \<open>The migrations\<close>

record migration =
  mg_revision :: string
  mg_down_revision :: "string option"
  mg_upgrade :: "ddl list"

definition WALK_STATUS :: column_type where
  "WALK_STATUS = T_Enum ''walk_status'' [''idle'', ''walking'', ''interrupted'', ''completed'']"

definition DOCUMENT_STATUS :: column_type where
  "DOCUMENT_STATUS = T_Enum ''document_status'' [''queued'', ''processing'', ''completed'', ''skipped'', ''pending'']"

definition initial_schema :: migration where
  "initial_schema = \<lparr>mg_revision = ''0001_initial'', mg_down_revision = None, mg_upgrade = [
   CreateTable ''sync_state''
    [Column ''id'' T_BigInteger False None, Column ''drive_id'' T_String False None,
     Column ''delta_token'' T_String True None, Column ''resume_token'' T_String True None,
     Column ''walk_status'' WALK_STATUS False (Some (Literal ''idle'')),
     Column ''created_at'' T_DateTimeTz False (Some Now), Column ''updated_at'' T_DateTimeTz False (Some Now)]
    [PrimaryKey [''id''], UniqueKey [''drive_id''] None],
   CreateTable ''documents''
    [Column ''id'' T_BigInteger False None, Column ''sync_state_id'' T_BigInteger False None,
     Column ''drive_item_id'' T_String False None, Column ''file_name'' T_String True None,
     Column ''mime_type'' T_String True None, Column ''matter_folder'' T_String True None,
     Column ''content_hash'' T_String True None, Column ''previous_hash'' T_String True None,
     Column ''status'' DOCUMENT_STATUS False (Some (Literal ''queued'')), Column ''category'' T_String True None,
     Column ''confidence'' T_Float True None, Column ''classification_override'' T_String True None,
     Column ''classified_by'' T_String True None, Column ''graph_modified_at'' T_DateTimeTz True None,
     Column ''classified_at'' T_DateTimeTz True None, Column ''processed_at'' T_DateTimeTz True None,
     Column ''created_at'' T_DateTimeTz False (Some Now), Column ''updated_at'' T_DateTimeTz False (Some Now)]
    [ForeignKey [''sync_state_id''] ''sync_state'' [''id''], PrimaryKey [''id''],
     UniqueKey [''sync_state_id'', ''drive_item_id''] (Some ''uq_documents_sync_state_drive_item'')],
   CreateTable ''processing_log''
    [Column ''id'' T_BigInteger False None, Column ''document_id'' T_BigInteger False None,
     Column ''attempt'' T_Integer False None, Column ''status'' T_String False None,
     Column ''category'' T_String True None, Column ''confidence'' T_Float True None, Column ''error'' T_String True None,
     Column ''input_tokens'' T_Integer True None, Column ''output_tokens'' T_Integer True None,
     Column ''cost_usd'' (T_Numeric 12 6) True None, Column ''created_at'' T_DateTimeTz False (Some Now)]
    [ForeignKey [''document_id''] ''documents'' [''id''], PrimaryKey [''id'']],
   CreateIndex ''ix_processing_log_document_id'' ''processing_log'' [''document_id'']]\<rparr>"

definition replace_matter_folder :: migration where
  "replace_matter_folder = \<lparr>mg_revision = ''0002_folder_path'', mg_down_revision = Some ''0001_initial'', mg_upgrade = [
     AddColumn ''documents'' (Column ''folder_path'' T_String True None), DropColumn ''documents'' ''matter_folder'']\<rparr>"

definition add_last_synced_at :: migration where
  "add_last_synced_at = \<lparr>mg_revision = ''0003_last_synced_at'', mg_down_revision = Some ''0002_folder_path'', mg_upgrade = [
     AddColumn ''sync_state'' (Column ''last_synced_at'' T_DateTimeTz True None)]\<rparr>"

definition add_failed_status :: migration where
  "add_failed_status = \<lparr>mg_revision = ''0004_failed_status'', mg_down_revision = Some ''0003_last_synced_at'', mg_upgrade = [
     AddEnumValue ''document_status'' ''failed'',
     AddColumn ''documents'' (Column ''error_message'' T_String True None),
     AddColumn ''documents'' (Column ''retry_count'' T_Integer False (Some (Literal ''0'')))]\<rparr>"

definition add_raw_response :: migration where
  "add_raw_response = \<lparr>mg_revision = ''0005_raw_response'', mg_down_revision = Some ''0004_failed_status'', mg_upgrade = [
     AddColumn ''documents'' (Column ''raw_response'' T_JSONB True None)]\<rparr>"

definition migrations :: "migration list" where
  "migrations = [initial_schema, replace_matter_folder, add_last_synced_at, add_failed_status, add_raw_response]"

text \<open>Every \<^verbatim>\<open>downgrade\<close> refuses.\<close>

definition downgrade :: "migration \<Rightarrow> schema \<Rightarrow> exn + schema" where
  "downgrade mg s = Inl (NotImplementedError ''Downgrades are not supported; fix forward with a new migration.'')"

text \<open>
  The revisions an upgrade to the head runs from the current one: those that come after it along the
  \<^verbatim>\<open>down_revision\<close> links. The fuel is the number of migrations, so a chain is never cut off.
\<close>

fun pending :: "nat \<Rightarrow> migration list \<Rightarrow> string option \<Rightarrow> migration list" where
  "pending 0 ms current = []"
| "pending (Suc n) ms current =
     (case find (\<lambda>m. mg_down_revision m = current) ms of None \<Rightarrow> []
      | Some m \<Rightarrow> m # pending n ms (Some (mg_revision m)))"

text \<open>A database: the revision it is stamped with and its schema; which tables hold rows may change between migrations.\<close>

fun migrate :: "(string \<Rightarrow> string \<Rightarrow> bool) \<Rightarrow> migration list \<Rightarrow> string option \<times> schema \<Rightarrow> exn + (string option \<times> schema)" where
  "migrate populated [] db = Inr db"
| "migrate populated (m # ms) (current, s) =
     bind_result (run_all (populated (mg_revision m)) (mg_upgrade m) s) (\<lambda>s'. migrate populated ms (Some (mg_revision m), s'))"

definition upgrade_head :: "(string \<Rightarrow> string \<Rightarrow> bool) \<Rightarrow> string option \<times> schema \<Rightarrow> exn + (string option \<times> schema)" where
  "upgrade_head populated db = migrate populated (pending (length migrations) migrations (fst db)) db"

section \<open>The environment\<close>

text \<open>
  The options of the Alembic configuration are those of a \<^verbatim>\<open>ConfigParser\<close>: setting one refuses a percent
  sign that is neither doubled nor part of a reference \<^verbatim>\<open>%(name)s\<close>, and reading one undoubles and
  resolves them. \<open>options\<close> gives the values of the other options.
\<close>

fun drop_doubled :: "string \<Rightarrow> string" where
  "drop_doubled (a # b # r) = (if a = CHR ''%'' \<and> b = CHR ''%'' then drop_doubled r else a # drop_doubled (b # r))"
| "drop_doubled r = r"

text \<open>The reference a text opens with, after its percent sign, and what follows it.\<close>

definition reference :: "string \<Rightarrow> (string \<times> string) option" where
  "reference r = (case r of
       c # r' \<Rightarrow> (let n = takeWhile (\<lambda>x. x \<noteq> CHR '')'') r'; rest = drop (length n) r' in
         if c = CHR ''('' \<and> n \<noteq> [] \<and> take 2 rest = '')s'' then Some (n, drop 2 rest) else None)
     | [] \<Rightarrow> None)"

lemma reference_shorter: "reference r = Some (n, rest) \<Longrightarrow> length rest < length r"
  by (auto simp: reference_def Let_def split: list.splits if_splits)

function drop_references :: "string \<Rightarrow> string" where
  "drop_references [] = []"
| "drop_references (c # r) =
     (if c = CHR ''%'' then (case reference r of Some (n, rest) \<Rightarrow> drop_references rest | None \<Rightarrow> c # drop_references r)
      else c # drop_references r)"
  by pat_completeness auto
termination by (relation "measure length") (auto dest: reference_shorter)

definition set_main_option :: "string \<Rightarrow> exn + unit" where
  "set_main_option v = (let rest = drop_references (drop_doubled v) in
     if CHR ''%'' \<in> set rest
     then Inl (ValueError (''invalid interpolation syntax in '' @ py_repr v @ '' at position ''
       @ show_nat (length (takeWhile (\<lambda>c. c \<noteq> CHR ''%'') rest))))
     else Inr ())"

function get_main_option :: "(string \<Rightarrow> exn + string) \<Rightarrow> string \<Rightarrow> exn + string" where
  "get_main_option options [] = Inr []"
| "get_main_option options (c # r) =
     (if c \<noteq> CHR ''%'' then bind_result (get_main_option options r) (\<lambda>v. Inr (c # v))
      else if take 1 r = ''%'' then bind_result (get_main_option options (drop 1 r)) (\<lambda>v. Inr (CHR ''%'' # v))
      else (case reference r of
          Some (n, rest) \<Rightarrow> bind_result (options n) (\<lambda>x. bind_result (get_main_option options rest) (\<lambda>v. Inr (x @ v)))
        | None \<Rightarrow> Inl (OtherError ''bad interpolation variable reference'')))"
  by pat_completeness auto
termination by (relation "measure (\<lambda>(options, v). length v)") (auto dest: reference_shorter)

definition migration_url :: "pydantic \<Rightarrow> environment \<Rightarrow> exn + string" where
  "migration_url P env = bind_result (database_settings P env) (\<lambda>d.
     case db_url d of
       None \<Rightarrow> Inl (RuntimeError ''CLASSIFIER__DATABASE_URL must be set to run migrations.'')
     | Some u \<Rightarrow> bind_result (set_main_option u) (\<lambda>_. Inr u))"

text \<open>
  Offline, the operations are only emitted; online, they run in one transaction, on the connection the URL
  gives: \<open>connect\<close> is the engine's answer.
\<close>

definition run_migrations_offline :: "(string \<Rightarrow> exn + string) \<Rightarrow> string \<Rightarrow> exn + ddl list" where
  "run_migrations_offline options v = bind_result (get_main_option options v) (\<lambda>url.
     Inr (concat (map mg_upgrade (pending (length migrations) migrations None))))"

definition run_migrations_online ::
  "(string \<Rightarrow> exn + string) \<Rightarrow> (string \<Rightarrow> exn + unit) \<Rightarrow> (string \<Rightarrow> string \<Rightarrow> bool) \<Rightarrow> string
     \<Rightarrow> string option \<times> schema \<Rightarrow> (exn + unit) \<times> (string option \<times> schema)" where
  "run_migrations_online options connect populated v db =
     (case bind_result (get_main_option options v) (\<lambda>url. bind_result (connect url) (\<lambda>_. upgrade_head populated db)) of
        Inl e \<Rightarrow> (Inl e, db)
      | Inr db' \<Rightarrow> (Inr (), db'))"

text \<open>
  A URL without a percent sign reaches the database as it is, the one the application's engine uses; one
  with a percent-encoded character is refused, though the engine accepts it.
\<close>

lemma plain_options:
  assumes "CHR ''%'' \<notin> set v"
  shows "set_main_option v = Inr ()" "get_main_option options v = Inr v"
proof -
  have "drop_doubled v = v" using assms by (induction v rule: drop_doubled.induct) auto
  moreover have "drop_references v = v" using assms by (induction v) auto
  ultimately show "set_main_option v = Inr ()" using assms by (simp add: set_main_option_def)
  show "get_main_option options v = Inr v" using assms by (induction v) (auto simp: bind_result_def)
qed

lemma migration_url_plain:
  assumes "env ''CLASSIFIER__DATABASE_URL'' = Some u" and "CHR ''%'' \<notin> set u"
  shows "migration_url P env = Inr u" "get_main_option options u = Inr u"
  using plain_options [OF assms(2)] assms(1)
  by (simp_all add: migration_url_def database_settings_def optional_field_def bind_result_def)

lemma percent_encoded_url_refused:
  "migration_url P [''CLASSIFIER__DATABASE_URL'' \<mapsto> ''postgresql://u:p%40x@db''] =
     Inl (ValueError (''invalid interpolation syntax in '' @ py_repr ''postgresql://u:p%40x@db'' @ '' at position '' @ show_nat 16))"
  by (simp add: migration_url_def database_settings_def optional_field_def bind_result_def set_main_option_def reference_def
      Let_def numeral_eq_Suc)

lemma migration_url_unset:
  "env ''CLASSIFIER__DATABASE_URL'' = None \<Longrightarrow>
     migration_url P env = Inl (RuntimeError ''CLASSIFIER__DATABASE_URL must be set to run migrations.'')"
  by (simp add: migration_url_def database_settings_def optional_field_def bind_result_def)

lemma failed_migration_rolls_back: "run_migrations_online options connect populated v db = (Inl e, db') \<Longrightarrow> db' = db"
  by (auto simp: run_migrations_online_def split: sum.splits)

section \<open>The models\<close>

text \<open>\<^verbatim>\<open>Base.metadata\<close>: the tables the classes of \<^verbatim>\<open>src/db.py\<close> declare. \<^verbatim>\<open>index=True\<close> names its index after the column.\<close>

definition sync_state_table :: ddl where
  "sync_state_table = CreateTable ''sync_state''
    [Column ''id'' T_BigInteger False None, Column ''drive_id'' T_String False None,
     Column ''delta_token'' T_String True None, Column ''resume_token'' T_String True None,
     Column ''walk_status'' (T_Enum ''walk_status'' [''idle'', ''walking'', ''interrupted'', ''completed'']) False (Some (Literal ''idle'')),
     Column ''last_synced_at'' T_DateTimeTz True None, Column ''created_at'' T_DateTimeTz False (Some Now),
     Column ''updated_at'' T_DateTimeTz False (Some Now)]
    [PrimaryKey [''id''], UniqueKey [''drive_id''] None]"

definition documents_table :: ddl where
  "documents_table = CreateTable ''documents''
    [Column ''id'' T_BigInteger False None, Column ''sync_state_id'' T_BigInteger False None,
     Column ''drive_item_id'' T_String False None, Column ''file_name'' T_String True None,
     Column ''mime_type'' T_String True None, Column ''folder_path'' T_String True None,
     Column ''content_hash'' T_String True None, Column ''previous_hash'' T_String True None,
     Column ''status'' (T_Enum ''document_status'' [''queued'', ''processing'', ''completed'', ''skipped'', ''pending'', ''failed'']) False (Some (Literal ''queued'')),
     Column ''category'' T_String True None, Column ''confidence'' T_Float True None,
     Column ''classification_override'' T_String True None, Column ''classified_by'' T_String True None,
     Column ''raw_response'' T_JSONB True None, Column ''error_message'' T_String True None,
     Column ''retry_count'' T_Integer False (Some (Literal ''0'')), Column ''graph_modified_at'' T_DateTimeTz True None,
     Column ''classified_at'' T_DateTimeTz True None, Column ''processed_at'' T_DateTimeTz True None,
     Column ''created_at'' T_DateTimeTz False (Some Now), Column ''updated_at'' T_DateTimeTz False (Some Now)]
    [UniqueKey [''sync_state_id'', ''drive_item_id''] (Some ''uq_documents_sync_state_drive_item''), PrimaryKey [''id''],
     ForeignKey [''sync_state_id''] ''sync_state'' [''id'']]"

definition processing_log_table :: "ddl list" where
  "processing_log_table = [CreateTable ''processing_log''
    [Column ''id'' T_BigInteger False None, Column ''document_id'' T_BigInteger False None,
     Column ''attempt'' T_Integer False None, Column ''status'' T_String False None,
     Column ''category'' T_String True None, Column ''confidence'' T_Float True None, Column ''error'' T_String True None,
     Column ''input_tokens'' T_Integer True None, Column ''output_tokens'' T_Integer True None,
     Column ''cost_usd'' (T_Numeric 12 6) True None, Column ''created_at'' T_DateTimeTz False (Some Now)]
    [PrimaryKey [''id''], ForeignKey [''document_id''] ''documents'' [''id'']],
   CreateIndex ''ix_processing_log_document_id'' ''processing_log'' [''document_id'']]"

definition metadata :: "ddl list" where
  "metadata = [sync_state_table, documents_table] @ processing_log_table"

text \<open>Two schemas agree when they differ in the order of columns and constraints only.\<close>

definition same_table :: "table_def \<Rightarrow> table_def \<Rightarrow> bool" where
  "same_table a b \<longleftrightarrow> set (ta_columns a) = set (ta_columns b) \<and> length (ta_columns a) = length (ta_columns b)
     \<and> set (ta_constraints a) = set (ta_constraints b) \<and> set (ta_indexes a) = set (ta_indexes b)"

definition same_schema :: "schema \<Rightarrow> schema \<Rightarrow> bool" where
  "same_schema s t \<longleftrightarrow> dom (sc_tables s) = dom (sc_tables t) \<and> sc_enums s = sc_enums t
     \<and> (\<forall>n \<in> dom (sc_tables s). same_table (the (sc_tables s n)) (the (sc_tables t n)))"

lemmas ddl_eval = with_table_def bind_result_def initial_schema_def replace_matter_folder_def add_last_synced_at_def
  add_failed_status_def add_raw_response_def WALK_STATUS_def DOCUMENT_STATUS_def

text \<open>A chain runs in two parts as it runs in one; the revision says where it stands.\<close>

lemma migrate_append: "migrate p (xs @ ys) db = bind_result (migrate p xs db) (migrate p ys)"
proof (induction xs arbitrary: db)
  case (Cons m xs)
  show ?case by (cases db) (simp add: Cons.IH bind_result_def split: sum.split)
qed (simp add: bind_result_def)

lemma migrate_cong: "\<forall>m \<in> set ms. p (mg_revision m) = q (mg_revision m) \<Longrightarrow> migrate p ms db = migrate q ms db"
proof (induction ms arbitrary: db)
  case (Cons m ms)
  then show ?case by (cases db) (simp add: bind_result_def split: sum.split)
qed simp

lemma migrate_revision:
  "migrate p ms (c, s) = Inr (c', s') \<Longrightarrow> c' = (if ms = [] then c else Some (mg_revision (last ms)))"
  by (induction ms arbitrary: c s) (auto simp: bind_result_def split: sum.splits if_splits)

lemma pending_after:
  "pending (length migrations) migrations (if take k migrations = [] then None else Some (mg_revision (last (take k migrations)))) = drop k migrations"
proof -
  have "k = 0 \<or> k = 1 \<or> k = 2 \<or> k = 3 \<or> k = 4 \<or> (take k migrations = migrations \<and> drop k migrations = [])"
    by (simp add: migrations_def) presburger
  then show ?thesis
    by (elim disjE conjE) (simp_all add: migrations_def initial_schema_def replace_matter_folder_def add_last_synced_at_def
      add_failed_status_def add_raw_response_def)
qed

section \<open>What the keys mean\<close>

text \<open>The values of the columns that keys are made of.\<close>

datatype cell = Int_cell int | Text_cell string

definition sync_cells :: "sync_state \<Rightarrow> string \<rightharpoonup> cell" where
  "sync_cells r = [''id'' \<mapsto> Int_cell (ss_id r), ''drive_id'' \<mapsto> Text_cell (ss_drive_id r)]"

definition document_cells :: "document \<Rightarrow> string \<rightharpoonup> cell" where
  "document_cells d = [''id'' \<mapsto> Int_cell (d_id d), ''sync_state_id'' \<mapsto> Int_cell (d_sync_state_id d),
     ''drive_item_id'' \<mapsto> Text_cell (d_drive_item_id d)]"

definition log_cells :: "processing_log \<Rightarrow> string \<rightharpoonup> cell" where
  "log_cells l = [''id'' \<mapsto> Int_cell (pl_id l), ''document_id'' \<mapsto> Int_cell (pl_document_id l)]"

definition table_rows :: "store \<Rightarrow> string \<Rightarrow> (string \<rightharpoonup> cell) list" where
  "table_rows s t = (if t = ''sync_state'' then map sync_cells (t_sync_state s)
     else if t = ''documents'' then map document_cells (t_documents s)
     else if t = ''processing_log'' then map log_cells (t_processing_log s) else [])"

fun key_holds :: "store \<Rightarrow> string \<Rightarrow> key_constraint \<Rightarrow> bool" where
  "key_holds s t (PrimaryKey cs) \<longleftrightarrow> distinct (map (\<lambda>r. map r cs) (table_rows s t))"
| "key_holds s t (UniqueKey cs n) \<longleftrightarrow> distinct (map (\<lambda>r. map r cs) (table_rows s t))"
| "key_holds s t (ForeignKey cs t' cs') \<longleftrightarrow>
     set (map (\<lambda>r. map r cs) (table_rows s t)) \<subseteq> set (map (\<lambda>r. map r cs') (table_rows s t'))"

definition keys_hold :: "schema \<Rightarrow> store \<Rightarrow> bool" where
  "keys_hold sch s \<longleftrightarrow> (\<forall>t \<in> dom (sc_tables sch). \<forall>k \<in> set (ta_constraints (the (sc_tables sch t))). key_holds s t k)"

lemma distinct_map_inj: "inj f \<Longrightarrow> distinct (map (\<lambda>x. f (g x)) xs) \<longleftrightarrow> distinct (map g xs)"
  by (auto simp: distinct_map inj_on_def)

lemma image_inj_subset: "inj f \<Longrightarrow> (\<lambda>x. f (g x)) ` A \<subseteq> (\<lambda>x. f (h x)) ` B \<longleftrightarrow> g ` A \<subseteq> h ` B"
  by (auto simp: inj_def subset_eq image_iff) metis+

lemma inj_cells: "inj (\<lambda>i. [Some (Int_cell i)])" "inj (\<lambda>x. [Some (Text_cell x)])"
  "inj (\<lambda>k. [Some (Int_cell (fst k)), Some (Text_cell (snd k))])"
  by (auto simp: inj_def prod_eq_iff)

lemmas key_evals = distinct_map_inj [OF inj_cells(1)] distinct_map_inj [OF inj_cells(2)]
  distinct_map_inj [OF inj_cells(3), where g = doc_key, unfolded doc_key_def fst_conv snd_conv] image_inj_subset [OF inj_cells(1)]

definition model_schema :: schema where
  "model_schema = (case run_all (\<lambda>_. False) metadata empty_schema of Inr s \<Rightarrow> s | Inl _ \<Rightarrow> empty_schema)"

lemmas model_eval = metadata_def sync_state_table_def documents_table_def processing_log_table_def ddl_eval empty_schema_def

lemma models_created: "run_all (\<lambda>_. False) metadata empty_schema = Inr model_schema"
  by (simp add: model_schema_def model_eval)

lemma model_keys: "keys_hold model_schema s \<longleftrightarrow> store_ok s"
  by (simp add: keys_hold_def model_schema_def model_eval table_rows_def comp_def sync_cells_def document_cells_def log_cells_def
      store_ok_def key_evals doc_key_def [abs_def] image_image conj_ac)

definition migrated_schema :: schema where
  "migrated_schema = (case upgrade_head (\<lambda>_ _. False) (None, empty_schema) of Inr (_, s) \<Rightarrow> s | Inl _ \<Rightarrow> empty_schema)"

lemma migrated_whole: "migrate populated migrations (None, empty_schema) = Inr (Some ''0005_raw_response'', migrated_schema)"
proof -
  have "pending (length migrations) migrations None = migrations" using pending_after [of 0] by simp
  then show ?thesis by (simp add: migrated_schema_def upgrade_head_def) (simp add: migrations_def model_eval)
qed

lemma migrated_from:
  "\<exists>current s. migrate populated (take k migrations) (None, empty_schema) = Inr (current, s)
     \<and> upgrade_head populated' (current, s) = Inr (Some ''0005_raw_response'', migrated_schema)"
proof -
  let ?p = "\<lambda>r. if r \<in> mg_revision ` set (take k migrations) then populated r else populated' r"
  have d: "distinct (map mg_revision migrations)"
    by (simp add: migrations_def initial_schema_def replace_matter_folder_def add_last_synced_at_def add_failed_status_def add_raw_response_def)
  have "set (take k (map mg_revision migrations)) \<inter> set (drop k (map mg_revision migrations)) = {}"
    using d by (metis append_take_drop_id distinct_append)
  then have "\<forall>m \<in> set (drop k migrations). ?p (mg_revision m) = populated' (mg_revision m)"
    by (auto simp: take_map drop_map)
  then have second: "migrate ?p (drop k migrations) db = migrate populated' (drop k migrations) db" for db by (rule migrate_cong)
  have first: "migrate ?p (take k migrations) db = migrate populated (take k migrations) db" for db by (rule migrate_cong) simp
  have "bind_result (migrate populated (take k migrations) (None, empty_schema)) (migrate populated' (drop k migrations))
      = migrate ?p (take k migrations @ drop k migrations) (None, empty_schema)"
    unfolding migrate_append first second ..
  then obtain current s where run: "migrate populated (take k migrations) (None, empty_schema) = Inr (current, s)"
      "migrate populated' (drop k migrations) (current, s) = Inr (Some ''0005_raw_response'', migrated_schema)"
    by (auto simp: migrated_whole bind_result_def split: sum.splits)
  with migrate_revision [OF run(1)] pending_after [of k] show ?thesis by (auto simp: upgrade_head_def)
qed

lemma migrated_same: "same_schema migrated_schema model_schema"
  by (simp add: same_schema_def same_table_def migrated_schema_def model_schema_def upgrade_head_def migrations_def model_eval
      set_eq_subset [where 'a = column_def] set_eq_subset [where 'a = key_constraint] set_eq_subset [where 'a = string])

section \<open>Properties\<close>

text \<open>
  Claim C39. The migrations and the models agree: from any revision, an empty database upgraded to it before,
  whatever tables hold rows at any point, an upgrade to the head succeeds and gives the schema the
  models of \<^verbatim>\<open>src/db.py\<close> declare, up to the order of columns; and the keys of that schema hold of a store
  exactly when it is consistent in the sense every job keeps.
\<close>

theorem migrations_reach_models:
  "\<exists>current s s'. migrate populated (take k migrations) (None, empty_schema) = Inr (current, s)
     \<and> upgrade_head populated' (current, s) = Inr (Some ''0005_raw_response'', s')
     \<and> run_all (\<lambda>_. False) metadata empty_schema = Inr model_schema
     \<and> same_schema s' model_schema \<and> (keys_hold model_schema st \<longleftrightarrow> store_ok st)"
  using migrated_from [of populated k populated'] models_created migrated_same model_keys by blast

end
