(* ===== verification/QueueSetup.thy ===== *)
theory QueueSetup
  imports AppConfig
begin

text \<open>
  The script that creates the work queue in the local storage emulator, \<^verbatim>\<open>infra/create-queue.py\<close>. What the
  service answers to each attempt, and whether the client can be built, are parameters.
\<close>

definition MAX_ATTEMPTS :: nat where "MAX_ATTEMPTS = 30"

datatype create_answer = Created | Already_exists | Raised exn

text \<open>\<^verbatim>\<open>os.environ[name]\<close>.\<close>

definition environ :: "environment \<Rightarrow> string \<Rightarrow> exn + string" where
  "environ env name = (case env name of None \<Rightarrow> Inl (KeyError name) | Some v \<Rightarrow> Inr v)"

text \<open>The attempts that remain.\<close>

fun attempt_creation :: "(nat \<Rightarrow> create_answer) \<Rightarrow> string \<Rightarrow> nat list \<Rightarrow> exn + unit" where
  "attempt_creation answer name [] =
     Inl (SystemExit (''Timed out waiting for Azurite to accept creation of queue '' @ py_repr name))"
| "attempt_creation answer name (attempt # rest) =
     (case answer attempt of
        Created \<Rightarrow> Inr ()
      | Already_exists \<Rightarrow> Inr ()
      | Raised e \<Rightarrow> if is_azure_error e then attempt_creation answer name rest else Inl e)"

definition create_queue_main :: "environment \<Rightarrow> (string \<Rightarrow> string \<Rightarrow> exn + unit) \<Rightarrow> (nat \<Rightarrow> create_answer) \<Rightarrow> exn + unit" where
  "create_queue_main env connect answer =
     bind_result (environ env ''CLASSIFIER__QUEUE_CONNECTION_STRING'') (\<lambda>connection_string.
     bind_result (environ env ''CLASSIFIER__QUEUE_NAME'') (\<lambda>name.
     bind_result (connect connection_string name) (\<lambda>_.
     attempt_creation answer name [1..<MAX_ATTEMPTS + 1])))"

lemma first_success_step:
  "(\<exists>k. i \<le> k \<and> k < j \<and> good k \<and> (\<forall>l. i \<le> l \<and> l < k \<longrightarrow> bad l)) \<longleftrightarrow>
     i < j \<and> (good i \<or> bad i \<and> (\<exists>k. Suc i \<le> k \<and> k < j \<and> good k \<and> (\<forall>l. Suc i \<le> l \<and> l < k \<longrightarrow> bad l)))"
  (is "?lhs \<longleftrightarrow> ?rhs")
proof
  assume ?lhs
  then obtain k where k: "i \<le> k" "k < j" "good k" "\<And>l. i \<le> l \<Longrightarrow> l < k \<Longrightarrow> bad l" by blast
  show ?rhs
  proof (cases "k = i")
    case False
    with k have "Suc i \<le> k" "bad i" "i < j" by auto
    with k show ?thesis by (meson Suc_leD)
  qed (use k in simp)
next
  assume r: ?rhs
  then consider "good i" | k where "bad i" "Suc i \<le> k" "k < j" "good k" "\<forall>l. Suc i \<le> l \<and> l < k \<longrightarrow> bad l" by blast
  then show ?lhs
  proof cases
    case 2
    then have "bad l" if "i \<le> l" "l < k" for l using that by (cases "l = i") auto
    with 2 show ?thesis by (meson Suc_leD)
  qed (use r in auto)
qed

lemma attempt_creation_iff:
  "attempt_creation answer name [i..<j] = Inr () \<longleftrightarrow>
     (\<exists>k. i \<le> k \<and> k < j \<and> answer k \<in> {Created, Already_exists} \<and>
        (\<forall>l. i \<le> l \<and> l < k \<longrightarrow> (\<exists>e. answer l = Raised e \<and> is_azure_error e)))"
proof (induction "j - i" arbitrary: i)
  case 0
  then show ?case by simp
next
  case (Suc n)
  then have ij: "i < j" "n = j - Suc i" by simp_all
  then have list: "[i..<j] = i # [Suc i..<j]" by (simp add: upt_conv_Cons)
  show ?case
    by (subst first_success_step, subst Suc.hyps(1) [OF ij(2), symmetric])
      (cases "answer i", simp_all add: list ij)
qed

text \<open>The service is not ready for the attempt.\<close>

definition not_ready :: "create_answer \<Rightarrow> bool" where
  "not_ready a \<longleftrightarrow> (\<exists>e. a = Raised e \<and> is_azure_error e)"

lemma attempt_creation_Inl_iff:
  "attempt_creation answer name [i..<j] = Inl e \<longleftrightarrow>
     (\<exists>k. i \<le> k \<and> k < j \<and> (answer k = Raised e \<and> \<not> is_azure_error e) \<and> (\<forall>l. i \<le> l \<and> l < k \<longrightarrow> not_ready (answer l)))
     \<or> e = SystemExit (''Timed out waiting for Azurite to accept creation of queue '' @ py_repr name) \<and> (\<forall>l. i \<le> l \<and> l < j \<longrightarrow> not_ready (answer l))"
proof (induction "j - i" arbitrary: i)
  case 0
  then show ?case by auto
next
  case (Suc n)
  then have ij: "i < j" "n = j - Suc i" by simp_all
  then have list: "[i..<j] = i # [Suc i..<j]" by (simp add: upt_conv_Cons)
  have all: "(\<forall>l. i \<le> l \<and> l < j \<longrightarrow> not_ready (answer l)) \<longleftrightarrow> not_ready (answer i) \<and> (\<forall>l. Suc i \<le> l \<and> l < j \<longrightarrow> not_ready (answer l))"
    using ij(1) by (metis Suc_leD Suc_leI le_neq_implies_less order_refl)
  have "attempt_creation answer name [i..<j] = Inl e \<longleftrightarrow>
      (if not_ready (answer i) then attempt_creation answer name [Suc i..<j] = Inl e else answer i = Raised e \<and> \<not> is_azure_error e)"
    by (cases "answer i") (auto simp: list not_ready_def)
  also have "\<dots> \<longleftrightarrow> (answer i = Raised e \<and> \<not> is_azure_error e) \<or> not_ready (answer i) \<and> attempt_creation answer name [Suc i..<j] = Inl e"
    by (auto simp: not_ready_def)
  finally show ?case
    unfolding all by (subst first_success_step) (simp only: Suc.hyps(1) [OF ij(2)] ij(1), blast)
qed

section \<open>Properties\<close>

text \<open>
  Claim C32. The queue-creation script tries at most 30 times. With both settings present and a client that
  builds, it succeeds exactly when some attempt finds the queue created or already there and every attempt before
  met an Azure error; it ends with the exception of an attempt exactly when that one is no Azure error and every
  attempt before met one; and it times out, with \<^verbatim>\<open>SystemExit\<close>, exactly when all 30 attempts
  met an Azure error.
\<close>

theorem queue_created_within_attempts:
  assumes "env ''CLASSIFIER__QUEUE_CONNECTION_STRING'' = Some c" and "env ''CLASSIFIER__QUEUE_NAME'' = Some name" and "connect c name = Inr ()"
  shows "(create_queue_main env connect answer = Inr () \<longleftrightarrow>
      (\<exists>k. 1 \<le> k \<and> k \<le> 30 \<and> answer k \<in> {Created, Already_exists}
        \<and> (\<forall>l. 1 \<le> l \<and> l < k \<longrightarrow> (\<exists>e. answer l = Raised e \<and> is_azure_error e))))
    \<and> (\<forall>e. create_queue_main env connect answer = Inl e \<longleftrightarrow>
      (\<exists>k. 1 \<le> k \<and> k \<le> 30 \<and> answer k = Raised e \<and> \<not> is_azure_error e
        \<and> (\<forall>l. 1 \<le> l \<and> l < k \<longrightarrow> (\<exists>e. answer l = Raised e \<and> is_azure_error e)))
      \<or> e = SystemExit (''Timed out waiting for Azurite to accept creation of queue '' @ py_repr name)
        \<and> (\<forall>l. 1 \<le> l \<and> l \<le> 30 \<longrightarrow> (\<exists>e. answer l = Raised e \<and> is_azure_error e)))"
proof -
  have run: "create_queue_main env connect answer = attempt_creation answer name [1..<31]"
    using assms by (simp add: create_queue_main_def environ_def bind_result_def MAX_ATTEMPTS_def del: upt_Suc upt_rec_numeral)
  have bound: "l < 31 \<longleftrightarrow> l \<le> 30" for l :: nat by auto
  show ?thesis
    unfolding run attempt_creation_iff attempt_creation_Inl_iff not_ready_def bound by simp
qed

text \<open>The emulator is down for two attempts and then has the queue; it never comes up; the name is refused at once.\<close>

definition queue_environment :: environment where
  "queue_environment = [''CLASSIFIER__QUEUE_CONNECTION_STRING'' \<mapsto> ''c'', ''CLASSIFIER__QUEUE_NAME'' \<mapsto> ''work'']"

theorem queue_created_within_attempts_witness:
  "create_queue_main queue_environment (\<lambda>_ _. Inr ()) (\<lambda>k. if k < 3 then Raised (AzureError ''down'') else Already_exists) = Inr ()
   \<and> create_queue_main queue_environment (\<lambda>_ _. Inr ()) (\<lambda>_. Raised (AzureError ''down''))
      = Inl (SystemExit (''Timed out waiting for Azurite to accept creation of queue '' @ py_repr ''work''))
   \<and> create_queue_main queue_environment (\<lambda>_ _. Inr ()) (\<lambda>_. Raised (ValueError ''bad'')) = Inl (ValueError ''bad'')"
proof -
  have env: "queue_environment ''CLASSIFIER__QUEUE_CONNECTION_STRING'' = Some ''c''" "queue_environment ''CLASSIFIER__QUEUE_NAME'' = Some ''work''"
    by (simp_all add: queue_environment_def)
  note spec = queue_created_within_attempts [where env = queue_environment and connect = "\<lambda>_ _. Inr ()", OF env refl]
  show ?thesis
  proof (intro conjI)
    show "create_queue_main queue_environment (\<lambda>_ _. Inr ()) (\<lambda>k. if k < 3 then Raised (AzureError ''down'') else Already_exists) = Inr ()"
      by (subst spec [THEN conjunct1]) (rule exI [of _ 3], auto)
    show "create_queue_main queue_environment (\<lambda>_ _. Inr ()) (\<lambda>_. Raised (AzureError ''down''))
        = Inl (SystemExit (''Timed out waiting for Azurite to accept creation of queue '' @ py_repr ''work''))"
      by (subst spec [THEN conjunct2, rule_format]) simp
    show "create_queue_main queue_environment (\<lambda>_ _. Inr ()) (\<lambda>_. Raised (ValueError ''bad'')) = Inl (ValueError ''bad'')"
      by (subst spec [THEN conjunct2, rule_format]) (rule disjI1, rule exI [of _ 1], auto)
  qed
qed

end
