(* ===== verification/Spec2Isabelle.thy ===== *)
theory Spec2Isabelle
  imports EndToEnd Interleaving Migrations QueueSetup
begin

text \<open>
  A verification development for the document classifier: a command line that classifies a directory of
  documents into the categories of a Markdown file, and a cloud pipeline that does the same for a
  SharePoint library, a mounted directory or a blob container.

  \<^bold>\<open>The program.\<close> A \<^emph>\<open>category file\<close> (\<^verbatim>\<open>src/categories.py\<close>) gives the labels. The \<^emph>\<open>classifier\<close> (\<^verbatim>\<open>src/jev.py\<close>,
  \<^verbatim>\<open>src/classifier.py\<close>) puts a document's text and the labels to the Jev service and checks its answer. The
  \<^emph>\<open>command line\<close> (\<^verbatim>\<open>src/main.py\<close>) enumerates a directory (\<^verbatim>\<open>src/sources.py\<close>), extracts each text
  (\<^verbatim>\<open>src/extraction.py\<close>), classifies it and writes a CSV file (\<^verbatim>\<open>src/writer.py\<close>). The pipeline has two jobs that
  meet in a PostgreSQL \<^emph>\<open>state store\<close> (\<^verbatim>\<open>src/db.py\<close>) and an Azure \<^emph>\<open>queue\<close> (\<^verbatim>\<open>src/message_queue.py\<close>,
  \<^verbatim>\<open>src/models.py\<close>). The \<^emph>\<open>walker\<close> job (\<^verbatim>\<open>src/walker.py\<close>, \<^verbatim>\<open>src/filesystem_walker.py\<close>, \<^verbatim>\<open>src/blob_walker.py\<close>) finds
  new and changed files and hands each to the \<^emph>\<open>enqueuer\<close> (\<^verbatim>\<open>src/enqueuer.py\<close>), which commits a row and then
  sends a message. The \<^emph>\<open>processor\<close> job (\<^verbatim>\<open>src/processor.py\<close>) receives one message, fetches the file again
  (\<^verbatim>\<open>src/content_source.py\<close>, \<^verbatim>\<open>src/blob_source.py\<close>, \<^verbatim>\<open>src/graph_client.py\<close>), classifies it, records the result or
  the failure, and deletes the message.

  \<^bold>\<open>How code becomes definitions.\<close> Pure functions are HOL functions and a call that may raise has the type
  \<^typ>\<open>exn + 'a\<close>, the exceptions being the constructors of \<^typ>\<open>exn\<close>. A method that touches the store, the queue
  or a clock is an operation of \<^theory_text>\<open>Prelude\<close>: a function from a state to a result and a state. The state of the
  jobs is the record \<^typ>\<open>world\<close>: the durable store, the session's working copy, the sequences of the
  identifiers, a counter of the calls made to the outside, and the trace of the commits, roll-backs, sends,
  receipts and deletions. What the outside answers is an environment record, one per component, each
  extending the one below: every call asks it with the counter, so that any call may fail, at any point, and
  two calls need not agree. Strings are lists of 8-bit characters, so the code points of the program's texts
  are those below 256, and bytes are lists of numbers or words. Floats are the rationals with infinities and
  NaN of \<^theory_text>\<open>PyValues\<close>, integers of Python are \<^typ>\<open>int\<close>, the words of SHA-256 are \<^typ>\<open>32 word\<close>, and times are microseconds.

  \<^bold>\<open>The theories.\<close>
  \<^item> \<^theory_text>\<open>Prelude\<close>, \<^theory_text>\<open>Errors\<close>: operations with exceptions; the judgements of what an operation may change, which
    exceptions it may raise and when it returns, with the collections that prove them; lists and tables;
    \<^verbatim>\<open>src/errors.py\<close>.
  \<^item> \<^theory_text>\<open>PyText\<close>, \<^theory_text>\<open>PyRegex\<close>, \<^theory_text>\<open>PyPath\<close>, \<^theory_text>\<open>PyValues\<close>, \<^theory_text>\<open>Utf8\<close>, \<^theory_text>\<open>Sha256\<close>: the parts of Python's library the code
    uses: string methods, \<^verbatim>\<open>re.match\<close> by backtracking, \<^verbatim>\<open>pathlib\<close>, floats, JSON values and dictionaries, the two
    codecs, and \<^verbatim>\<open>hashlib.sha256\<close>.
  \<^item> \<^theory_text>\<open>Categories\<close>, \<^theory_text>\<open>TextExtraction\<close>, \<^theory_text>\<open>Sources\<close>, \<^theory_text>\<open>AppConfig\<close>, \<^theory_text>\<open>Classifier\<close>, \<^theory_text>\<open>CsvWriter\<close>, \<^theory_text>\<open>CommandLine\<close>: the
    command line and what it calls, one theory per file of \<^verbatim>\<open>src/\<close> (\<^theory_text>\<open>AppConfig\<close> is \<^verbatim>\<open>src/config.py\<close>).
  \<^item> \<^theory_text>\<open>Sdk\<close>: what the constructors of the cloud SDKs' clients answer, as parameters; any of them may refuse its
    arguments. The definitions that call them take this record.
  \<^item> \<^theory_text>\<open>Database\<close>, \<^theory_text>\<open>WorkQueue\<close>, \<^theory_text>\<open>Enqueuer\<close>: the store and its session, the queue client, the enqueue core.
  \<^item> \<^theory_text>\<open>GraphClient\<close>, \<^theory_text>\<open>ContentSource\<close>, \<^theory_text>\<open>Walker\<close>, \<^theory_text>\<open>LocalWalkers\<close>: the Graph API, retrieval, and the producers.
  \<^item> \<^theory_text>\<open>ResultWriter\<close>, \<^theory_text>\<open>Processor\<close>, \<^theory_text>\<open>ProcessorRuns\<close>: the result UPSERT, the consumer, and what its runs amount to.
  \<^item> \<^theory_text>\<open>Jobs\<close>: the entry points of both jobs, from the settings to the exit code.
  \<^item> \<^theory_text>\<open>Deployment\<close>, \<^theory_text>\<open>EndToEnd\<close>: sequences of jobs over one store, the life cycle of a document they refine, and
    the way of one file from discovery to its classification.
  \<^item> \<^theory_text>\<open>Transactions\<close>, \<^theory_text>\<open>Interleaving\<close>: the runs of the jobs cut at their commits, and what holds however these
    transactions are interleaved with those of other jobs and of operators.
  \<^item> \<^theory_text>\<open>Migrations\<close>, \<^theory_text>\<open>QueueSetup\<close>: \<^verbatim>\<open>alembic/\<close> with the declarative schema of \<^verbatim>\<open>src/db.py\<close>, and
    \<^verbatim>\<open>infra/create-queue.py\<close>.

  Definitions keep the names of the code, with the class as a prefix where two classes share a method name:
  \<^const>\<open>fs_walk\<close> is \<^verbatim>\<open>FilesystemWalker.walk\<close>, \<^const>\<open>blob_download\<close> is \<^verbatim>\<open>BlobContentSource.download\<close>. The locales are the
  code's seams: \<^verbatim>\<open>LabelClassifier\<close>, \<^verbatim>\<open>TextExtractor\<close>, \<^verbatim>\<open>DocumentSource\<close>, \<^verbatim>\<open>ContentSource\<close>, \<^verbatim>\<open>ResultWriter\<close>, the settings
  sections, the queue as a channel, the enqueuer as its producers use it and the producers themselves; and
  the frames through which one invariant is carried along every step of a walk or of a run.

  \<^bold>\<open>What is shown.\<close>
  \<^item> \<^emph>\<open>The store.\<close> Whatever fails, every job leaves the constraints of the schema standing and nothing
    uncommitted; a human label is never changed nor lost, nor is the category beside it, and audit rows are
    only added. The schema that the migrations build, from any revision, is the one the models declare, and
    its keys say of a store what that invariant says.
  \<^item> \<^emph>\<open>The queue.\<close> A message is sent only right after the commit of its row, a queued file is not sent again, a
    message is deleted only right after the commit of its outcome, and a message in the queue always names
    a row that exists.
  \<^item> \<^emph>\<open>One work item.\<close> A pure decision on the row and on the services' answers says what processing does: the row,
    the audit row, the exception and the trace are determined by it, on every path, failures of the store
    included. The states a failed attempt can leave are listed.
  \<^item> \<^emph>\<open>Walks.\<close> Every walk returns; the two tokens of a delta walk move only at its end; a second walk of an
    unchanged directory sends nothing and writes only its own row of \<^verbatim>\<open>sync_state\<close>; the hash a walker records is the one the processor compares.
  \<^item> \<^emph>\<open>Jobs at the same time.\<close> Each run is a sequence of transactions of a concurrent system, in which any number of
    processors go through stages, walkers enqueue, operators edit and runs are killed between transactions. Every reachable
    system is consistent and no job loses a row, a label or an audit row. A label given while its document is being
    classified is kept, but leaves the row in \<^verbatim>\<open>processing\<close>, where no walk queues it again.
  \<^item> \<^emph>\<open>The whole.\<close> Every deployment reachable by whole runs is consistent; each job refines an abstract machine of a document's
    life, of two steps at most for a processor run; and a file that a walk comes to, on services that answer, ends classified once its message is delivered, with one audit row.
  \<^item> \<^emph>\<open>The command line.\<close> A batch equals its reference, result names are unique, the CSV file reads back, and each
    exit code and each exception that escapes is explained. A read of an open DOCX document is outside every handler, so
    what it raises aborts the batch.
  \<^item> \<^emph>\<open>The parsers.\<close> Taxonomies are well-formed and survive a round trip; registries, codecs and delta
    URLs agree with their counterparts; each settings section reflects its variables, and a half-configured one never
    passes as absent where the code has a check for it, which the blob section lacks.
  \<^item> \<^emph>\<open>The entry points.\<close> The settings and the clients' constructors decide what a job does; a job that is not started
    does nothing. The script that creates the queue succeeds exactly when the emulator answers within its attempts.

  \<^bold>\<open>Bounds and fuel.\<close> The delta iteration follows links for as long as Graph sends them, so \<^const>\<open>walk_loop\<close> and
  \<^const>\<open>iter_delta\<close> carry fuel and give \<^const>\<open>None\<close> when it runs out. A walk reads the clock after every page and
  stops at its deadline, so on a clock that advances some fuel suffices whatever Graph answers, which is
  proved; the flat iterator, which has no deadline, is shown to return once the fuel exceeds the number of pages.
  The processor job and the other walks need none; a run of the processor has five
  stages, and \<^const>\<open>carry_on\<close> with fuel five is shown to be the whole run. \<^const>\<open>pending\<close> has the number of migrations as its fuel, and the regular-expression matcher recurs on
  the pattern and on the text. \<^const>\<open>drop_references\<close> and \<^const>\<open>get_main_option\<close> terminate by the length of the text.

  \<^bold>\<open>Assumptions on the outside.\<close> They are premises of the theorems that need them: the SDKs' calls raise only the
  exceptions their documentation names (the reads of an open DOCX document may raise anything but the program's own
  classes, and the constructors of the clients anything), pydantic reads back what it wrote, the database answers (where a
  theorem says what then happens), the clock advances, and the file system gives the same answers while one run looks. Each has an instance in the witnesses.

  \<^bold>\<open>Not modelled.\<close> The libraries themselves (pypdf, python-docx, httpx, azure, SQLAlchemy, pydantic's conversions):
  they are parameters. Argument parsing and \<^verbatim>\<open>--help\<close>: the model starts at the parsed arguments. Log lines, except
  for the attribute reads they make on rows whose commit has expired them. Closing of clients and transports.
  PostgreSQL's weaker isolation levels: jobs interleave between transactions, and a transaction itself is atomic, so a
  change of the store between a query and the commit it leads to is outside. The visibility time-out of the queue appears only as the
  freedom of the environment to deliver any message that was sent, any number of times.
\<close>

end
